(* ===== verification/Rust_Prelude.thy ===== *)
theory Rust_Prelude
  imports Main "HOL-Library.Word" "HOL-Library.Multiset"
begin

text \<open>
  What every component of the development shares: the machine integers of the target
  (\<open>x86_64-rusty_os.json\<close> fixes a 64-bit pointer width), the ways a Rust call ends, sequencing of
  stateful calls, Rust's arithmetic under both settings of \<open>overflow-checks\<close>, the
  little-endian conversions of the standard library, and generic lemmas on lists and words.

  The parameter \<open>oc\<close> that many definitions carry is Cargo's \<open>overflow-checks\<close> setting:
  \<^term>\<open>True\<close> for the dev and test profiles, where an overflowing \<open>+\<close>, \<open>-\<close> or \<open>*\<close> panics, and
  \<^term>\<open>False\<close> for the release profile the README builds, where it wraps around.
\<close>

unbundle bit_operations_syntax

section \<open>Types\<close>

type_synonym u8 = "8 word"
type_synonym u16 = "16 word"
type_synonym u32 = "32 word"
type_synonym u64 = "64 word"
type_synonym usize = "64 word"

text \<open>
  How a call ends: it returns, it panics (the kernel stops: \<open>panic-strategy\<close> is abort), or it never
  completes, as an \<open>await\<close> whose event never comes or a loop that runs forever.
\<close>

datatype 'a outcome = Ret 'a | Panic string | Hang

text \<open>Rust's \<open>Result\<close> and \<open>Poll\<close>.\<close>

datatype ('a, 'e) result = Ok 'a | Err 'e

datatype 'a poll = Ready 'a | Pending

text \<open>A call that reads and changes a state of type \<^typ>\<open>'s\<close>.\<close>

type_synonym ('s, 'a) io = "'s \<Rightarrow> 'a outcome \<times> 's"

section \<open>Collections of simplification rules\<close>

named_theorems io_simps \<open>sequencing of outcomes and of stateful calls\<close>
named_theorems arith_simps \<open>checked machine arithmetic that does not overflow\<close>

section \<open>Sequencing\<close>

definition obind :: "'a outcome \<Rightarrow> ('a \<Rightarrow> 'b outcome) \<Rightarrow> 'b outcome" where
  "obind m f = (case m of Ret x \<Rightarrow> f x | Panic e \<Rightarrow> Panic e | Hang \<Rightarrow> Hang)"

definition io_ret :: "'a \<Rightarrow> ('s, 'a) io" where
  "io_ret x = (\<lambda>s. (Ret x, s))"

definition io_panic :: "string \<Rightarrow> ('s, 'a) io" where
  "io_panic msg = (\<lambda>s. (Panic msg, s))"

definition io_bind :: "('s, 'a) io \<Rightarrow> ('a \<Rightarrow> ('s, 'b) io) \<Rightarrow> ('s, 'b) io" where
  "io_bind m f = (\<lambda>s. case m s of
       (Ret x, s') \<Rightarrow> f x s'
     | (Panic e, s') \<Rightarrow> (Panic e, s')
     | (Hang, s') \<Rightarrow> (Hang, s'))"

definition io_lift :: "'a outcome \<Rightarrow> ('s, 'a) io" where
  "io_lift m = (\<lambda>s. (m, s))"

definition io_gets :: "('s \<Rightarrow> 'a) \<Rightarrow> ('s, 'a) io" where
  "io_gets f = (\<lambda>s. (Ret (f s), s))"

definition io_modify :: "('s \<Rightarrow> 's) \<Rightarrow> ('s, unit) io" where
  "io_modify f = (\<lambda>s. (Ret (), f s))"

text \<open>The \<open>?\<close> operator: an \<^const>\<open>Err\<close> leaves the enclosing function, keeping the state.\<close>

definition io_try ::
  "('s, ('a, 'e) result) io \<Rightarrow> ('a \<Rightarrow> ('s, ('b, 'e) result) io) \<Rightarrow> ('s, ('b, 'e) result) io" where
  "io_try m f = io_bind m (\<lambda>r. case r of Ok x \<Rightarrow> f x | Err e \<Rightarrow> io_ret (Err e))"

lemma obind_simps [simp, io_simps]:
  "obind (Ret x) f = f x"
  "obind (Panic e) f = Panic e"
  "obind Hang f = Hang"
  by (simp_all add: obind_def)

lemma io_apply [simp, io_simps]:
  "io_ret x s = (Ret x, s)"
  "io_panic e s = (Panic e, s)"
  "io_lift m s = (m, s)"
  "io_gets g s = (Ret (g s), s)"
  "io_modify h s = (Ret (), h s)"
  by (simp_all add: io_ret_def io_panic_def io_lift_def io_gets_def io_modify_def)

lemma io_bind_Ret [io_simps]: "m s = (Ret x, s') \<Longrightarrow> io_bind m f s = f x s'"
  by (simp add: io_bind_def)

lemma io_bind_Panic [io_simps]: "m s = (Panic e, s') \<Longrightarrow> io_bind m f s = (Panic e, s')"
  by (simp add: io_bind_def)

lemma io_bind_Hang [io_simps]: "m s = (Hang, s') \<Longrightarrow> io_bind m f s = (Hang, s')"
  by (simp add: io_bind_def)

lemma io_bind_basic [simp, io_simps]:
  "io_bind (io_ret x) f = f x"
  "io_bind (io_lift (Ret x)) f = f x"
  "io_bind (io_gets g) f s = f (g s) s"
  "io_bind (io_modify h) k s = k () (h s)"
  by (simp_all add: io_bind_def io_ret_def io_lift_def)

lemma io_bind_RetE:
  assumes "io_bind m f s = (Ret y, s')"
  obtains x s1 where "m s = (Ret x, s1)" and "f x s1 = (Ret y, s')"
  using assms by (auto simp: io_bind_def split: prod.splits outcome.splits)

lemma io_try_Ok [io_simps]: "m s = (Ret (Ok x), s') \<Longrightarrow> io_try m f s = f x s'"
  by (simp add: io_try_def io_bind_def)

lemma io_try_Err [io_simps]: "m s = (Ret (Err e), s') \<Longrightarrow> io_try m f s = (Ret (Err e), s')"
  by (simp add: io_try_def io_bind_def)

lemma io_try_Panic [io_simps]: "m s = (Panic e, s') \<Longrightarrow> io_try m f s = (Panic e, s')"
  by (simp add: io_try_def io_bind_def)

lemma io_try_Hang [io_simps]: "m s = (Hang, s') \<Longrightarrow> io_try m f s = (Hang, s')"
  by (simp add: io_try_def io_bind_def)

lemma io_try_OkE:
  assumes "io_try m f s = (Ret (Ok y), s')"
  obtains x s1 where "m s = (Ret (Ok x), s1)" and "f x s1 = (Ret (Ok y), s')"
  using assms by (auto simp: io_try_def io_bind_def split: prod.splits outcome.splits result.splits)

section \<open>Arithmetic with and without overflow checks\<close>

definition add_oc :: "bool \<Rightarrow> 'a::len word \<Rightarrow> 'a word \<Rightarrow> 'a word outcome" where
  "add_oc oc a b =
     (if oc \<and> 2 ^ LENGTH('a) \<le> unat a + unat b
      then Panic ''attempt to add with overflow'' else Ret (a + b))"

definition sub_oc :: "bool \<Rightarrow> 'a::len word \<Rightarrow> 'a word \<Rightarrow> 'a word outcome" where
  "sub_oc oc a b =
     (if oc \<and> unat a < unat b
      then Panic ''attempt to subtract with overflow'' else Ret (a - b))"

definition mul_oc :: "bool \<Rightarrow> 'a::len word \<Rightarrow> 'a word \<Rightarrow> 'a word outcome" where
  "mul_oc oc a b =
     (if oc \<and> 2 ^ LENGTH('a) \<le> unat a * unat b
      then Panic ''attempt to multiply with overflow'' else Ret (a * b))"

text \<open>\<open>checked_add\<close> is the same in both profiles.\<close>

definition checked_add :: "'a::len word \<Rightarrow> 'a word \<Rightarrow> 'a word option" where
  "checked_add a b = (if unat a + unat b < 2 ^ LENGTH('a) then Some (a + b) else None)"

definition rem_chk :: "'a::len word \<Rightarrow> 'a word \<Rightarrow> 'a word outcome" where
  "rem_chk a b =
     (if b = 0 then Panic ''attempt to calculate the remainder with a divisor of zero''
      else Ret (a mod b))"

lemma unat_add_nowrap:
  "unat a + unat (b :: 'a::len word) < 2 ^ LENGTH('a) \<Longrightarrow> unat (a + b) = unat a + unat b"
  by (simp add: unat_word_ariths)

lemma unat_mul_nowrap:
  "unat a * unat (b :: 'a::len word) < 2 ^ LENGTH('a) \<Longrightarrow> unat (a * b) = unat a * unat b"
  by (simp add: unat_word_ariths)

lemma unat_sub_nowrap:
  "unat (b :: 'a::len word) \<le> unat a \<Longrightarrow> unat (a - b) = unat a - unat b"
  by (simp add: unat_sub_if')

lemma add_oc_Ret [arith_simps]:
  "unat a + unat (b :: 'a::len word) < 2 ^ LENGTH('a) \<Longrightarrow> add_oc oc a b = Ret (a + b)"
  by (simp add: add_oc_def)

lemma sub_oc_Ret [arith_simps]:
  "unat (b :: 'a::len word) \<le> unat a \<Longrightarrow> sub_oc oc a b = Ret (a - b)"
  by (simp add: sub_oc_def)

lemma sub_oc_one [arith_simps]: "a \<noteq> 0 \<Longrightarrow> sub_oc oc (a :: 'a::len word) 1 = Ret (a - 1)"
  by (simp add: sub_oc_def unat_eq_zero [symmetric] Suc_le_eq del: unat_eq_zero)

lemma mul_oc_Ret [arith_simps]:
  "unat a * unat (b :: 'a::len word) < 2 ^ LENGTH('a) \<Longrightarrow> mul_oc oc a b = Ret (a * b)"
  by (simp add: mul_oc_def)

lemma oc_False [simp]:
  "add_oc False a b = Ret (a + b)"
  "sub_oc False a b = Ret (a - b)"
  "mul_oc False a b = Ret (a * b)"
  by (simp_all add: add_oc_def sub_oc_def mul_oc_def)

lemma rem_chk_Ret [arith_simps]: "b \<noteq> 0 \<Longrightarrow> rem_chk a b = Ret (a mod b)"
  by (simp add: rem_chk_def)

lemma checked_add_Some [arith_simps]:
  "unat a + unat (b :: 'a::len word) < 2 ^ LENGTH('a) \<Longrightarrow> checked_add a b = Some (a + b)"
  by (simp add: checked_add_def)

lemma checked_add_SomeD:
  assumes "checked_add a (b :: 'a::len word) = Some c"
  shows "c = a + b" and "unat c = unat a + unat b"
  using assms by (auto simp: checked_add_def unat_add_nowrap split: if_splits)

section \<open>Little-endian conversions\<close>

definition u16_from_le_bytes :: "u8 \<Rightarrow> u8 \<Rightarrow> u16" where
  "u16_from_le_bytes b0 b1 = ucast b0 OR push_bit 8 (ucast b1)"

definition u16_to_le_bytes :: "u16 \<Rightarrow> u8 list" where
  "u16_to_le_bytes w = [ucast w, ucast (drop_bit 8 w)]"

definition u32_from_le_bytes :: "u8 \<Rightarrow> u8 \<Rightarrow> u8 \<Rightarrow> u8 \<Rightarrow> u32" where
  "u32_from_le_bytes b0 b1 b2 b3 =
     ucast b0 OR push_bit 8 (ucast b1) OR push_bit 16 (ucast b2) OR push_bit 24 (ucast b3)"

definition u32_to_le_bytes :: "u32 \<Rightarrow> u8 list" where
  "u32_to_le_bytes w = [ucast w, ucast (drop_bit 8 w), ucast (drop_bit 16 w), ucast (drop_bit 24 w)]"

text \<open>The masks of the source as truncations.\<close>

lemma and_masks [simp]:
  "(w :: 'a::len word) AND 0x0F = take_bit 4 w"
  "w AND 0xFF = take_bit 8 w"
  "w AND 0xFFFF = take_bit 16 w"
  by (simp_all add: take_bit_eq_mask mask_eq_exp_minus_1)

lemma length_to_le_bytes [simp]:
  "length (u16_to_le_bytes v) = 2"
  "length (u32_to_le_bytes w) = 4"
  by (simp_all add: u16_to_le_bytes_def u32_to_le_bytes_def)

lemma u16_le_roundtrip [simp]: "u16_from_le_bytes (ucast w) (ucast (drop_bit 8 w)) = w"
  unfolding u16_from_le_bytes_def
  by (rule bit_word_eqI) (auto simp: bit_simps)

lemma u32_le_roundtrip [simp]:
  "u32_from_le_bytes (ucast w) (ucast (drop_bit 8 w)) (ucast (drop_bit 16 w)) (ucast (drop_bit 24 w)) = w"
proof (rule bit_word_eqI)
  fix n assume "n < LENGTH(32)"
  then consider "n < 8" | "8 \<le> n" "n < 16" | "16 \<le> n" "n < 24" | "24 \<le> n" "n < 32"
    by fastforce
  then show "bit (u32_from_le_bytes (ucast w) (ucast (drop_bit 8 w)) (ucast (drop_bit 16 w))
      (ucast (drop_bit 24 w))) n = bit w n"
    by cases (auto simp: u32_from_le_bytes_def bit_simps)
qed

lemma u16_from_to_le_bytes:
  "u16_from_le_bytes (u16_to_le_bytes w ! 0) (u16_to_le_bytes w ! 1) = w"
  by (simp add: u16_to_le_bytes_def)

lemma u32_from_to_le_bytes:
  "u32_from_le_bytes (u32_to_le_bytes w ! 0) (u32_to_le_bytes w ! 1)
     (u32_to_le_bytes w ! 2) (u32_to_le_bytes w ! 3) = w"
  by (simp add: u32_to_le_bytes_def)

section \<open>Text\<close>

text \<open>String literals, and the formats \<open>{}\<close>, \<open>{:x}\<close> and \<open>{:#x}\<close> of a number, \<open>{:02x}\<close> and \<open>{:#04x}\<close> of a byte.\<close>

definition bytes :: "string \<Rightarrow> u8 list" where
  "bytes s = map of_char s"

fun show_dec :: "nat \<Rightarrow> u8 list" where
  "show_dec n = (if n < 10 then [48 + of_nat n] else show_dec (n div 10) @ [48 + of_nat (n mod 10)])"

definition hex_digit :: "nat \<Rightarrow> u8" where
  "hex_digit n = (if n < 10 then 48 + of_nat n else 87 + of_nat n)"

fun show_hex :: "nat \<Rightarrow> u8 list" where
  "show_hex n = (if n < 16 then [hex_digit n] else show_hex (n div 16) @ [hex_digit (n mod 16)])"

declare show_dec.simps [simp del] show_hex.simps [simp del]

definition show_byte :: "u8 \<Rightarrow> u8 list" where
  "show_byte b = [hex_digit (unat b div 16), hex_digit (unat b mod 16)]"

definition show_0x :: "u8 \<Rightarrow> u8 list" where
  "show_0x b = bytes ''0x'' @ show_hex (unat b)"

definition show_0x_byte :: "u8 \<Rightarrow> u8 list" where
  "show_0x_byte b = bytes ''0x'' @ show_byte b"

section \<open>Lists\<close>

text \<open>\<open>dst[off..off + src.len()].copy_from_slice(src)\<close>.\<close>

definition copy_slice :: "'a list \<Rightarrow> nat \<Rightarrow> 'a list \<Rightarrow> 'a list" where
  "copy_slice dst off src = take off dst @ src @ drop (off + length src) dst"

lemma length_copy_slice [simp]:
  "off + length src \<le> length dst \<Longrightarrow> length (copy_slice dst off src) = length dst"
  by (simp add: copy_slice_def)

lemma nth_copy_slice:
  assumes "off + length src \<le> length dst" and "i < length dst"
  shows "copy_slice dst off src ! i =
    (if off \<le> i \<and> i < off + length src then src ! (i - off) else dst ! i)"
  using assms by (auto simp: copy_slice_def nth_append)

text \<open>Pairwise properties by a symmetric relation do not depend on the order of the list.\<close>

lemma sorted_wrt_move:
  assumes "symp P"
  shows "sorted_wrt P (us @ x # vs) \<longleftrightarrow> sorted_wrt P (x # us @ vs)"
  using assms by (auto simp: sorted_wrt_append dest: sympD)

lemma sorted_wrt_mset:
  assumes "symp P" and "mset xs = mset ys"
  shows "sorted_wrt P xs \<longleftrightarrow> sorted_wrt P ys"
  using assms(2)
proof (induction xs arbitrary: ys)
  case Nil
  then show ?case by simp
next
  case (Cons x xs)
  then have "x \<in> set ys" by (metis list.set_intros(1) set_mset_mset)
  then obtain us vs where ys: "ys = us @ x # vs" by (meson split_list)
  with Cons.prems have m: "mset xs = mset (us @ vs)" by simp
  then have "set xs = set (us @ vs)" by (metis set_mset_mset)
  with Cons.IH [OF m] ys sorted_wrt_move [OF assms(1), of us x vs] show ?case by auto
qed

lemma distinct_sorted_wrt: "distinct xs \<longleftrightarrow> sorted_wrt (\<noteq>) xs"
  by (induction xs) auto

end
