(* ===== verification/Allocator.thy ===== *)
theory Allocator
  imports Rust_Prelude
begin

text \<open>
  \<open>src/allocator.rs\<close>: the heap constants, \<open>align_up\<close>, the \<open>Dummy\<close> allocator, the parts of
  \<open>core::alloc::Layout\<close> the allocators call, and the contract of \<open>GlobalAlloc\<close> as a locale.

  The three allocators of the repository (theories \<open>Bump\<close>, \<open>Linked_List\<close> and
  \<open>Fixed_Size_Block\<close>) interpret the locale, so that one lemma about a client that allocates and
  frees in any order gives the memory safety of each of them. The lock around an allocator
  (\<open>Locked\<close>) makes every call atomic, which is how the calls are modelled.
\<close>

section \<open>Heap constants and \<open>align_up\<close>\<close>

definition HEAP_START :: usize where
  "HEAP_START = 0x444444440000"

definition HEAP_SIZE :: usize where
  "HEAP_SIZE = 100 * 1024"

definition align_up :: "bool \<Rightarrow> usize \<Rightarrow> usize \<Rightarrow> usize outcome" where
  "align_up oc addr align =
     obind (rem_chk addr align) (\<lambda>remainder.
       if remainder = 0 then Ret addr
       else obind (sub_oc oc addr remainder) (\<lambda>a. add_oc oc a align))"

section \<open>Layouts\<close>

text \<open>
  \<open>core::alloc::Layout\<close>. \<open>from_size_align\<close> accepts a power-of-two alignment and a size that,
  rounded up to it, does not exceed \<open>isize::MAX\<close>.
\<close>

record layout =
  l_size :: usize
  l_align :: usize

definition is_power_of_two :: "usize \<Rightarrow> bool" where
  "is_power_of_two a = list_ex (\<lambda>k. a = 2 ^ k) [0..<64]"

definition layout_valid :: "layout \<Rightarrow> bool" where
  "layout_valid l \<longleftrightarrow>
     is_power_of_two (l_align l) \<and> unat (l_size l) + unat (l_align l) \<le> 2 ^ 63"

definition from_size_align :: "usize \<Rightarrow> usize \<Rightarrow> (layout, unit) result" where
  "from_size_align sz al =
     (let l = \<lparr>l_size = sz, l_align = al\<rparr> in if layout_valid l then Ok l else Err ())"

definition layout_align_to :: "layout \<Rightarrow> usize \<Rightarrow> (layout, unit) result" where
  "layout_align_to l al = from_size_align (l_size l) (max (l_align l) al)"

definition pad_to_align :: "layout \<Rightarrow> layout" where
  "pad_to_align l =
     l\<lparr>l_size := (l_size l + (l_align l - 1)) div l_align l * l_align l\<rparr>"

text \<open>What a caller of \<open>GlobalAlloc::alloc\<close> may ask for: a valid layout of non-zero size.\<close>

definition request_ok :: "layout \<Rightarrow> bool" where
  "request_ok l \<longleftrightarrow> layout_valid l \<and> l_size l \<noteq> 0"

section \<open>The \<open>Dummy\<close> allocator\<close>

definition Dummy_alloc :: "layout \<Rightarrow> (unit, usize) io" where
  "Dummy_alloc layout = io_ret 0"

definition Dummy_dealloc :: "usize \<Rightarrow> layout \<Rightarrow> (unit, unit) io" where
  "Dummy_dealloc ptr layout = io_panic ''dealloc should be never called''"

section \<open>Blocks, and what it means for live blocks to be safe\<close>

type_synonym block = "usize \<times> layout"

definition block_range :: "block \<Rightarrow> nat set" where
  "block_range b = {unat (fst b) ..< unat (fst b) + unat (l_size (snd b))}"

definition block_ok :: "nat \<Rightarrow> nat \<Rightarrow> block \<Rightarrow> bool" where
  "block_ok lo hi b \<longleftrightarrow>
     fst b \<noteq> 0 \<and> unat (l_align (snd b)) dvd unat (fst b) \<and>
     lo \<le> unat (fst b) \<and> unat (fst b) + unat (l_size (snd b)) \<le> hi"

abbreviation apart :: "block \<Rightarrow> block \<Rightarrow> bool" where
  "apart a b \<equiv> block_range a \<inter> block_range b = {}"

definition live_ok :: "nat \<Rightarrow> nat \<Rightarrow> block list \<Rightarrow> bool" where
  "live_ok lo hi bs \<longleftrightarrow> (\<forall>b \<in> set bs. block_ok lo hi b) \<and> sorted_wrt apart bs"

text \<open>
  A client: it asks for memory, or frees the \<open>i\<close>-th of the blocks it holds (an index that names
  none is no call at all). \<open>run_ops\<close> keeps the blocks that are live.
\<close>

datatype alloc_op = AllocOp layout | FreeOp nat

definition delete_nth :: "nat \<Rightarrow> 'a list \<Rightarrow> 'a list" where
  "delete_nth i xs = take i xs @ drop (Suc i) xs"

fun run_ops ::
  "(layout \<Rightarrow> ('s, usize) io) \<Rightarrow> (usize \<Rightarrow> layout \<Rightarrow> ('s, unit) io) \<Rightarrow> alloc_op list \<Rightarrow>
   's \<times> block list \<Rightarrow> ('s \<times> block list) outcome" where
  "run_ops al de [] (s, bs) = Ret (s, bs)"
| "run_ops al de (AllocOp l # ops) (s, bs) =
     (case al l s of
        (Ret p, s') \<Rightarrow> run_ops al de ops (s', if p = 0 then bs else (p, l) # bs)
      | (Panic e, s') \<Rightarrow> Panic e
      | (Hang, s') \<Rightarrow> Hang)"
| "run_ops al de (FreeOp i # ops) (s, bs) =
     (if i < length bs
      then (case de (fst (bs ! i)) (snd (bs ! i)) s of
              (Ret u, s') \<Rightarrow> run_ops al de ops (s', delete_nth i bs)
            | (Panic e, s') \<Rightarrow> Panic e
            | (Hang, s') \<Rightarrow> Hang)
      else run_ops al de ops (s, bs))"

fun op_ok :: "(layout \<Rightarrow> bool) \<Rightarrow> alloc_op \<Rightarrow> bool" where
  "op_ok ok (AllocOp l) = ok l"
| "op_ok ok (FreeOp i) = True"

section \<open>The contract of \<open>GlobalAlloc\<close>\<close>

text \<open>
  \<open>inv s bs\<close>: in allocator state \<open>s\<close> the blocks \<open>bs\<close> are live. \<open>accepts\<close> is the set of layouts for
  which the allocator keeps the contract: a null pointer or a fresh block, and no panic.
\<close>

locale global_alloc =
  fixes alloc :: "layout \<Rightarrow> ('s, usize) io"
    and dealloc :: "usize \<Rightarrow> layout \<Rightarrow> ('s, unit) io"
    and inv :: "'s \<Rightarrow> block list \<Rightarrow> bool"
    and accepts :: "layout \<Rightarrow> bool"
    and lo :: nat
    and hi :: nat
  assumes alloc_law: "inv s bs \<Longrightarrow> accepts l \<Longrightarrow>
      \<exists>p s'. alloc l s = (Ret p, s') \<and> inv s' (if p = 0 then bs else (p, l) # bs)"
    and dealloc_law: "inv s bs \<Longrightarrow> i < length bs \<Longrightarrow>
      \<exists>s'. dealloc (fst (bs ! i)) (snd (bs ! i)) s = (Ret (), s') \<and> inv s' (delete_nth i bs)"
    and live_law: "inv s bs \<Longrightarrow> live_ok lo hi bs"
begin

lemma run_step_alloc:
  assumes "inv s bs" and "accepts l"
  obtains s' bs' where "run_ops alloc dealloc (AllocOp l # ops) (s, bs) = run_ops alloc dealloc ops (s', bs')"
    and "inv s' bs'"
proof -
  from alloc_law [OF assms] obtain p s' where
    "alloc l s = (Ret p, s')" "inv s' (if p = 0 then bs else (p, l) # bs)" by blast
  then show ?thesis using that by simp
qed

lemma run_step_free:
  assumes "inv s bs"
  obtains s' bs' where "run_ops alloc dealloc (FreeOp i # ops) (s, bs) = run_ops alloc dealloc ops (s', bs')"
    and "inv s' bs'"
proof (cases "i < length bs")
  case True
  from dealloc_law [OF assms True] obtain s' where
    "dealloc (fst (bs ! i)) (snd (bs ! i)) s = (Ret (), s')" "inv s' (delete_nth i bs)" by blast
  then show ?thesis using that True by simp
next
  case False
  then show ?thesis using that assms by simp
qed

lemma run_ops_inv:
  assumes "inv s bs" and "list_all (op_ok accepts) ops"
  shows "\<exists>s' bs'. run_ops alloc dealloc ops (s, bs) = Ret (s', bs') \<and> inv s' bs'"
  using assms
proof (induction ops arbitrary: s bs)
  case Nil
  then show ?case by simp
next
  case (Cons op ops)
  show ?case
  proof (cases op)
    case (AllocOp l)
    with Cons.prems have "accepts l" by simp
    from run_step_alloc [OF Cons.prems(1) this, of ops] obtain s' bs' where
      "run_ops alloc dealloc (AllocOp l # ops) (s, bs) = run_ops alloc dealloc ops (s', bs')"
      and "inv s' bs'" by blast
    with Cons AllocOp show ?thesis by simp
  next
    case (FreeOp i)
    from run_step_free [OF Cons.prems(1), of i ops] obtain s' bs' where
      "run_ops alloc dealloc (FreeOp i # ops) (s, bs) = run_ops alloc dealloc ops (s', bs')"
      and "inv s' bs'" by blast
    with Cons FreeOp show ?thesis by simp
  qed
qed

theorem run_ops_safe:
  assumes "inv s bs" and "list_all (op_ok accepts) ops"
  shows "\<exists>s' bs'. run_ops alloc dealloc ops (s, bs) = Ret (s', bs') \<and> inv s' bs' \<and> live_ok lo hi bs'"
  using run_ops_inv [OF assms] live_law by blast

end

section \<open>Facts about \<open>align_up\<close> and layouts\<close>

lemma is_power_of_two_iff: "is_power_of_two a \<longleftrightarrow> (\<exists>k<64. a = 2 ^ k)"
  by (auto simp: is_power_of_two_def list_ex_iff)


lemma unat_pow2 [simp]: "k < 64 \<Longrightarrow> unat ((2::usize) ^ k) = 2 ^ k"
proof -
  assume k: "k < 64"
  have "(2::usize) ^ k = word_of_nat (2 ^ k)" by simp
  then have "unat ((2::usize) ^ k) = 2 ^ k mod 2 ^ LENGTH(64)" by (simp only: unat_of_nat)
  moreover have "(2::nat) ^ k < 2 ^ LENGTH(64)" using k by (intro power_strict_increasing) auto
  ultimately show ?thesis by (simp only: mod_less)
qed

text \<open>The result in both profiles where nothing overflows: the least multiple not below \<open>addr\<close>.\<close>

lemma align_up_Ret:
  assumes "align \<noteq> 0" and "unat addr + unat align \<le> 2 ^ 64"
  obtains r where "align_up oc addr align = Ret r" and "unat align dvd unat r"
    and "unat addr \<le> unat r" and "unat r < unat addr + unat align"
proof (cases "addr mod align = 0")
  let ?a = "unat addr" and ?n = "unat align"
  have m: "unat (addr mod align) = ?a mod ?n" by (simp add: unat_mod)
  case True
  then have "?n dvd ?a" using m by (simp add: mod_eq_0_iff_dvd)
  moreover have "0 < ?n" using assms(1) by (simp add: unat_gt_0)
  ultimately show ?thesis using True assms that by (auto simp: align_up_def rem_chk_Ret)
next
  let ?a = "unat addr" and ?n = "unat align" and ?r = "addr - addr mod align + align"
  have m: "unat (addr mod align) = ?a mod ?n" by (simp add: unat_mod)
  case False
  have n: "0 < ?n" using assms(1) by (simp add: unat_gt_0)
  have lt: "0 < ?a mod ?n" using False m by (metis unat_eq_zero not_gr_zero)
  have low: "unat (addr - addr mod align) = ?a - ?a mod ?n" by (simp add: m unat_sub_nowrap)
  have fits: "?a - ?a mod ?n + ?n < 2 ^ 64"
    using assms(2) lt mod_less_eq_dividend [of ?a ?n] by linarith
  have "align_up oc addr align = Ret ?r"
    using False assms(1) fits low by (simp add: align_up_def arith_simps m)
  moreover have r: "unat ?r = ?a - ?a mod ?n + ?n" using fits low by (simp add: unat_add_nowrap)
  moreover have "?n dvd ?a - ?a mod ?n + ?n" by (intro dvd_add dvd_refl dvd_minus_mod)
  moreover have "?a \<le> ?a - ?a mod ?n + ?n" using mod_less_divisor [OF n, of ?a] by linarith
  moreover have "?a - ?a mod ?n + ?n < ?a + ?n"
    using lt mod_less_eq_dividend [of ?a ?n] by linarith
  ultimately show ?thesis using that by metis
qed

text \<open>The same value as a formula on naturals.\<close>

definition round_up :: "nat \<Rightarrow> nat \<Rightarrow> nat" where
  "round_up n a = (n + a - 1) div a * a"

lemma round_up_unique:
  assumes "a dvd m" and "n \<le> m" and "m < n + a"
  shows "m = round_up n a"
proof -
  from assms have a: "0 < a" by linarith
  from assms(1) obtain k where k: "m = k * a" by (metis dvd_def mult.commute)
  have "(n + a - 1) div a = k"
  proof (rule div_nat_eqI)
    show "a * k \<le> n + a - 1" using assms(3) k by (simp add: mult.commute)
    show "n + a - 1 < a * Suc k" using assms(2) k a by (simp add: mult.commute)
  qed
  with k show ?thesis by (simp add: round_up_def)
qed

lemma align_up_round_up:
  assumes "align \<noteq> 0" and "unat addr + unat align \<le> 2 ^ 64"
  obtains r where "align_up oc addr align = Ret r" and "unat r = round_up (unat addr) (unat align)"
  using align_up_Ret [OF assms, of oc] round_up_unique by metis

lemma align_up_aligned [simp]: "align \<noteq> 0 \<Longrightarrow> unat align dvd unat addr \<Longrightarrow> align_up oc addr align = Ret addr"
  by (simp add: align_up_def rem_chk_Ret word_arith_nat_mod)

lemma layout_validD:
  assumes "layout_valid l"
  shows "l_align l \<noteq> 0" and "0 < unat (l_align l)" and "unat (l_align l) \<le> 2 ^ 63"
    and "unat (l_size l) \<le> 2 ^ 63 - unat (l_align l)"
proof -
  from assms obtain k where "k < 64" "l_align l = 2 ^ k"
    by (auto simp: layout_valid_def is_power_of_two_iff)
  then have "0 < unat (l_align l)" by simp
  then show "0 < unat (l_align l)" and "l_align l \<noteq> 0" by auto
  from assms show "unat (l_align l) \<le> 2 ^ 63" and "unat (l_size l) \<le> 2 ^ 63 - unat (l_align l)"
    by (auto simp: layout_valid_def)
qed

lemma pow2_dvd_pow2:
  assumes "is_power_of_two a" and "is_power_of_two b" and "unat a \<le> unat b"
  shows "unat a dvd unat b"
  using assms by (auto simp: is_power_of_two_iff le_imp_power_dvd power_le_imp_le_exp)

lemma pad_to_align_size:
  assumes "layout_valid l"
  shows "unat (l_align l) dvd unat (l_size (pad_to_align l))"
    and "unat (l_size l) \<le> unat (l_size (pad_to_align l))"
    and "unat (l_size (pad_to_align l)) < unat (l_size l) + unat (l_align l)"
proof -
  let ?s = "unat (l_size l)" and ?a = "unat (l_align l)"
  note v = layout_validD [OF assms]
  have pad: "l_size (pad_to_align l) = (l_size l + (l_align l - 1)) div l_align l * l_align l"
    by (simp add: pad_to_align_def)
  have "unat (l_align l - 1) = ?a - 1" using v(2) by (simp add: unat_sub_nowrap Suc_le_eq)
  then have add: "unat (l_size l + (l_align l - 1)) = ?s + (?a - 1)"
    using v by (subst unat_add_nowrap) auto
  let ?q = "(?s + (?a - 1)) div ?a"
  have q: "?q * ?a \<le> ?s + (?a - 1)" by simp
  have d: "unat ((l_size l + (l_align l - 1)) div l_align l) = ?q" by (simp only: unat_div add)
  have "?s + (?a - 1) < 2 ^ LENGTH(64)" using v by simp
  then have "?q * ?a < 2 ^ LENGTH(64)" by (rule le_less_trans [OF q])
  then have "unat (l_size (pad_to_align l)) = ?q * ?a"
    unfolding pad by (subst unat_mul_nowrap) (simp_all only: d)
  moreover have "?s \<le> ?q * ?a"
    using v(2) div_mult_mod_eq [of "?s + (?a - 1)" ?a] mod_less_divisor [of ?a "?s + (?a - 1)"]
    by linarith
  moreover have "?q * ?a < ?s + ?a" using q v(2) by linarith
  ultimately show "?a dvd unat (l_size (pad_to_align l))"
    and "?s \<le> unat (l_size (pad_to_align l))"
    and "unat (l_size (pad_to_align l)) < ?s + ?a"
    by (simp_all only: dvd_triv_right)
qed

lemma pad_to_align_align [simp]: "l_align (pad_to_align l) = l_align l"
  by (simp add: pad_to_align_def)

section \<open>Facts about lists of live blocks\<close>

lemma set_delete_nth: "set (delete_nth i xs) \<subseteq> set xs"
  by (auto simp: delete_nth_def dest: in_set_takeD in_set_dropD)

lemma length_delete_nth [simp]: "i < length xs \<Longrightarrow> length (delete_nth i xs) = length xs - 1"
  by (simp add: delete_nth_def)

lemma delete_nth_split: "i < length xs \<Longrightarrow> xs = take i xs @ xs ! i # drop (Suc i) xs"
  by (rule id_take_nth_drop)

lemma sorted_wrt_delete_nth: "sorted_wrt P xs \<Longrightarrow> sorted_wrt P (delete_nth i xs)"
  by (cases "i < length xs")
    (auto simp: delete_nth_def sorted_wrt_append sorted_wrt_take sorted_wrt_drop
      dest!: delete_nth_split, metis append.assoc append_Cons sorted_wrt_append list.set_intros(2))

lemma live_ok_Nil [simp]: "live_ok lo hi []"
  by (simp add: live_ok_def)

lemma live_ok_Cons:
  "live_ok lo hi (b # bs) \<longleftrightarrow> block_ok lo hi b \<and> (\<forall>c \<in> set bs. apart b c) \<and> live_ok lo hi bs"
  by (auto simp: live_ok_def)

lemma live_ok_delete_nth: "live_ok lo hi bs \<Longrightarrow> live_ok lo hi (delete_nth i bs)"
  using set_delete_nth [of i bs] by (auto simp: live_ok_def sorted_wrt_delete_nth)

section \<open>Properties\<close>

text \<open>
  \<open>align_up\<close>, exactly and in both profiles: for a non-zero alignment the result is the least
  multiple of \<open>align\<close> not below \<open>addr\<close>, reduced modulo \<open>2^64\<close>; with overflow checks on, a
  multiple that does not fit in \<open>usize\<close> is a panic instead. A zero alignment always panics.
\<close>

theorem align_up_exact:
  "align_up oc addr align =
     (if align = 0 then Panic ''attempt to calculate the remainder with a divisor of zero''
      else if oc \<and> 2 ^ 64 \<le> round_up (unat addr) (unat align) then Panic ''attempt to add with overflow''
      else Ret (word_of_nat (round_up (unat addr) (unat align))))"
proof (cases "align = 0")
  case True
  then show ?thesis by (simp add: align_up_def rem_chk_def)
next
  case nz: False
  let ?a = "unat addr" and ?n = "unat align"
  have n: "0 < ?n" using nz by (simp add: unat_gt_0)
  have m: "unat (addr mod align) = ?a mod ?n" by (simp add: unat_mod)
  show ?thesis
  proof (cases "?a mod ?n = 0")
    case True
    then have "?a = round_up ?a ?n" using n by (intro round_up_unique) auto
    then have "\<not> 2 ^ 64 \<le> round_up ?a ?n" "word_of_nat (round_up ?a ?n) = addr"
      using unsigned_less [of addr, where 'a = nat] by (auto dest: sym)
    moreover have "align_up oc addr align = Ret addr"
      using nz True by (intro align_up_aligned) auto
    ultimately show ?thesis using nz by simp
  next
    case False
    let ?r = "?a mod ?n"
    have le: "?r \<le> ?a" "?r < ?n" using n by simp_all
    have up: "?a - ?r + ?n = round_up ?a ?n"
    proof (rule round_up_unique)
      show "?n dvd ?a - ?r + ?n" by (intro dvd_add dvd_minus_mod dvd_refl)
    qed (use le False in linarith)+
    have low: "unat (addr - addr mod align) = ?a - ?r" by (simp add: m unat_sub_nowrap)
    have "word_of_nat (unat (addr - addr mod align)) = addr - addr mod align" by simp
    then have "word_of_nat (?a - ?r) = addr - addr mod align" by (simp only: low)
    moreover have "word_of_nat ?n = align" by simp
    ultimately have "addr - addr mod align + align = word_of_nat (?a - ?r + ?n)"
      by (simp only: of_nat_add)
    then have sum: "addr - addr mod align + align = word_of_nat (round_up ?a ?n)"
      by (simp only: up)
    have "addr mod align \<noteq> 0" using False m by (metis unat_0)
    moreover have "sub_oc oc addr (addr mod align) = Ret (addr - addr mod align)"
      by (rule sub_oc_Ret) (simp add: m)
    ultimately have "align_up oc addr align = add_oc oc (addr - addr mod align) align"
      using nz by (simp add: align_up_def rem_chk_Ret)
    then show ?thesis
      unfolding add_oc_def low up sum using nz by simp
  qed
qed

text \<open>
  The allocator that stands in before a heap exists never hands out memory, so a program that
  keeps the contract of \<open>GlobalAlloc\<close> never reaches its panicking \<open>dealloc\<close>: every run over it, for
  every sequence of requests, ends with no live block and no panic.
\<close>

theorem dummy_never_allocates:
  "run_ops Dummy_alloc Dummy_dealloc ops ((), []) = Ret ((), [])"
proof (induction ops)
  case Nil
  then show ?case by simp
next
  case (Cons op ops)
  then show ?case by (cases op) (simp_all add: Dummy_alloc_def)
qed

end
