(* ===== verification/Linked_List.thy ===== *)
theory Linked_List
  imports Allocator
begin

text \<open>
  \<open>src/allocator/linked_list.rs\<close>: the free-list allocator. A free region holds its own
  \<open>ListNode\<close> at its start, so the nodes live in memory: the model keeps them in a store
  \<open>ll_mem\<close> from addresses to nodes and follows the \<open>next\<close> pointers, as the code does. The
  invariant says that the store holds a proper list of regions that are disjoint from one
  another and from the live blocks.
\<close>

record ListNode =
  node_size :: usize
  node_next :: "usize option"

definition ListNode_new :: "usize \<Rightarrow> ListNode" where
  "ListNode_new sz = \<lparr>node_size = sz, node_next = None\<rparr>"

text \<open>\<open>mem::size_of::<ListNode>()\<close> and \<open>mem::align_of::<ListNode>()\<close> on the 64-bit target.\<close>

definition LIST_NODE_SIZE :: usize where
  "LIST_NODE_SIZE = 16"

definition LIST_NODE_ALIGN :: usize where
  "LIST_NODE_ALIGN = 8"

record LinkedListAllocator =
  ll_head :: ListNode
  ll_mem :: "usize \<Rightarrow> ListNode"

definition LinkedListAllocator_new :: "(usize \<Rightarrow> ListNode) \<Rightarrow> LinkedListAllocator" where
  "LinkedListAllocator_new m = \<lparr>ll_head = ListNode_new 0, ll_mem = m\<rparr>"

text \<open>\<open>ListNode::end_addr\<close> of the node at address \<open>start\<close> with the given size.\<close>

definition end_addr :: "bool \<Rightarrow> usize \<Rightarrow> usize \<Rightarrow> usize outcome" where
  "end_addr oc start sz = add_oc oc start sz"

definition add_free_region :: "bool \<Rightarrow> usize \<Rightarrow> usize \<Rightarrow> (LinkedListAllocator, unit) io" where
  "add_free_region oc addr sz =
     io_bind (io_lift (align_up oc addr LIST_NODE_ALIGN)) (\<lambda>a.
       if a \<noteq> addr then io_panic ''assertion failed: align_up(addr) == addr''
       else if sz < LIST_NODE_SIZE then io_panic ''assertion failed: size >= size_of ListNode''
       else io_modify (\<lambda>s.
         let node = (ListNode_new sz)\<lparr>node_next := node_next (ll_head s)\<rparr>
         in s\<lparr>ll_mem := (ll_mem s)(addr := node),
              ll_head := (ll_head s)\<lparr>node_next := Some addr\<rparr>\<rparr>))"

definition ll_init :: "bool \<Rightarrow> usize \<Rightarrow> usize \<Rightarrow> (LinkedListAllocator, unit) io" where
  "ll_init oc heap_start heap_size = add_free_region oc heap_start heap_size"

definition alloc_from_region ::
  "bool \<Rightarrow> usize \<Rightarrow> usize \<Rightarrow> usize \<Rightarrow> usize \<Rightarrow> (usize, unit) result outcome" where
  "alloc_from_region oc region_start region_size sz align =
     obind (align_up oc region_start align) (\<lambda>alloc_start.
       case checked_add alloc_start sz of
         None \<Rightarrow> Ret (Err ())
       | Some alloc_end \<Rightarrow>
           obind (end_addr oc region_start region_size) (\<lambda>region_end.
             if region_end < alloc_end then Ret (Err ())
             else obind (sub_oc oc region_end alloc_end) (\<lambda>excess_size.
               if 0 < excess_size \<and> excess_size < LIST_NODE_SIZE then Ret (Err ())
               else Ret (Ok alloc_start))))"

text \<open>
  \<open>find_region\<close> walks the list with a cursor \<open>current\<close> on a node whose \<open>next\<close> is looked at: the head
  in the allocator, or a node in memory. A fitting region is unlinked. A cyclic list would make
  the loop run forever, which is the value \<^const>\<open>None\<close> of the loop and \<^const>\<open>Hang\<close> of the call.
\<close>

datatype ll_cursor = Head | At usize

fun ll_next :: "LinkedListAllocator \<Rightarrow> ll_cursor \<Rightarrow> usize option" where
  "ll_next s Head = node_next (ll_head s)"
| "ll_next s (At a) = node_next (ll_mem s a)"

fun ll_set_next :: "ll_cursor \<Rightarrow> usize option \<Rightarrow> LinkedListAllocator \<Rightarrow> LinkedListAllocator" where
  "ll_set_next Head n s = s\<lparr>ll_head := (ll_head s)\<lparr>node_next := n\<rparr>\<rparr>"
| "ll_set_next (At a) n s = s\<lparr>ll_mem := (ll_mem s)(a := (ll_mem s a)\<lparr>node_next := n\<rparr>)\<rparr>"

partial_function (option) find_region_loop ::
  "bool \<Rightarrow> usize \<Rightarrow> usize \<Rightarrow> ll_cursor \<Rightarrow> LinkedListAllocator \<Rightarrow>
   ((usize \<times> usize) option outcome \<times> LinkedListAllocator) option" where
  "find_region_loop oc sz align current s =
     (case ll_next s current of
        None \<Rightarrow> Some (Ret None, s)
      | Some region \<Rightarrow>
          (case alloc_from_region oc region (node_size (ll_mem s region)) sz align of
             Ret (Ok alloc_start) \<Rightarrow>
               (let next = ll_next s (At region);
                    s' = ll_set_next current next (ll_set_next (At region) None s)
                in Some (Ret (Some (region, alloc_start)), s'))
           | Ret (Err u) \<Rightarrow> find_region_loop oc sz align (At region) s
           | Panic e \<Rightarrow> Some (Panic e, s)
           | Hang \<Rightarrow> Some (Hang, s)))"

definition find_region :: "bool \<Rightarrow> usize \<Rightarrow> usize \<Rightarrow> (LinkedListAllocator, (usize \<times> usize) option) io" where
  "find_region oc sz align = (\<lambda>s. case find_region_loop oc sz align Head s of
       None \<Rightarrow> (Hang, s) | Some r \<Rightarrow> r)"

definition size_align :: "layout \<Rightarrow> (usize \<times> usize) outcome" where
  "size_align layout =
     (case layout_align_to layout LIST_NODE_ALIGN of
        Err u \<Rightarrow> Panic ''Adjusting alignment failed''
      | Ok l \<Rightarrow>
          let l = pad_to_align l; sz = max (l_size l) LIST_NODE_SIZE
          in Ret (sz, l_align l))"

definition ll_alloc :: "bool \<Rightarrow> layout \<Rightarrow> (LinkedListAllocator, usize) io" where
  "ll_alloc oc layout =
     io_bind (io_lift (size_align layout)) (\<lambda>(sz, align).
     io_bind (find_region oc sz align) (\<lambda>found.
       case found of
         None \<Rightarrow> io_ret 0
       | Some (region, alloc_start) \<Rightarrow>
           (case checked_add alloc_start sz of
              None \<Rightarrow> io_panic ''overflow''
            | Some alloc_end \<Rightarrow>
                io_bind (io_gets (\<lambda>s. node_size (ll_mem s region))) (\<lambda>region_size.
                io_bind (io_lift (end_addr oc region region_size)) (\<lambda>region_end.
                io_bind (io_lift (sub_oc oc region_end alloc_end)) (\<lambda>excessive_size.
                io_bind (if 0 < excessive_size then add_free_region oc alloc_end excessive_size
                         else io_ret ()) (\<lambda>_.
                  io_ret alloc_start)))))))"

definition ll_dealloc :: "bool \<Rightarrow> usize \<Rightarrow> layout \<Rightarrow> (LinkedListAllocator, unit) io" where
  "ll_dealloc oc ptr layout =
     io_bind (io_lift (size_align layout)) (\<lambda>(sz, _). add_free_region oc ptr sz)"

section \<open>The list of regions in memory\<close>

primrec region_list :: "(usize \<Rightarrow> ListNode) \<Rightarrow> usize option \<Rightarrow> (usize \<times> usize) list \<Rightarrow> bool" where
  "region_list m p [] \<longleftrightarrow> p = None"
| "region_list m p (r # rs) \<longleftrightarrow>
     p = Some (fst r) \<and> node_size (m (fst r)) = snd r \<and> region_list m (node_next (m (fst r))) rs"

lemma region_list_unique: "region_list m p rs \<Longrightarrow> region_list m p rs' \<Longrightarrow> rs = rs'"
proof (induction rs arbitrary: p rs')
  case Nil
  then show ?case by (cases rs') auto
next
  case (Cons r rs)
  then show ?case by (cases rs') (auto simp: prod_eq_iff)
qed

lemma region_list_cong:
  "(\<And>a. a \<in> fst ` set rs \<Longrightarrow> m' a = m a) \<Longrightarrow> region_list m' p rs = region_list m p rs"
  by (induction rs arbitrary: p) auto

lemma region_list_size: "region_list m p rs \<Longrightarrow> r \<in> set rs \<Longrightarrow> node_size (m (fst r)) = snd r"
  by (induction rs arbitrary: p) auto

lemma region_list_upd [simp]: "a \<notin> fst ` set rs \<Longrightarrow> region_list (m(a := n)) p rs = region_list m p rs"
  by (rule region_list_cong) auto

section \<open>What \<open>find_region\<close> does to the list\<close>

definition fits :: "bool \<Rightarrow> usize \<Rightarrow> usize \<Rightarrow> usize \<times> usize \<Rightarrow> usize \<Rightarrow> bool" where
  "fits oc sz align r a \<longleftrightarrow> alloc_from_region oc (fst r) (snd r) sz align = Ret (Ok a)"

definition misfits :: "bool \<Rightarrow> usize \<Rightarrow> usize \<Rightarrow> usize \<times> usize \<Rightarrow> bool" where
  "misfits oc sz align r \<longleftrightarrow> alloc_from_region oc (fst r) (snd r) sz align = Ret (Err ())"

abbreviation cursor_off :: "ll_cursor \<Rightarrow> (usize \<times> usize) list \<Rightarrow> bool" where
  "cursor_off c rs \<equiv> c \<notin> At ` fst ` set rs"

text \<open>
  \<open>found_at\<close>: the first region that fits has been unlinked; apart from the \<open>next\<close> fields of the
  nodes from the cursor on, nothing has changed.
\<close>

definition found_at ::
  "bool \<Rightarrow> usize \<Rightarrow> usize \<Rightarrow> ll_cursor \<Rightarrow> LinkedListAllocator \<Rightarrow> (usize \<times> usize) list \<Rightarrow>
   usize \<times> usize \<Rightarrow> usize \<Rightarrow> (usize \<times> usize) list \<Rightarrow> LinkedListAllocator \<Rightarrow> bool" where
  "found_at oc sz align cur s pre r a post s' \<longleftrightarrow>
     list_all (misfits oc sz align) pre \<and> fits oc sz align r a \<and>
     region_list (ll_mem s') (ll_next s' cur) (pre @ post) \<and>
     (\<forall>x. node_size (ll_mem s' x) = node_size (ll_mem s x)) \<and>
     (\<forall>c. c \<noteq> cur \<longrightarrow> cursor_off c (pre @ r # post) \<longrightarrow> ll_next s' c = ll_next s c)"

lemma ll_set_next_simps [simp]:
  "ll_next (ll_set_next c n s) c' = (if c' = c then n else ll_next s c')"
  "node_size (ll_mem (ll_set_next c n s) x) = node_size (ll_mem s x)"
  "node_next (ll_mem (ll_set_next c n s) x) = (if At x = c then n else node_next (ll_mem s x))"
  by (cases c; cases c'; simp) (cases c; simp)+

declare ll_set_next.simps [simp del]

lemma region_list_cong_next:
  assumes "\<And>x. node_size (ll_mem s' x) = node_size (ll_mem s x)"
    and "\<And>a. a \<in> fst ` set rs \<Longrightarrow> ll_next s' (At a) = ll_next s (At a)"
  shows "region_list (ll_mem s') p rs = region_list (ll_mem s) p rs"
  using assms by (induction rs arbitrary: p) auto

lemma find_region_loop_none:
  assumes "region_list (ll_mem s) (ll_next s cur) rs" and "list_all (misfits oc sz align) rs"
  shows "find_region_loop oc sz align cur s = Some (Ret None, s)"
  using assms
proof (induction rs arbitrary: cur)
  case Nil
  then show ?case by (simp add: find_region_loop.simps)
next
  case (Cons r rs)
  then have "find_region_loop oc sz align (At (fst r)) s = Some (Ret None, s)" by simp
  with Cons.prems show ?case
    by (subst find_region_loop.simps) (simp add: misfits_def)
qed

lemma find_region_loop_found:
  assumes "region_list (ll_mem s) (ll_next s cur) (pre @ r # post)"
    and "list_all (misfits oc sz align) pre" and "fits oc sz align r a"
    and "distinct (map fst (pre @ r # post))" and "cursor_off cur (pre @ r # post)"
  shows "\<exists>s'. find_region_loop oc sz align cur s = Some (Ret (Some (fst r, a)), s') \<and>
    found_at oc sz align cur s pre r a post s'"
  using assms
proof (induction pre arbitrary: cur)
  case Nil
  let ?s' = "ll_set_next cur (ll_next s (At (fst r))) (ll_set_next (At (fst r)) None s)"
  from Nil.prems have "cur \<noteq> At (fst r)" and n: "fst r \<notin> fst ` set post" "cursor_off cur post"
    by simp_all
  moreover have "At a \<noteq> cur \<and> a \<noteq> fst r" if "a \<in> fst ` set post" for a
    using n that by blast
  ultimately have cur: "cur \<noteq> At (fst r)"
    "\<And>a. a \<in> fst ` set post \<Longrightarrow> At a \<noteq> cur \<and> a \<noteq> fst r" by blast+
  have "find_region_loop oc sz align cur s = Some (Ret (Some (fst r, a)), ?s')"
    using Nil.prems by (subst find_region_loop.simps) (simp add: fits_def Let_def)
  moreover have "region_list (ll_mem ?s') (ll_next ?s' cur) post"
    using Nil.prems(1) cur by (subst region_list_cong_next [where s = s]) simp_all
  then have "found_at oc sz align cur s [] r a post ?s'"
    using Nil.prems(3) by (simp add: found_at_def)
  ultimately show ?case by (simp only: append_Nil) blast
next
  case (Cons q pre)
  let ?cur = "At (fst q)"
  have rl: "region_list (ll_mem s) (ll_next s ?cur) (pre @ r # post)"
    and q: "ll_next s cur = Some (fst q)" "node_size (ll_mem s (fst q)) = snd q"
      "misfits oc sz align q"
    and cur: "cur \<noteq> ?cur" "cursor_off cur (pre @ r # post)"
    and rest: "list_all (misfits oc sz align) pre" "distinct (map fst (pre @ r # post))"
    using Cons.prems by simp_all
  have "fst q \<notin> set (map fst (pre @ r # post))" using Cons.prems(4) by simp
  then have off: "cursor_off ?cur (pre @ r # post)" by (simp only: set_map) blast
  obtain s' where s': "find_region_loop oc sz align ?cur s = Some (Ret (Some (fst r, a)), s')"
    and f: "found_at oc sz align ?cur s pre r a post s'"
    using Cons.IH [OF rl rest(1) Cons.prems(3) rest(2) off] by blast
  have "find_region_loop oc sz align cur s = Some (Ret (Some (fst r, a)), s')"
    using q s' by (subst find_region_loop.simps) (simp add: misfits_def)
  moreover have "ll_next s' cur = ll_next s cur"
    using cur f unfolding found_at_def by blast
  then have "found_at oc sz align cur s (q # pre) r a post s'"
    using f q unfolding found_at_def by simp
  ultimately show ?case by blast
qed

section \<open>Sizes and regions in range\<close>

definition ll_accepts :: "layout \<Rightarrow> bool" where
  "ll_accepts l \<longleftrightarrow> request_ok l \<and> unat (l_size l) + unat (max (l_align l) LIST_NODE_ALIGN) \<le> 2 ^ 63"

text \<open>The bytes an allocation of layout \<open>l\<close> takes from a region.\<close>

definition alloc_size :: "layout \<Rightarrow> nat" where
  "alloc_size l = (case size_align l of Ret (sz, al) \<Rightarrow> unat sz | _ \<Rightarrow> 0)"

lemma size_align_Ret:
  assumes "ll_accepts l"
  obtains sz al where "size_align l = Ret (sz, al)" and "unat sz = alloc_size l"
    and "al \<noteq> 0" and "unat (l_align l) dvd unat al" and "8 dvd unat al" and "8 dvd unat sz"
    and "16 \<le> unat sz" and "unat (l_size l) \<le> unat sz" and "unat sz \<le> 2 ^ 63" and "unat al \<le> 2 ^ 63"
proof -
  let ?al = "max (l_align l) LIST_NODE_ALIGN"
  let ?l = "l\<lparr>l_align := ?al\<rparr>"
  from assms have a: "is_power_of_two (l_align l)" "unat (l_size l) + unat ?al \<le> 2 ^ 63"
    by (auto simp: ll_accepts_def request_ok_def layout_valid_def)
  have p8: "is_power_of_two LIST_NODE_ALIGN"
    unfolding is_power_of_two_iff LIST_NODE_ALIGN_def by (rule exI [of _ 3]) simp
  have pal: "is_power_of_two ?al" using a(1) p8 by (simp add: max_def)
  then have v: "layout_valid ?l" using a(2) by (simp add: layout_valid_def)
  have "layout_align_to l LIST_NODE_ALIGN = Ok ?l"
    using v by (cases l) (simp add: layout_align_to_def from_size_align_def)
  then have sa: "size_align l = Ret (max (l_size (pad_to_align ?l)) LIST_NODE_SIZE, ?al)"
    by (simp add: size_align_def Let_def)
  note pad = pad_to_align_size [OF v, simplified]
  have le: "unat (l_align l) \<le> unat ?al" "unat LIST_NODE_ALIGN \<le> unat ?al"
    by (simp_all add: word_le_nat_alt [symmetric])
  have d8: "8 dvd unat ?al" using pow2_dvd_pow2 [OF p8 pal le(2)] by (simp add: LIST_NODE_ALIGN_def)
  then have "8 dvd unat (l_size (pad_to_align ?l))" using pad(1) by (rule dvd_trans)
  then have "8 dvd unat (max (l_size (pad_to_align ?l)) LIST_NODE_SIZE)"
    by (simp add: max_def LIST_NODE_SIZE_def)
  moreover have "unat (max x LIST_NODE_SIZE) = max (unat x) 16" for x
    by (simp add: max_def word_le_nat_alt LIST_NODE_SIZE_def)
  moreover have "unat ?al \<le> 2 ^ 63" using a(2) by linarith
  ultimately show thesis
    using that [OF sa] pow2_dvd_pow2 [OF a(1) pal le(1)] d8 pad a(2) layout_validD [OF v]
    by (simp add: alloc_size_def sa)
qed

definition region_ok :: "nat \<Rightarrow> nat \<Rightarrow> usize \<times> usize \<Rightarrow> bool" where
  "region_ok lo hi r \<longleftrightarrow>
     8 dvd unat (fst r) \<and> 16 \<le> unat (snd r) \<and> lo \<le> unat (fst r) \<and> unat (fst r) + unat (snd r) \<le> hi"

text \<open>When a region can serve a request: the specification on naturals.\<close>

definition region_fits :: "nat \<Rightarrow> nat \<Rightarrow> usize \<times> usize \<Rightarrow> bool" where
  "region_fits sz al r \<longleftrightarrow>
     (let a_end = round_up (unat (fst r)) al + sz; r_end = unat (fst r) + unat (snd r)
      in a_end = r_end \<or> a_end + 16 \<le> r_end)"

text \<open>With the block inside the region, the request fails only if the rest could not hold a node.\<close>

lemma alloc_from_region_inside:
  assumes "align_up oc start al = Ret a" and "unat start + unat len \<le> 2 ^ 63" and "unat a + unat sz \<le> unat start + unat len"
  shows "alloc_from_region oc start len sz al =
    (if 0 < unat start + unat len - (unat a + unat sz) \<and> unat start + unat len - (unat a + unat sz) < 16 then Ret (Err ()) else Ret (Ok a))"
proof -
  let ?x = "start + len - (a + sz)"
  have e: "end_addr oc start len = Ret (start + len)" "unat (start + len) = unat start + unat len"
    using assms(2) by (simp_all add: end_addr_def add_oc_Ret unat_add_nowrap)
  have c: "checked_add a sz = Some (a + sz)" "unat (a + sz) = unat a + unat sz"
    using assms(2,3) by (simp_all add: checked_add_Some unat_add_nowrap)
  have x: "unat ?x = unat start + unat len - (unat a + unat sz)" using assms(3) c e by (simp add: unat_sub_nowrap)
  have "sub_oc oc (start + len) (a + sz) = Ret ?x" using assms(3) c e by (simp add: sub_oc_Ret)
  then have "alloc_from_region oc start len sz al = (if 0 < ?x \<and> ?x < LIST_NODE_SIZE then Ret (Err ()) else Ret (Ok a))"
    using assms(1,3) by (simp add: alloc_from_region_def c e word_less_nat_alt)
  moreover have "0 < ?x \<and> ?x < LIST_NODE_SIZE \<longleftrightarrow> 0 < unat ?x \<and> unat ?x < 16" by (simp add: word_less_nat_alt LIST_NODE_SIZE_def)
  ultimately show ?thesis by (simp only: x)
qed

lemma alloc_from_region_cases:
  assumes r: "region_ok lo hi r" and hi: "hi \<le> 2 ^ 63"
    and al: "al \<noteq> 0" "unat al \<le> 2 ^ 63" and sz: "unat sz \<le> 2 ^ 63"
  obtains (misfit) "misfits oc sz al r" and "\<not> region_fits (unat sz) (unat al) r"
  | (fit) a where "fits oc sz al r a" and "region_fits (unat sz) (unat al) r"
      and "unat a = round_up (unat (fst r)) (unat al)" and "unat al dvd unat a" and "unat (fst r) \<le> unat a"
      and "unat a + unat sz \<le> unat (fst r) + unat (snd r)"
      and "unat a + unat sz = unat (fst r) + unat (snd r) \<or>
           unat a + unat sz + 16 \<le> unat (fst r) + unat (snd r)"
proof -
  from r hi have b: "unat (fst r) + unat (snd r) \<le> 2 ^ 63" by (auto simp: region_ok_def)
  then have e: "end_addr oc (fst r) (snd r) = Ret (fst r + snd r)"
    "unat (fst r + snd r) = unat (fst r) + unat (snd r)"
    by (simp_all add: end_addr_def add_oc_Ret unat_add_nowrap)
  have "16 \<le> unat (snd r)" using r by (simp add: region_ok_def)
  then have "unat (fst r) + unat al \<le> 2 ^ 64" using b al by simp
  from align_up_Ret [OF al(1) this, of oc] obtain a where
    a: "align_up oc (fst r) al = Ret a" "unat al dvd unat a" "unat (fst r) \<le> unat a"
      "unat a < unat (fst r) + unat al" .
  from round_up_unique [OF a(2-4)] have up: "unat a = round_up (unat (fst r)) (unat al)" .
  then have rf: "region_fits (unat sz) (unat al) r \<longleftrightarrow>
      unat a + unat sz = unat (fst r) + unat (snd r) \<or> unat a + unat sz + 16 \<le> unat (fst r) + unat (snd r)"
    by (simp add: region_fits_def Let_def)
  show thesis
  proof (cases "unat a + unat sz \<le> unat (fst r) + unat (snd r)")
    case False
    have "misfits oc sz al r"
    proof (cases "checked_add a sz")
      case None
      then show ?thesis by (simp add: misfits_def alloc_from_region_def a)
    next
      case (Some c)
      then show ?thesis using False checked_add_SomeD [OF Some]
        by (simp add: misfits_def alloc_from_region_def a e word_less_nat_alt)
    qed
    moreover have "\<not> region_fits (unat sz) (unat al) r" using rf False by linarith
    ultimately show ?thesis by (rule misfit)
  next
    case True
    let ?x = "unat (fst r) + unat (snd r) - (unat a + unat sz)"
    consider "misfits oc sz al r" "0 < ?x" "?x < 16" | "fits oc sz al r a" "?x = 0 \<or> 16 \<le> ?x"
      using alloc_from_region_inside [OF a(1) b True] unfolding misfits_def fits_def by (metis not_le neq0_conv)
    then show ?thesis
    proof cases
      case 1
      then have "\<not> region_fits (unat sz) (unat al) r" using rf True by linarith
      with 1(1) show ?thesis by (rule misfit)
    next
      case 2
      then have "unat a + unat sz = unat (fst r) + unat (snd r) \<or>
          unat a + unat sz + 16 \<le> unat (fst r) + unat (snd r)" using True by linarith
      then show ?thesis using fit [OF 2(1)] rf up a True by blast
    qed
  qed
qed

lemma misfits_iff:
  assumes "region_ok lo hi r" and "hi \<le> 2 ^ 63" and "al \<noteq> 0" "unat al \<le> 2 ^ 63" and "unat sz \<le> 2 ^ 63"
  shows "misfits oc sz al r \<longleftrightarrow> \<not> region_fits (unat sz) (unat al) r"
  by (rule alloc_from_region_cases [OF assms, of oc]) (auto simp: fits_def misfits_def)

lemma fits_iff:
  assumes "region_ok lo hi r" and "hi \<le> 2 ^ 63" and "al \<noteq> 0" "unat al \<le> 2 ^ 63" and "unat sz \<le> 2 ^ 63"
  shows "fits oc sz al r a \<longleftrightarrow>
    region_fits (unat sz) (unat al) r \<and> unat a = round_up (unat (fst r)) (unat al)"
  by (rule alloc_from_region_cases [OF assms, of oc])
    (auto simp: fits_def misfits_def word_unat_eq_iff)

lemma first_fit:
  assumes "\<And>r. r \<in> set rs \<Longrightarrow> misfits oc sz al r \<or> (\<exists>a. fits oc sz al r a)"
  obtains (none) "list_all (misfits oc sz al) rs"
  | (some) pre r a post where "rs = pre @ r # post" and "list_all (misfits oc sz al) pre"
      and "fits oc sz al r a"
  using assms
proof (induction rs arbitrary: thesis)
  case Nil
  then show ?case by simp
next
  case (Cons q rs)
  consider "misfits oc sz al q" | a where "fits oc sz al q a" using Cons.prems(3) [of q] by auto
  then show ?case
  proof cases
    case 1
    show ?thesis
    proof (rule Cons.IH)
      show thesis if "list_all (misfits oc sz al) rs" using Cons.prems(1) 1 that by simp
      show thesis if "rs = pre @ r # post" "list_all (misfits oc sz al) pre" "fits oc sz al r a"
        for pre r a post
        using Cons.prems(2) [of "q # pre" r post a] 1 that by simp
      show "misfits oc sz al r \<or> (\<exists>a. fits oc sz al r a)" if "r \<in> set rs" for r
        using Cons.prems(3) that by simp
    qed
  next
    case (2 a)
    then show ?thesis using Cons.prems(2) [of "[]" q rs a] by simp
  qed
qed

section \<open>The invariant\<close>

definition ivl :: "nat \<times> nat \<Rightarrow> nat set" where
  "ivl x = {fst x ..< fst x + snd x}"

abbreviation ivl_apart :: "nat \<times> nat \<Rightarrow> nat \<times> nat \<Rightarrow> bool" where
  "ivl_apart x y \<equiv> ivl x \<inter> ivl y = {}"

definition region_span :: "usize \<times> usize \<Rightarrow> nat \<times> nat" where
  "region_span r = (unat (fst r), unat (snd r))"

definition block_span :: "block \<Rightarrow> nat \<times> nat" where
  "block_span b = (unat (fst b), alloc_size (snd b))"

definition ll_block_ok :: "nat \<Rightarrow> nat \<Rightarrow> block \<Rightarrow> bool" where
  "ll_block_ok lo hi b \<longleftrightarrow>
     ll_accepts (snd b) \<and> 8 dvd unat (fst b) \<and> unat (l_align (snd b)) dvd unat (fst b) \<and>
     lo \<le> unat (fst b) \<and> unat (fst b) + alloc_size (snd b) \<le> hi"

definition regions_inv :: "nat \<Rightarrow> nat \<Rightarrow> (usize \<times> usize) list \<Rightarrow> block list \<Rightarrow> bool" where
  "regions_inv lo hi rs bs \<longleftrightarrow>
     0 < lo \<and> hi \<le> 2 ^ 63 \<and> (\<forall>r \<in> set rs. region_ok lo hi r) \<and> (\<forall>b \<in> set bs. ll_block_ok lo hi b) \<and>
     sorted_wrt ivl_apart (map region_span rs @ map block_span bs)"

definition ll_inv :: "nat \<Rightarrow> nat \<Rightarrow> LinkedListAllocator \<Rightarrow> block list \<Rightarrow> bool" where
  "ll_inv lo hi s bs \<longleftrightarrow>
     (\<exists>rs. region_list (ll_mem s) (node_next (ll_head s)) rs \<and> regions_inv lo hi rs bs)"

lemma symp_ivl_apart: "symp ivl_apart"
  by (rule sympI) blast

lemmas ivl_apart_mset = sorted_wrt_mset [OF symp_ivl_apart]

lemma regions_inv_mset:
  assumes "mset (map region_span rs @ map block_span bs) = mset (map region_span rs' @ map block_span bs')"
    and "\<forall>r \<in> set rs'. region_ok lo hi r" and "\<forall>b \<in> set bs'. ll_block_ok lo hi b"
    and "regions_inv lo hi rs bs"
  shows "regions_inv lo hi rs' bs'"
  using assms ivl_apart_mset [OF assms(1)] by (simp add: regions_inv_def)

lemma ivl_nonempty: "0 < snd x \<Longrightarrow> fst x \<in> ivl x"
  by (simp add: ivl_def)

lemma alloc_size_ge:
  assumes "ll_accepts l"
  shows "16 \<le> alloc_size l" and "unat (l_size l) \<le> alloc_size l"
  using assms by (auto elim!: size_align_Ret)

lemma live_ok_of_regions_inv:
  assumes "regions_inv lo hi rs bs"
  shows "live_ok lo hi bs"
proof -
  have "block_range b \<subseteq> ivl (block_span b)" if "b \<in> set bs" for b
    using assms that alloc_size_ge(2)
    by (fastforce simp: regions_inv_def ll_block_ok_def block_range_def ivl_def block_span_def)
  moreover have "sorted_wrt (\<lambda>a b. ivl_apart (block_span a) (block_span b)) bs"
    using assms by (simp add: regions_inv_def sorted_wrt_append sorted_wrt_map)
  ultimately have "sorted_wrt apart bs"
    by (elim sorted_wrt_mono_rel [rotated]) blast
  moreover have "block_ok lo hi b" if "b \<in> set bs" for b
    using assms that alloc_size_ge(2) [of "snd b"]
    by (fastforce simp: regions_inv_def ll_block_ok_def block_ok_def)
  ultimately show ?thesis by (simp add: live_ok_def)
qed

text \<open>A region that is cut into a block and a remainder, both inside it, keeps everything apart.\<close>

lemma ivl_apart_split:
  assumes "sorted_wrt ivl_apart (r # xs)" and "\<forall>x \<in> set ys. ivl x \<subseteq> ivl r" and "sorted_wrt ivl_apart ys"
  shows "sorted_wrt ivl_apart (ys @ xs)"
  using assms by (fastforce simp: sorted_wrt_append)

lemma region_addresses_distinct:
  assumes "regions_inv lo hi rs bs"
  shows "distinct (map fst rs)" and "b \<in> set bs \<Longrightarrow> fst b \<notin> fst ` set rs"
proof -
  have ne: "fst (region_span r) \<in> ivl (region_span r)" if "r \<in> set rs" for r
    using assms that by (intro ivl_nonempty) (fastforce simp: regions_inv_def region_ok_def region_span_def)
  have "sorted_wrt (\<lambda>q r. ivl_apart (region_span q) (region_span r)) rs"
    using assms by (simp add: regions_inv_def sorted_wrt_append sorted_wrt_map)
  then have "sorted_wrt (\<lambda>q r. fst q \<noteq> fst r) rs"
    by (rule sorted_wrt_mono_rel [rotated]) (use ne in \<open>fastforce simp: region_span_def\<close>)
  then show "distinct (map fst rs)"
    by (simp add: distinct_sorted_wrt sorted_wrt_map)
  show "fst b \<notin> fst ` set rs" if b: "b \<in> set bs"
  proof
    assume "fst b \<in> fst ` set rs"
    then obtain r where r: "r \<in> set rs" "fst b = fst r" by blast
    have "ivl_apart (region_span r) (block_span b)"
      using assms r b by (auto simp: regions_inv_def sorted_wrt_append)
    moreover have "fst (block_span b) \<in> ivl (block_span b)"
      using assms b alloc_size_ge(1) [of "snd b"]
      by (intro ivl_nonempty) (fastforce simp: regions_inv_def ll_block_ok_def block_span_def)
    ultimately show False using ne [OF r(1)] r(2) by (auto simp: region_span_def block_span_def)
  qed
qed

section \<open>The effect of the operations on the list of regions\<close>

lemma add_free_region_effect:
  assumes "region_list (ll_mem s) (node_next (ll_head s)) rs" and "8 dvd unat a" and "16 \<le> unat sz"
    and "a \<notin> fst ` set rs"
  obtains s' where "add_free_region oc a sz s = (Ret (), s')"
    and "region_list (ll_mem s') (node_next (ll_head s')) ((a, sz) # rs)"
proof -
  let ?n = "(ListNode_new sz)\<lparr>node_next := node_next (ll_head s)\<rparr>"
  let ?s = "s\<lparr>ll_mem := (ll_mem s)(a := ?n), ll_head := (ll_head s)\<lparr>node_next := Some a\<rparr>\<rparr>"
  have "align_up oc a LIST_NODE_ALIGN = Ret a"
    using assms(2) by (simp add: LIST_NODE_ALIGN_def)
  moreover have "\<not> sz < LIST_NODE_SIZE"
    using assms(3) by (simp add: word_less_nat_alt LIST_NODE_SIZE_def)
  ultimately have "add_free_region oc a sz s = (Ret (), ?s)"
    by (simp add: add_free_region_def Let_def)
  moreover have "region_list (ll_mem ?s) (node_next (ll_head ?s)) ((a, sz) # rs)"
    using assms by (simp add: ListNode_new_def)
  ultimately show thesis using that by blast
qed

lemma find_region_none:
  "region_list (ll_mem s) (node_next (ll_head s)) rs \<Longrightarrow> list_all (misfits oc sz al) rs \<Longrightarrow>
   find_region oc sz al s = (Ret None, s)"
  using find_region_loop_none [of s Head] by (simp add: find_region_def)

lemma find_region_found:
  assumes "region_list (ll_mem s) (node_next (ll_head s)) (pre @ r # post)"
    and "list_all (misfits oc sz al) pre" and "fits oc sz al r a"
    and "distinct (map fst (pre @ r # post))"
  obtains s' where "find_region oc sz al s = (Ret (Some (fst r, a)), s')"
    and "region_list (ll_mem s') (node_next (ll_head s')) (pre @ post)"
    and "node_size (ll_mem s' (fst r)) = snd r"
proof -
  have rl: "region_list (ll_mem s) (ll_next s Head) (pre @ r # post)" using assms(1) by simp
  have off: "cursor_off Head (pre @ r # post)" by blast
  obtain s' where "find_region_loop oc sz al Head s = Some (Ret (Some (fst r, a)), s')"
    and "found_at oc sz al Head s pre r a post s'"
    using find_region_loop_found [OF rl assms(2-4) off] by blast
  moreover have "node_size (ll_mem s (fst r)) = snd r"
    using region_list_size [OF assms(1)] by simp
  ultimately show thesis
    using that [of s'] by (simp add: find_region_def found_at_def)
qed

lemma region_start_outside:
  assumes "regions_inv lo hi (pre @ r # post) bs" and "q \<in> set (pre @ post)"
  shows "unat (fst q) \<notin> ivl (region_span r)"
proof -
  have "region_ok lo hi q" using assms by (auto simp: regions_inv_def)
  then have "unat (fst q) \<in> ivl (region_span q)" by (simp add: region_ok_def ivl_def region_span_def)
  moreover have "ivl_apart (region_span q) (region_span r)"
    using assms by (auto simp: regions_inv_def sorted_wrt_append)
  ultimately show ?thesis by blast
qed

text \<open>The tail of a region behind the block at \<open>a\<close> goes back to the list.\<close>

lemma give_back_tail:
  assumes inv: "regions_inv lo hi (pre @ r # post) bs" and rl: "region_list (ll_mem s) (node_next (ll_head s)) (pre @ post)"
    and d: "8 dvd unat a" "8 dvd unat sz" and f: "unat (fst r) \<le> unat a" "unat a + unat sz + 16 \<le> unat (fst r) + unat (snd r)"
  obtains s' q where "add_free_region oc (a + sz) (fst r + snd r - (a + sz)) s = (Ret (), s')" and "0 < fst r + snd r - (a + sz)"
    and "region_list (ll_mem s') (node_next (ll_head s')) (q # pre @ post)" and "region_ok lo hi q" and "unat (fst q) = unat a + unat sz"
    and "unat (fst q) + unat (snd q) = unat (fst r) + unat (snd r)"
proof -
  let ?e = "fst r + snd r"
  let ?x = "?e - (a + sz)"
  have b: "lo \<le> unat (fst r)" "unat (fst r) + unat (snd r) \<le> hi" "hi \<le> 2 ^ 63"
    using inv by (auto simp: regions_inv_def region_ok_def)
  then have e: "unat ?e = unat (fst r) + unat (snd r)" and c: "unat (a + sz) = unat a + unat sz"
    using f(2) by (simp_all add: unat_add_nowrap)
  then have x: "unat ?x = unat ?e - unat (a + sz)" "16 \<le> unat ?x" using f(2) by (simp_all add: unat_sub_nowrap)
  have q: "unat (a + sz) \<in> ivl (region_span r)" using f c by (auto simp: ivl_def region_span_def)
  have "a + sz \<notin> fst ` set (pre @ post)"
  proof
    assume "a + sz \<in> fst ` set (pre @ post)"
    then obtain u where "a + sz = fst u" "u \<in> set (pre @ post)" by (rule imageE)
    then show False using region_start_outside [OF inv, of u] q by simp
  qed
  moreover have d8: "8 dvd unat (a + sz)" using d c by simp
  ultimately obtain s' where s': "add_free_region oc (a + sz) ?x s = (Ret (), s')"
    "region_list (ll_mem s') (node_next (ll_head s')) ((a + sz, ?x) # pre @ post)"
    using add_free_region_effect [OF rl _ x(2)] by blast
  have "0 < ?x" using x(2) by (simp add: word_gt_0_no word_less_nat_alt)
  then show ?thesis
    by (intro that [OF s'(1) _ s'(2)]) (use d8 x e c b f in \<open>simp_all add: region_ok_def\<close>)
qed

lemma ll_alloc_cases:
  assumes rl: "region_list (ll_mem s) (node_next (ll_head s)) rs"
    and inv: "regions_inv lo hi rs bs" and ok: "ll_accepts l"
  obtains (none) sz al where "size_align l = Ret (sz, al)" and "list_all (misfits oc sz al) rs"
      and "ll_alloc oc l s = (Ret 0, s)"
  | (some) sz al pre r post a s' where "size_align l = Ret (sz, al)" and "rs = pre @ r # post"
      and "list_all (misfits oc sz al) pre" and "fits oc sz al r a"
      and "ll_alloc oc l s = (Ret a, s')"
      and "ll_block_ok lo hi (a, l)"
      and "unat (fst r) \<le> unat a" and "unat a + alloc_size l \<le> unat (fst r) + unat (snd r)"
      and "unat a + alloc_size l = unat (fst r) + unat (snd r) \<and>
           region_list (ll_mem s') (node_next (ll_head s')) (pre @ post) \<or>
           (\<exists>q. region_list (ll_mem s') (node_next (ll_head s')) (q # pre @ post) \<and>
              region_ok lo hi q \<and> unat (fst q) = unat a + alloc_size l \<and>
              unat (fst q) + unat (snd q) = unat (fst r) + unat (snd r))"
proof -
  obtain sz al where sa: "size_align l = Ret (sz, al)" "unat sz = alloc_size l" "al \<noteq> 0"
    "unat (l_align l) dvd unat al" "8 dvd unat al" "8 dvd unat sz" "16 \<le> unat sz"
    "unat sz \<le> 2 ^ 63" "unat al \<le> 2 ^ 63"
    using size_align_Ret [OF ok] by metis
  have rok: "region_ok lo hi r" if "r \<in> set rs" for r using inv that by (simp add: regions_inv_def)
  have hi: "hi \<le> 2 ^ 63" "0 < lo" using inv by (simp_all add: regions_inv_def)
  note cases = alloc_from_region_cases [OF rok hi(1) sa(3) sa(9) sa(8), of _ oc]
  show thesis
  proof (rule first_fit [of rs oc sz al])
    show "misfits oc sz al r \<or> (\<exists>a. fits oc sz al r a)" if "r \<in> set rs" for r
      by (rule cases [OF that]) blast+
    show thesis if "list_all (misfits oc sz al) rs"
      using none [OF sa(1) that] find_region_none [OF rl that] sa(1)
      by (simp add: ll_alloc_def io_simps)
    fix pre r a post assume p: "rs = pre @ r # post" "list_all (misfits oc sz al) pre" "fits oc sz al r a"
    then have r: "r \<in> set rs" by simp
    have f: "unat al dvd unat a" "unat (fst r) \<le> unat a"
      "unat a + unat sz \<le> unat (fst r) + unat (snd r)"
      "unat a + unat sz = unat (fst r) + unat (snd r) \<or> unat a + unat sz + 16 \<le> unat (fst r) + unat (snd r)"
      using p(3) by (rule_tac [!] cases [OF r]) (auto simp: fits_def misfits_def)
    have dist: "distinct (map fst (pre @ r # post))"
      using region_addresses_distinct(1) [OF inv] p(1) by simp
    from find_region_found [OF rl [unfolded p(1)] p(2,3) dist] obtain s1 where
      s1: "find_region oc sz al s = (Ret (Some (fst r, a)), s1)"
        "region_list (ll_mem s1) (node_next (ll_head s1)) (pre @ post)"
        "node_size (ll_mem s1 (fst r)) = snd r" .
    let ?e = "fst r + snd r"
    let ?x = "?e - (a + sz)"
    have "region_ok lo hi r" using rok p(1) by simp
    then have b: "lo \<le> unat (fst r)" "unat (fst r) + unat (snd r) \<le> hi"
      by (simp_all add: region_ok_def)
    then have e: "end_addr oc (fst r) (snd r) = Ret ?e" "unat ?e = unat (fst r) + unat (snd r)"
      and c: "checked_add a sz = Some (a + sz)" "unat (a + sz) = unat a + unat sz"
      using f(3) hi by (simp_all add: end_addr_def add_oc_Ret unat_add_nowrap checked_add_Some)
    then have x: "sub_oc oc ?e (a + sz) = Ret ?x" "unat ?x = unat ?e - unat (a + sz)"
      using f(3) by (simp_all add: sub_oc_Ret unat_sub_nowrap)
    have alloc: "ll_alloc oc l s =
        io_bind (if 0 < ?x then add_free_region oc (a + sz) ?x else io_ret ()) (\<lambda>_. io_ret a) s1"
      using s1 sa(1) c(1) e(1) x(1) by (simp add: ll_alloc_def io_simps)
    have "8 dvd unat a" using sa(5) f(1) by (rule dvd_trans)
    have blk: "ll_block_ok lo hi (a, l)"
      using ok \<open>8 dvd unat a\<close> dvd_trans [OF sa(4) f(1)] f b sa(2) by (simp add: ll_block_ok_def)
    show thesis
    proof (cases "unat a + unat sz = unat (fst r) + unat (snd r)")
      case True
      then have "unat ?x = 0" using x(2) e(2) c(2) by simp
      then have "?x = 0" by (simp only: unat_eq_zero)
      then have "ll_alloc oc l s = (Ret a, s1)" using alloc by simp
      then show thesis
        using some [OF sa(1) p _ blk] f sa(2) True s1(2) by simp
    next
      case False
      then have "unat a + unat sz + 16 \<le> unat (fst r) + unat (snd r)" using f(4) by blast
      then obtain s2 q where s2: "add_free_region oc (a + sz) ?x s1 = (Ret (), s2)" "0 < ?x"
        "region_list (ll_mem s2) (node_next (ll_head s2)) (q # pre @ post)" "region_ok lo hi q" "unat (fst q) = unat a + unat sz"
        "unat (fst q) + unat (snd q) = unat (fst r) + unat (snd r)"
        by (rule give_back_tail [OF inv [unfolded p(1)] s1(2) \<open>8 dvd unat a\<close> sa(6) f(2)])
      then have "ll_alloc oc l s = (Ret a, s2)" using alloc by (simp add: io_simps)
      then show thesis
        using some [OF sa(1) p _ blk, of s2] f sa(2) s2(3-6) by auto
    qed
  qed
qed

section \<open>Preservation of the invariant\<close>

lemma regions_inv_cut:
  assumes inv: "regions_inv lo hi (pre @ r # post) bs" and ok: "ll_block_ok lo hi (a, l)"
    and qs: "\<forall>q \<in> set qs. region_ok lo hi q"
    and sub: "\<forall>y \<in> set (map region_span qs @ [block_span (a, l)]). ivl y \<subseteq> ivl (region_span r)"
    and ap: "sorted_wrt ivl_apart (map region_span qs @ [block_span (a, l)])"
  shows "regions_inv lo hi (qs @ pre @ post) ((a, l) # bs)"
proof -
  let ?xs = "map region_span (pre @ post) @ map block_span bs"
  have "sorted_wrt ivl_apart (region_span r # ?xs)"
    using inv ivl_apart_mset [of "region_span r # ?xs" "map region_span (pre @ r # post) @ map block_span bs"]
    by (simp add: regions_inv_def)
  then have "sorted_wrt ivl_apart ((map region_span qs @ [block_span (a, l)]) @ ?xs)"
    using sub ap by (rule ivl_apart_split)
  then have "sorted_wrt ivl_apart (map region_span (qs @ pre @ post) @ map block_span ((a, l) # bs))"
    by (subst ivl_apart_mset [where ys = "(map region_span qs @ [block_span (a, l)]) @ ?xs"]) simp_all
  then show ?thesis using inv ok qs by (auto simp: regions_inv_def)
qed

lemma ll_alloc_inv:
  assumes "ll_inv lo hi s bs" and ok: "ll_accepts l"
  shows "\<exists>p s'. ll_alloc oc l s = (Ret p, s') \<and> ll_inv lo hi s' (if p = 0 then bs else (p, l) # bs)"
proof -
  from assms(1) obtain rs where rl: "region_list (ll_mem s) (node_next (ll_head s)) rs"
    and inv: "regions_inv lo hi rs bs" by (auto simp: ll_inv_def)
  show ?thesis
  proof (cases rule: ll_alloc_cases [OF rl inv ok, of oc, case_names none some])
    case (none sz al)
    then show ?thesis using assms(1) by auto
  next
    case (some sz al pre r post a s')
    from inv some(2) have i: "regions_inv lo hi (pre @ r # post) bs" by simp
    have "region_ok lo hi r" "0 < lo" using i by (simp_all add: regions_inv_def)
    then have "a \<noteq> 0" using some(7) by (auto simp: region_ok_def)
    from some(9) have "\<exists>qs. region_list (ll_mem s') (node_next (ll_head s')) (qs @ pre @ post) \<and>
        regions_inv lo hi (qs @ pre @ post) ((a, l) # bs)"
    proof (elim disjE conjE exE)
      assume r: "region_list (ll_mem s') (node_next (ll_head s')) (pre @ post)"
      have "regions_inv lo hi ([] @ pre @ post) ((a, l) # bs)"
        by (rule regions_inv_cut [OF i some(6)])
          (use some(7,8) in \<open>auto simp: ivl_def block_span_def region_span_def\<close>)
      then show ?thesis using r by (intro exI [of _ "[]"]) simp
    next
      fix q assume q: "region_list (ll_mem s') (node_next (ll_head s')) (q # pre @ post)"
        "region_ok lo hi q" "unat (fst q) = unat a + alloc_size l"
        "unat (fst q) + unat (snd q) = unat (fst r) + unat (snd r)"
      have "regions_inv lo hi ([q] @ pre @ post) ((a, l) # bs)"
        by (rule regions_inv_cut [OF i some(6)])
          (use q some(7,8) in \<open>auto simp: ivl_def block_span_def region_span_def\<close>)
      then show ?thesis using q(1) by (intro exI [of _ "[q]"]) simp
    qed
    then show ?thesis using some(5) \<open>a \<noteq> 0\<close> by (auto simp: ll_inv_def)
  qed
qed

lemma ll_dealloc_inv:
  assumes "ll_inv lo hi s bs" and i: "i < length bs"
  shows "\<exists>s'. ll_dealloc oc (fst (bs ! i)) (snd (bs ! i)) s = (Ret (), s') \<and> ll_inv lo hi s' (delete_nth i bs)"
proof -
  let ?p = "fst (bs ! i)" and ?l = "snd (bs ! i)"
  from assms(1) obtain rs where rl: "region_list (ll_mem s) (node_next (ll_head s)) rs"
    and inv: "regions_inv lo hi rs bs" by (auto simp: ll_inv_def)
  from i have b: "bs ! i \<in> set bs" by simp
  then have ok: "ll_block_ok lo hi (bs ! i)" using inv by (simp add: regions_inv_def)
  then have "ll_accepts ?l" by (simp add: ll_block_ok_def)
  then obtain sz al where sa: "size_align ?l = Ret (sz, al)" "unat sz = alloc_size ?l" "16 \<le> unat sz"
    using size_align_Ret by metis
  have d: "8 dvd unat ?p" using ok by (simp add: ll_block_ok_def)
  from add_free_region_effect [OF rl d sa(3) region_addresses_distinct(2) [OF inv b]] obtain s' where
    s': "add_free_region oc ?p sz s = (Ret (), s')"
      "region_list (ll_mem s') (node_next (ll_head s')) ((?p, sz) # rs)" .
  have "ll_dealloc oc ?p ?l s = (Ret (), s')" using sa(1) s'(1) by (simp add: ll_dealloc_def)
  moreover have "regions_inv lo hi ((?p, sz) # rs) (delete_nth i bs)"
  proof (rule regions_inv_mset [OF _ _ _ inv])
    have "map block_span bs = map block_span (take i bs) @ block_span (bs ! i) # map block_span (drop (Suc i) bs)"
      using delete_nth_split [OF i] by (metis list.simps(9) map_append)
    moreover have "region_span (?p, sz) = block_span (bs ! i)"
      using sa(2) by (simp add: region_span_def block_span_def)
    ultimately show "mset (map region_span rs @ map block_span bs) =
        mset (map region_span ((?p, sz) # rs) @ map block_span (delete_nth i bs))"
      by (simp add: delete_nth_def)
    show "\<forall>r \<in> set ((?p, sz) # rs). region_ok lo hi r"
      using inv ok sa by (simp add: regions_inv_def region_ok_def ll_block_ok_def)
    show "\<forall>b \<in> set (delete_nth i bs). ll_block_ok lo hi b"
      using inv set_delete_nth [of i bs] by (auto simp: regions_inv_def)
  qed
  ultimately show ?thesis unfolding ll_inv_def using s'(2) by blast
qed

lemma ll_init_inv:
  assumes "8 dvd unat start" and "0 < unat start" and "16 \<le> unat sz" and "unat start + unat sz \<le> 2 ^ 63"
  shows "\<exists>s. ll_init oc start sz (LinkedListAllocator_new m) = (Ret (), s) \<and>
    ll_inv (unat start) (unat start + unat sz) s []"
proof -
  have "region_list (ll_mem (LinkedListAllocator_new m)) (node_next (ll_head (LinkedListAllocator_new m))) []"
    by (simp add: LinkedListAllocator_new_def ListNode_new_def)
  from add_free_region_effect [OF this assms(1,3), of oc] obtain s where
    "add_free_region oc start sz (LinkedListAllocator_new m) = (Ret (), s)"
    "region_list (ll_mem s) (node_next (ll_head s)) [(start, sz)]" by auto
  then show ?thesis
    using assms by (auto simp: ll_init_def ll_inv_def regions_inv_def region_ok_def intro!: exI [of _ "[(start, sz)]"])
qed

interpretation ll: global_alloc "ll_alloc oc" "ll_dealloc oc" "ll_inv lo hi" ll_accepts lo hi
  for oc lo hi
proof
  show "\<exists>p s'. ll_alloc oc l s = (Ret p, s') \<and> ll_inv lo hi s' (if p = 0 then bs else (p, l) # bs)"
    if "ll_inv lo hi s bs" "ll_accepts l" for s bs l
    using that by (rule ll_alloc_inv)
  show "\<exists>s'. ll_dealloc oc (fst (bs ! i)) (snd (bs ! i)) s = (Ret (), s') \<and> ll_inv lo hi s' (delete_nth i bs)"
    if "ll_inv lo hi s bs" "i < length bs" for s bs i
    using that by (rule ll_dealloc_inv)
  show "live_ok lo hi bs" if "ll_inv lo hi s bs" for s bs
    using that live_ok_of_regions_inv by (auto simp: ll_inv_def)
qed

section \<open>Properties\<close>



definition free_bytes :: "(usize \<times> usize) list \<Rightarrow> nat" where
  "free_bytes rs = sum_list (map (\<lambda>r. unat (snd r)) rs)"

definition first_fit_taken ::
  "nat \<Rightarrow> nat \<Rightarrow> (usize \<times> usize) list \<Rightarrow> usize \<Rightarrow> LinkedListAllocator \<Rightarrow> bool" where
  "first_fit_taken sz al rs a s' \<longleftrightarrow>
     (\<exists>pre r post rs'. rs = pre @ r # post \<and> list_all (\<lambda>r. \<not> region_fits sz al r) pre \<and>
        region_fits sz al r \<and> unat a = round_up (unat (fst r)) al \<and>
        region_list (ll_mem s') (node_next (ll_head s')) rs' \<and>
        free_bytes rs' + sz + (unat a - unat (fst r)) = free_bytes rs)"

text \<open>
  C23. First fit and where the bytes go: \<open>alloc\<close> returns null exactly when no free region can serve
  the request, and then changes nothing; otherwise it takes the first region that can, places the
  block at the first aligned address in it, gives the tail back to the list, and the free bytes
  shrink by the block and by the gap before it. The gap is in no free region afterwards.
\<close>

theorem ll_alloc_first_fit:
  assumes "region_list (ll_mem s) (node_next (ll_head s)) rs" and "regions_inv lo hi rs bs"
    and "ll_accepts l" and "size_align l = Ret (sz, al)"
  shows "(if list_all (\<lambda>r. \<not> region_fits (unat sz) (unat al) r) rs
     then ll_alloc oc l s = (Ret 0, s)
     else \<exists>a s'. ll_alloc oc l s = (Ret a, s') \<and> first_fit_taken (unat sz) (unat al) rs a s')"
proof -
  obtain sz' al' where "size_align l = Ret (sz', al')" "unat sz' = alloc_size l" "al' \<noteq> 0"
    "unat sz' \<le> 2 ^ 63" "unat al' \<le> 2 ^ 63" using size_align_Ret [OF assms(3)] by metis
  then have sa: "unat sz = alloc_size l" "al \<noteq> 0" "unat sz \<le> 2 ^ 63" "unat al \<le> 2 ^ 63"
    using assms(4) by simp_all
  have hi: "hi \<le> 2 ^ 63" and rok: "\<And>r. r \<in> set rs \<Longrightarrow> region_ok lo hi r"
    using assms(2) by (simp_all add: regions_inv_def)
  note spec = misfits_iff [OF rok hi sa(2,4,3), of _ oc] fits_iff [OF rok hi sa(2,4,3), of _ oc]
  show ?thesis
  proof (cases rule: ll_alloc_cases [OF assms(1-3), of oc, case_names none some])
    case (none sz1 al1)
    then show ?thesis using assms(4) spec(1) by (simp add: list_all_iff)
  next
    case (some sz1 al1 pre r post a s')
    have eq: "sz1 = sz" "al1 = al" using some(1) assms(4) by simp_all
    have pre: "list_all (\<lambda>r. \<not> region_fits (unat sz) (unat al) r) pre"
      and r: "region_fits (unat sz) (unat al) r" "unat a = round_up (unat (fst r)) (unat al)"
      using some(2-4) eq spec by (simp_all add: list_all_iff)
    have left: "\<exists>rs'. region_list (ll_mem s') (node_next (ll_head s')) rs' \<and>
        free_bytes rs' + unat sz + (unat a - unat (fst r)) = free_bytes rs"
      using some(9)
    proof (elim disjE conjE exE)
      assume e: "unat a + alloc_size l = unat (fst r) + unat (snd r)"
        and rl: "region_list (ll_mem s') (node_next (ll_head s')) (pre @ post)"
      from e some(7) have "free_bytes (pre @ post) + unat sz + (unat a - unat (fst r)) = free_bytes rs"
        unfolding free_bytes_def some(2) sa(1) by simp
      with rl show ?thesis by blast
    next
      fix q assume rl: "region_list (ll_mem s') (node_next (ll_head s')) (q # pre @ post)"
        and e: "unat (fst q) = unat a + alloc_size l"
          "unat (fst q) + unat (snd q) = unat (fst r) + unat (snd r)"
      from e some(7) have "free_bytes (q # pre @ post) + unat sz + (unat a - unat (fst r)) = free_bytes rs"
        unfolding free_bytes_def some(2) sa(1) by simp
      with rl show ?thesis by blast
    qed
    have "\<not> list_all (\<lambda>r. \<not> region_fits (unat sz) (unat al) r) rs"
      using r(1) some(2) by simp
    moreover have "first_fit_taken (unat sz) (unat al) rs a s'"
      unfolding first_fit_taken_def using left some(2) pre r by blast
    ultimately show ?thesis using some(5) by simp
  qed
qed

theorem ll_alloc_first_fit_witness:
  "let s = \<lparr>ll_head = \<lparr>node_size = 0, node_next = Some 32\<rparr>,
            ll_mem = (\<lambda>_. ListNode_new 0)(32 := \<lparr>node_size = 224, node_next = None\<rparr>)\<rparr>;
       l = \<lparr>l_size = 64, l_align = 64\<rparr>
   in \<exists>s' rs'. ll_alloc True l s = (Ret 64, s') \<and>
        region_list (ll_mem s') (node_next (ll_head s')) rs' \<and> free_bytes rs' + 64 + 32 = 224"
proof -
  let ?s = "\<lparr>ll_head = \<lparr>node_size = 0, node_next = Some 32\<rparr>,
            ll_mem = (\<lambda>_. ListNode_new 0)(32 := \<lparr>node_size = 224, node_next = None\<rparr>)\<rparr>"
  let ?l = "\<lparr>l_size = 64, l_align = 64\<rparr>"
  have p: "is_power_of_two 64" unfolding is_power_of_two_iff by (rule exI [of _ 6]) simp
  have 1: "region_list (ll_mem ?s) (node_next (ll_head ?s)) [(32, 224)]" by simp
  have 2: "regions_inv 32 256 [(32, 224)] []" by (simp add: regions_inv_def region_ok_def)
  have 3: "ll_accepts ?l"
    using p by (simp add: ll_accepts_def request_ok_def layout_valid_def LIST_NODE_ALIGN_def max_def)
  have 4: "size_align ?l = Ret (64, 64)"
    using p by (simp add: size_align_def layout_align_to_def from_size_align_def layout_valid_def
      LIST_NODE_ALIGN_def LIST_NODE_SIZE_def pad_to_align_def max_def)
  have fit: "region_fits 64 64 (32, 224)" by (simp add: region_fits_def round_up_def)
  from ll_alloc_first_fit [OF 1 2 3 4, of True] fit obtain a s' where
    al: "ll_alloc True ?l ?s = (Ret a, s')" and ff: "first_fit_taken 64 64 [(32 :: usize, 224 :: usize)] a s'"
    by auto
  from ff obtain pre r post rs' where e: "[(32 :: usize, 224 :: usize)] = pre @ r # post"
    and a: "unat a = round_up (unat (fst r)) 64"
    and rl: "region_list (ll_mem s') (node_next (ll_head s')) rs'"
    and f: "free_bytes rs' + 64 + (unat a - unat (fst r)) = free_bytes [(32, 224)]"
    unfolding first_fit_taken_def by blast
  from e have r: "r = (32, 224)" by (auto simp: Cons_eq_append_conv)
  with a have u: "unat a = 64" by (simp add: round_up_def)
  then have "a = 64" by (simp add: word_unat_eq_iff)
  then have al: "ll_alloc True ?l ?s = (Ret 64, s')" using al by (simp only:)
  have "free_bytes rs' + 64 + 32 = 224" using f u r by (simp add: free_bytes_def)
  then show ?thesis unfolding Let_def by (intro exI conjI) (rule al, rule rl)
qed

text \<open>
  C24. A request that is valid for \<open>GlobalAlloc\<close> but whose size cannot be rounded up to the alignment
  of a list node makes \<open>alloc\<close> panic, in both profiles and whatever the free list holds, where the
  contract of \<open>GlobalAlloc::alloc\<close> asks for a null pointer.
\<close>

theorem ll_alloc_oversized_panics:
  assumes "request_ok l" and "\<not> ll_accepts l"
  shows "ll_alloc oc l s = (Panic ''Adjusting alignment failed'', s)"
proof -
  have "layout_align_to l LIST_NODE_ALIGN = Err ()"
    using assms by (simp add: layout_align_to_def from_size_align_def layout_valid_def ll_accepts_def)
  then have "size_align l = Panic ''Adjusting alignment failed''" by (simp add: size_align_def)
  then show ?thesis by (simp add: ll_alloc_def io_bind_def)
qed

theorem ll_alloc_oversized_panics_witness:
  "ll_alloc False \<lparr>l_size = 2 ^ 63 - 1, l_align = 1\<rparr> (LinkedListAllocator_new (\<lambda>_. ListNode_new 0)) =
     (Panic ''Adjusting alignment failed'', LinkedListAllocator_new (\<lambda>_. ListNode_new 0))"
  by (rule ll_alloc_oversized_panics)
    (simp_all add: ll_accepts_def request_ok_def layout_valid_def is_power_of_two_def
      LIST_NODE_ALIGN_def max_def upt_rec)



end
