(* ===== verification/Fixed_Size_Block.thy ===== *)
theory Fixed_Size_Block
  imports Linked_List
begin

text \<open>
  \<open>src/allocator/fixed_size_block.rs\<close>: the global allocator of the kernel. Requests of up to 2048
  bytes are served from nine lists of free blocks; larger ones, and requests that find their list
  empty, go to a fallback heap, \<open>Heap\<close> of the third-party crate \<open>linked_list_allocator\<close>.

  That crate is a parameter: a record of its operations, whose documented behaviour is the locale
  \<open>fallback_heap\<close>. The contract is interpreted on the repository's own free-list allocator, which
  has the same interface. As in theory \<open>Linked_List\<close>, the list nodes live in memory.
\<close>

section \<open>The operations of the fallback heap\<close>

record 'h heap_ops =
  heap_empty :: 'h
  heap_init :: "usize \<Rightarrow> usize \<Rightarrow> ('h, unit) io"
  heap_allocate_first_fit :: "layout \<Rightarrow> ('h, (usize, unit) result) io"
  heap_deallocate :: "usize \<Rightarrow> layout \<Rightarrow> ('h, unit) io"

section \<open>The allocator\<close>

definition BLOCK_SIZES :: "usize list" where
  "BLOCK_SIZES = [8, 16, 32, 64, 128, 256, 512, 1024, 2048]"

text \<open>A \<open>ListNode\<close> of this module holds only the \<open>next\<close> pointer: its size and alignment are 8.\<close>

definition BLOCK_NODE_SIZE :: usize where
  "BLOCK_NODE_SIZE = 8"

definition BLOCK_NODE_ALIGN :: usize where
  "BLOCK_NODE_ALIGN = 8"

record 'h FixedSizeBlockAllocator =
  list_heads :: "usize option list"
  fallback_allocator :: 'h
  block_mem :: "usize \<Rightarrow> usize option"

definition FixedSizeBlockAllocator_new ::
  "'h heap_ops \<Rightarrow> (usize \<Rightarrow> usize option) \<Rightarrow> 'h FixedSizeBlockAllocator" where
  "FixedSizeBlockAllocator_new h m =
     \<lparr>list_heads = replicate (length BLOCK_SIZES) None, fallback_allocator = heap_empty h, block_mem = m\<rparr>"

text \<open>A call on the fallback heap inside the allocator.\<close>

definition on_fallback :: "('h, 'a) io \<Rightarrow> ('h FixedSizeBlockAllocator, 'a) io" where
  "on_fallback m = (\<lambda>s. case m (fallback_allocator s) of (r, h') \<Rightarrow> (r, s\<lparr>fallback_allocator := h'\<rparr>))"

definition fsb_init :: "'h heap_ops \<Rightarrow> usize \<Rightarrow> usize \<Rightarrow> ('h FixedSizeBlockAllocator, unit) io" where
  "fsb_init h heap_start heap_size = on_fallback (heap_init h heap_start heap_size)"

text \<open>\<open>fallback_alloc\<close> on the heap alone: a null pointer for an error.\<close>

definition heap_alloc :: "'h heap_ops \<Rightarrow> layout \<Rightarrow> ('h, usize) io" where
  "heap_alloc h layout =
     io_bind (heap_allocate_first_fit h layout) (\<lambda>r. case r of Ok p \<Rightarrow> io_ret p | Err u \<Rightarrow> io_ret 0)"

definition fallback_alloc :: "'h heap_ops \<Rightarrow> layout \<Rightarrow> ('h FixedSizeBlockAllocator, usize) io" where
  "fallback_alloc h layout = on_fallback (heap_alloc h layout)"

fun position :: "('a \<Rightarrow> bool) \<Rightarrow> 'a list \<Rightarrow> nat option" where
  "position P [] = None"
| "position P (x # xs) = (if P x then Some 0 else map_option Suc (position P xs))"

definition list_index :: "layout \<Rightarrow> nat option" where
  "list_index layout =
     (let required_block_size = max (l_size layout) (l_align layout)
      in position (\<lambda>s. required_block_size \<le> s) BLOCK_SIZES)"

definition fsb_alloc :: "'h heap_ops \<Rightarrow> layout \<Rightarrow> ('h FixedSizeBlockAllocator, usize) io" where
  "fsb_alloc h layout =
     (case list_index layout of
        Some index \<Rightarrow>
          io_bind (io_gets (\<lambda>s. list_heads s ! index)) (\<lambda>head.
            case head of
              Some node \<Rightarrow>
                io_bind (io_modify (\<lambda>s.
                  s\<lparr>list_heads := (list_heads s)[index := block_mem s node],
                    block_mem := (block_mem s)(node := None)\<rparr>)) (\<lambda>_.
                io_ret node)
            | None \<Rightarrow>
                let block_size = BLOCK_SIZES ! index; block_align = block_size
                in (case from_size_align block_size block_align of
                      Ok l \<Rightarrow> fallback_alloc h l
                    | Err u \<Rightarrow> io_panic ''called Result::unwrap() on an Err value''))
      | None \<Rightarrow> fallback_alloc h layout)"

definition fsb_dealloc :: "'h heap_ops \<Rightarrow> usize \<Rightarrow> layout \<Rightarrow> ('h FixedSizeBlockAllocator, unit) io" where
  "fsb_dealloc h ptr layout =
     (case list_index layout of
        Some index \<Rightarrow>
          if \<not> BLOCK_NODE_SIZE \<le> BLOCK_SIZES ! index then io_panic ''assertion failed: size_of ListNode''
          else if \<not> BLOCK_NODE_ALIGN \<le> BLOCK_SIZES ! index then io_panic ''assertion failed: align_of ListNode''
          else io_modify (\<lambda>s.
            s\<lparr>block_mem := (block_mem s)(ptr := list_heads s ! index),
              list_heads := (list_heads s)[index := Some ptr]\<rparr>)
      | None \<Rightarrow>
          if ptr = 0 then io_panic ''called Option::unwrap() on a None value''
          else on_fallback (heap_deallocate h ptr layout))"

section \<open>The contract of the fallback heap\<close>

definition block_layout :: "nat \<Rightarrow> layout" where
  "block_layout i = \<lparr>l_size = BLOCK_SIZES ! i, l_align = BLOCK_SIZES ! i\<rparr>"

text \<open>
  The crate keeps the contract of \<open>GlobalAlloc\<close> under \<open>heap_alloc\<close>, does not care in which order
  blocks were handed out, and takes the nine block layouts.
\<close>

locale fallback_heap = global_alloc "heap_alloc h" "heap_deallocate h" hinv accepts lo hi
  for h :: "'h heap_ops" and hinv :: "'h \<Rightarrow> block list \<Rightarrow> bool" and accepts :: "layout \<Rightarrow> bool"
    and lo :: nat and hi :: nat +
  assumes order_law: "hinv s bs \<Longrightarrow> mset bs = mset bs' \<Longrightarrow> hinv s bs'"
    and block_law: "i < length BLOCK_SIZES \<Longrightarrow> accepts (block_layout i)"
    and accepts_law: "accepts l \<Longrightarrow> request_ok l"

section \<open>Size classes\<close>

lemma position_Some:
  "position P xs = Some i \<Longrightarrow> i < length xs \<and> P (xs ! i) \<and> (\<forall>j < i. \<not> P (xs ! j))"
proof (induction xs arbitrary: i)
  case Nil
  then show ?case by simp
next
  case (Cons x xs)
  show ?case
  proof (cases "P x")
    case True
    with Cons.prems show ?thesis by auto
  next
    case False
    with Cons.prems obtain k where k: "position P xs = Some k" "i = Suc k" by auto
    from Cons.IH [OF k(1)] show ?thesis using k(2) False by (auto simp: less_Suc_eq_0_disj)
  qed
qed

lemma position_None: "position P xs = None \<longleftrightarrow> (\<forall>x \<in> set xs. \<not> P x)"
  by (induction xs) auto

lemma BLOCK_SIZES_nth: "i < 9 \<Longrightarrow> BLOCK_SIZES ! i = 2 ^ (i + 3)"
proof -
  assume "i < 9"
  then have "i \<in> {0, 1, 2, 3, 4, 5, 6, 7, 8}" by auto
  then show ?thesis by (auto simp: BLOCK_SIZES_def)
qed

lemma length_BLOCK_SIZES [simp]: "length BLOCK_SIZES = 9"
  by (simp add: BLOCK_SIZES_def)

lemma unat_block_size: "i < 9 \<Longrightarrow> unat (BLOCK_SIZES ! i) = 2 ^ (i + 3)"
  by (simp add: BLOCK_SIZES_nth)

lemma list_index_Some:
  assumes "list_index l = Some i"
  shows "i < 9" and "unat (l_size l) \<le> 2 ^ (i + 3)" and "unat (l_align l) \<le> 2 ^ (i + 3)"
proof -
  from assms have "position (\<lambda>s. max (l_size l) (l_align l) \<le> s) BLOCK_SIZES = Some i"
    by (simp only: list_index_def Let_def)
  from position_Some [OF this] have *: "i < 9" "max (l_size l) (l_align l) \<le> BLOCK_SIZES ! i"
    by auto
  then have "unat (max (l_size l) (l_align l)) \<le> 2 ^ (i + 3)"
    using unat_block_size by (simp add: word_le_nat_alt)
  moreover have "unat (l_size l) \<le> unat (max (l_size l) (l_align l))"
    "unat (l_align l) \<le> unat (max (l_size l) (l_align l))"
    by (simp_all add: word_le_nat_alt [symmetric])
  ultimately show "i < 9" and "unat (l_size l) \<le> 2 ^ (i + 3)" and "unat (l_align l) \<le> 2 ^ (i + 3)"
    using *(1) by linarith+
qed

lemma block_layout_valid:
  assumes "i < 9"
  shows "layout_valid (block_layout i)" and "request_ok (block_layout i)"
proof -
  have "is_power_of_two (2 ^ (i + 3))" using assms by (force simp: is_power_of_two_iff simp del: power_add)
  moreover have "(2::nat) ^ (i + 3) + 2 ^ (i + 3) \<le> 2 ^ 63"
  proof -
    have "(2::nat) ^ (i + 3) \<le> 2 ^ 62" using assms by (intro power_increasing) auto
    then show ?thesis by simp
  qed
  ultimately show v: "layout_valid (block_layout i)"
    using assms by (simp add: layout_valid_def block_layout_def BLOCK_SIZES_nth)
  have "unat (l_size (block_layout i)) \<noteq> 0"
    using assms by (simp add: block_layout_def unat_block_size)
  then show "request_ok (block_layout i)" using v by (auto simp: request_ok_def)
qed

lemma from_size_align_block [simp]:
  "i < 9 \<Longrightarrow> from_size_align (BLOCK_SIZES ! i) (BLOCK_SIZES ! i) = Ok (block_layout i)"
  using block_layout_valid(1) by (simp add: from_size_align_def block_layout_def Let_def)

section \<open>The lists of free blocks\<close>

primrec node_list :: "(usize \<Rightarrow> usize option) \<Rightarrow> usize option \<Rightarrow> usize list \<Rightarrow> bool" where
  "node_list m p [] \<longleftrightarrow> p = None"
| "node_list m p (a # as) \<longleftrightarrow> p = Some a \<and> node_list m (m a) as"

lemma node_list_upd [simp]: "a \<notin> set as \<Longrightarrow> node_list (m(a := n)) p as = node_list m p as"
  by (induction as arbitrary: p) auto

text \<open>The free blocks as blocks of the fallback heap: list \<open>k\<close> and the ones after it.\<close>

fun free_blocks :: "nat \<Rightarrow> usize list list \<Rightarrow> block list" where
  "free_blocks k [] = []"
| "free_blocks k (as # ass) = map (\<lambda>a. (a, block_layout k)) as @ free_blocks (Suc k) ass"

lemma mset_free_blocks_upd:
  assumes "i < length ass"
  shows "mset (free_blocks k (ass[i := as])) + mset (map (\<lambda>a. (a, block_layout (k + i))) (ass ! i)) =
    mset (free_blocks k ass) + mset (map (\<lambda>a. (a, block_layout (k + i))) as)"
  using assms
proof (induction ass arbitrary: i k)
  case Nil
  then show ?case by simp
next
  case (Cons bs ass)
  show ?case
  proof (cases i)
    case 0
    then show ?thesis by (simp add: ac_simps)
  next
    case (Suc j)
    with Cons show ?thesis using Cons.IH [of j "Suc k"] by (simp add: ac_simps)
  qed
qed

lemma mset_free_blocks_push:
  "i < length ass \<Longrightarrow>
   mset (free_blocks 0 (ass[i := a # ass ! i])) = add_mset (a, block_layout i) (mset (free_blocks 0 ass))"
  using mset_free_blocks_upd [of i ass 0 "a # ass ! i"] by simp

lemma mset_free_blocks_pop:
  "i < length ass \<Longrightarrow> ass ! i = a # as \<Longrightarrow>
   mset (free_blocks 0 ass) = add_mset (a, block_layout i) (mset (free_blocks 0 (ass[i := as])))"
  using mset_free_blocks_upd [of i ass 0 as] by simp

lemma fst_free_blocks: "fst ` set (free_blocks k ass) = \<Union> (set ` set ass)"
  by (induction ass arbitrary: k) (auto simp: image_Un image_image)

section \<open>The invariant\<close>

text \<open>The block of the fallback heap a live block stands in.\<close>

definition fallback_block :: "block \<Rightarrow> block" where
  "fallback_block b = (fst b, case list_index (snd b) of Some i \<Rightarrow> block_layout i | None \<Rightarrow> snd b)"

definition fsb_accepts :: "(layout \<Rightarrow> bool) \<Rightarrow> layout \<Rightarrow> bool" where
  "fsb_accepts accepts l \<longleftrightarrow> request_ok l \<and> (list_index l = None \<longrightarrow> accepts l)"

definition lists_ok :: "(usize \<Rightarrow> usize option) \<Rightarrow> usize option list \<Rightarrow> usize list list \<Rightarrow> bool" where
  "lists_ok m heads ass \<longleftrightarrow>
     length heads = 9 \<and> length ass = 9 \<and> (\<forall>i < 9. node_list m (heads ! i) (ass ! i))"

definition fsb_inv ::
  "('h \<Rightarrow> block list \<Rightarrow> bool) \<Rightarrow> (layout \<Rightarrow> bool) \<Rightarrow> 'h FixedSizeBlockAllocator \<Rightarrow> block list \<Rightarrow> bool" where
  "fsb_inv hinv accepts s bs \<longleftrightarrow>
     (\<forall>b \<in> set bs. fsb_accepts accepts (snd b)) \<and>
     (\<exists>ass. lists_ok (block_mem s) (list_heads s) ass \<and>
        hinv (fallback_allocator s) (map fallback_block bs @ free_blocks 0 ass))"

lemma fallback_block_range:
  assumes "fsb_accepts accepts (snd b)" and "block_ok lo hi (fallback_block b)"
  shows "block_range b \<subseteq> block_range (fallback_block b) \<and> block_ok lo hi b"
proof (cases "list_index (snd b)")
  case None
  then have "fallback_block b = b" by (simp add: fallback_block_def)
  then show ?thesis using assms by simp
next
  case (Some i)
  note li = list_index_Some [OF Some]
  have f: "fallback_block b = (fst b, block_layout i)" using Some by (simp add: fallback_block_def)
  have sz: "unat (l_size (block_layout i)) = 2 ^ (i + 3)" "unat (l_align (block_layout i)) = 2 ^ (i + 3)"
    using li(1) by (simp_all add: block_layout_def unat_block_size)
  have "block_range b \<subseteq> block_range (fallback_block b)"
    using li(2) by (auto simp: f block_range_def sz)
  moreover have "unat (l_align (snd b)) dvd 2 ^ (i + 3)"
  proof -
    from assms(1) obtain k where k: "k < 64" "l_align (snd b) = 2 ^ k"
      by (auto simp: fsb_accepts_def request_ok_def layout_valid_def is_power_of_two_iff)
    then have "(2::nat) ^ k \<le> 2 ^ (i + 3)" using li(3) by simp
    then have "k \<le> i + 3" by (rule power_le_imp_le_exp [rotated]) simp
    then show ?thesis using k by (simp add: le_imp_power_dvd del: power_add)
  qed
  then have "block_ok lo hi b"
    using assms(2) li(2) by (auto simp: f block_ok_def sz dest: dvd_trans)
  ultimately show ?thesis by blast
qed

lemma live_ok_fallback:
  assumes "live_ok lo hi (map fallback_block bs @ cs)" and "\<forall>b \<in> set bs. fsb_accepts accepts (snd b)"
  shows "live_ok lo hi bs"
proof -
  have ok: "block_ok lo hi (fallback_block b)" if "b \<in> set bs" for b
    using assms(1) that by (auto simp: live_ok_def)
  then have "block_ok lo hi b" "block_range b \<subseteq> block_range (fallback_block b)" if "b \<in> set bs" for b
    using fallback_block_range assms(2) that by blast+
  moreover have "sorted_wrt (\<lambda>a b. apart (fallback_block a) (fallback_block b)) bs"
    using assms(1) by (simp add: live_ok_def sorted_wrt_append sorted_wrt_map)
  then have "sorted_wrt apart bs"
    by (rule sorted_wrt_mono_rel [rotated]) (use calculation(2) in blast)
  ultimately show ?thesis by (simp add: live_ok_def)
qed

lemma live_ok_distinct:
  assumes "live_ok lo hi bs" and "\<forall>b \<in> set bs. l_size (snd b) \<noteq> 0"
  shows "distinct (map fst bs)"
proof -
  have "unat (fst b) \<in> block_range b" if "b \<in> set bs" for b
    using assms(2) that by (auto simp: block_range_def unat_gt_0)
  moreover have "sorted_wrt apart bs" using assms(1) by (simp add: live_ok_def)
  then have "sorted_wrt (\<lambda>a b. fst a \<noteq> fst b) bs"
    by (rule sorted_wrt_mono_rel [rotated]) (use calculation in fastforce)
  then show ?thesis by (simp add: distinct_sorted_wrt sorted_wrt_map)
qed

lemma delete_nth_append:
  "i < length xs \<Longrightarrow> delete_nth i (xs @ ys) = delete_nth i xs @ ys"
  by (simp add: delete_nth_def)

lemma map_delete_nth: "map f (delete_nth i xs) = delete_nth i (map f xs)"
  by (simp add: delete_nth_def take_map drop_map)

lemma mset_delete_nth: "i < length xs \<Longrightarrow> mset xs = add_mset (xs ! i) (mset (delete_nth i xs))"
  by (subst delete_nth_split [of i xs]) (simp_all add: delete_nth_def)

lemma lists_ok_push:
  assumes "lists_ok m heads ass" and "i < 9" and "\<forall>as \<in> set ass. a \<notin> set as"
  shows "lists_ok (m(a := heads ! i)) (heads[i := Some a]) (ass[i := a # ass ! i])"
  using assms by (auto simp: lists_ok_def nth_list_update)

lemma lists_ok_pop:
  assumes "lists_ok m heads ass" and "i < 9" and "ass ! i = a # as"
    and "\<forall>bs \<in> set (ass[i := as]). a \<notin> set bs"
  shows "lists_ok (m(a := None)) (heads[i := m a]) (ass[i := as])"
proof -
  have "node_list (m(a := None)) (heads[i := m a] ! j) (ass[i := as] ! j)" if j: "j < 9" for j
  proof -
    have "ass[i := as] ! j \<in> set (ass[i := as])" using assms(1) j by (intro nth_mem) (simp add: lists_ok_def)
    then have "a \<notin> set (ass[i := as] ! j)" using assms(4) by blast
    then show ?thesis
      using assms(1-3) j by (cases "i = j") (auto simp: lists_ok_def)
  qed
  then show ?thesis using assms(1) by (simp add: lists_ok_def)
qed

lemma block_layout_nonzero: "i < 9 \<Longrightarrow> l_size (block_layout i) \<noteq> 0"
  using block_layout_valid(2) by (simp add: request_ok_def)

lemma free_blocks_nonzero:
  "k + length ass \<le> 9 \<Longrightarrow> b \<in> set (free_blocks k ass) \<Longrightarrow> l_size (snd b) \<noteq> 0"
proof (induction ass arbitrary: k)
  case Nil
  then show ?case by simp
next
  case (Cons as ass)
  show ?case
  proof (cases "b \<in> set (free_blocks (Suc k) ass)")
    case True
    then show ?thesis using Cons.IH [of "Suc k"] Cons.prems by simp
  next
    case False
    then show ?thesis using Cons.prems block_layout_nonzero [of k] by auto
  qed
qed

lemma fallback_block_nonzero:
  "fsb_accepts accepts (snd b) \<Longrightarrow> l_size (snd (fallback_block b)) \<noteq> 0"
  using block_layout_nonzero list_index_Some(1) [of "snd b"]
  by (auto simp: fallback_block_def fsb_accepts_def request_ok_def split: option.splits)

section \<open>The contract of the fallback heap gives that of the allocator\<close>

context fallback_heap
begin

lemma fsb_distinct:
  assumes "hinv s (map fallback_block bs @ free_blocks 0 ass)" and "\<forall>b \<in> set bs. fsb_accepts accepts (snd b)"
    and "length ass \<le> 9"
  shows "distinct (map fst (map fallback_block bs @ free_blocks 0 ass))"
proof (rule live_ok_distinct [OF live_law [OF assms(1)]])
  show "\<forall>b \<in> set (map fallback_block bs @ free_blocks 0 ass). l_size (snd b) \<noteq> 0"
  proof
    fix b assume "b \<in> set (map fallback_block bs @ free_blocks 0 ass)"
    then consider c where "c \<in> set bs" "b = fallback_block c" | "b \<in> set (free_blocks 0 ass)" by auto
    then show "l_size (snd b) \<noteq> 0"
    proof cases
      case 1
      then show ?thesis using fallback_block_nonzero assms(2) by blast
    next
      case 2
      then show ?thesis using free_blocks_nonzero [of 0 ass b] assms(3) by simp
    qed
  qed
qed

lemma fallback_alloc_inv:
  assumes inv: "fsb_inv hinv accepts s bs" and ok: "fsb_accepts accepts l"
    and l': "\<And>q. fallback_block (q, l) = (q, l')" and acc: "accepts l'"
  shows "\<exists>q s'. fallback_alloc h l' s = (Ret q, s') \<and>
    fsb_inv hinv accepts s' (if q = 0 then bs else (q, l) # bs)"
proof -
  from inv obtain ass where lo: "lists_ok (block_mem s) (list_heads s) ass"
    and hi: "hinv (fallback_allocator s) (map fallback_block bs @ free_blocks 0 ass)"
    and bs: "\<forall>b \<in> set bs. fsb_accepts accepts (snd b)" by (auto simp: fsb_inv_def)
  from alloc_law [OF hi acc] obtain q h' where q: "heap_alloc h l' (fallback_allocator s) = (Ret q, h')"
    and h': "hinv h' (if q = 0 then map fallback_block bs @ free_blocks 0 ass
        else (q, l') # map fallback_block bs @ free_blocks 0 ass)" by blast
  let ?s = "s\<lparr>fallback_allocator := h'\<rparr>"
  have "fallback_alloc h l' s = (Ret q, ?s)" using q by (simp add: fallback_alloc_def on_fallback_def)
  moreover have "fsb_inv hinv accepts ?s (if q = 0 then bs else (q, l) # bs)"
    using h' lo bs ok l' unfolding fsb_inv_def by (cases "q = 0") auto
  ultimately show ?thesis by blast
qed

lemma fsb_alloc_inv:
  assumes inv: "fsb_inv hinv accepts s bs" and ok: "fsb_accepts accepts l"
  shows "\<exists>p s'. fsb_alloc h l s = (Ret p, s') \<and> fsb_inv hinv accepts s' (if p = 0 then bs else (p, l) # bs)"
proof (cases "list_index l")
  case None
  then show ?thesis
    using fallback_alloc_inv [OF inv ok, of l] ok
    by (simp add: fsb_alloc_def fallback_block_def fsb_accepts_def)
next
  case (Some i)
  note i = list_index_Some(1) [OF Some]
  from inv obtain ass where lo: "lists_ok (block_mem s) (list_heads s) ass"
    and hi: "hinv (fallback_allocator s) (map fallback_block bs @ free_blocks 0 ass)"
    and bs: "\<forall>b \<in> set bs. fsb_accepts accepts (snd b)" by (auto simp: fsb_inv_def)
  show ?thesis
  proof (cases "list_heads s ! i")
    case None
    then show ?thesis
      using fallback_alloc_inv [OF inv ok, of "block_layout i"] Some i block_law
      by (simp add: fsb_alloc_def fallback_block_def Let_def)
  next
    case (Some a)
    have "node_list (block_mem s) (Some a) (ass ! i)" using lo i Some by (auto simp: lists_ok_def)
    then obtain as where as: "ass ! i = a # as" by (cases "ass ! i") auto
    let ?ass = "ass[i := as]"
    have len: "length ass = 9" using lo by (simp add: lists_ok_def)
    have m: "mset (map fallback_block bs @ free_blocks 0 ass) =
        mset (map fallback_block ((a, l) # bs) @ free_blocks 0 ?ass)"
      using mset_free_blocks_pop [of i ass a as] as i len \<open>list_index l = Some i\<close>
      by (simp add: fallback_block_def)
    have h': "hinv (fallback_allocator s) (map fallback_block ((a, l) # bs) @ free_blocks 0 ?ass)"
      by (rule order_law [OF hi m])
    have "distinct (map fst (map fallback_block ((a, l) # bs) @ free_blocks 0 ?ass))"
      by (rule fsb_distinct [OF h']) (use bs ok len in auto)
    then have "a \<notin> fst ` set (free_blocks 0 ?ass)" by (simp add: fallback_block_def)
    then have "\<forall>cs \<in> set ?ass. a \<notin> set cs" by (auto simp: fst_free_blocks)
    then have "lists_ok ((block_mem s)(a := None)) ((list_heads s)[i := block_mem s a]) ?ass"
      by (rule lists_ok_pop [OF lo i as])
    moreover have "a \<noteq> 0" using live_law [OF h'] by (simp add: live_ok_def block_ok_def fallback_block_def)
    ultimately show ?thesis
      using h' bs ok \<open>list_index l = Some i\<close> Some by (auto simp: fsb_alloc_def fsb_inv_def)
  qed
qed

lemma fsb_dealloc_inv:
  assumes inv: "fsb_inv hinv accepts s bs" and i: "i < length bs"
  shows "\<exists>s'. fsb_dealloc h (fst (bs ! i)) (snd (bs ! i)) s = (Ret (), s') \<and>
    fsb_inv hinv accepts s' (delete_nth i bs)"
proof -
  let ?p = "fst (bs ! i)" and ?l = "snd (bs ! i)" and ?bs = "delete_nth i bs"
  from inv obtain ass where lo: "lists_ok (block_mem s) (list_heads s) ass"
    and hi: "hinv (fallback_allocator s) (map fallback_block bs @ free_blocks 0 ass)"
    and bs: "\<forall>b \<in> set bs. fsb_accepts accepts (snd b)" by (auto simp: fsb_inv_def)
  have bs': "\<forall>b \<in> set ?bs. fsb_accepts accepts (snd b)" using bs set_delete_nth [of i bs] by blast
  have len: "length ass = 9" using lo by (simp add: lists_ok_def)
  have m: "mset (map fallback_block bs) = add_mset (fallback_block (bs ! i)) (mset (map fallback_block ?bs))"
    using mset_delete_nth [of i "map fallback_block bs"] i by (simp add: map_delete_nth)
  show ?thesis
  proof (cases "list_index ?l")
    case None
    then have fb: "fallback_block (bs ! i) = bs ! i" by (simp add: fallback_block_def)
    let ?fb = "map fallback_block bs @ free_blocks 0 ass"
    have nth: "?fb ! i = bs ! i" using i fb by (simp add: nth_append)
    have "i < length ?fb" using i by simp
    from dealloc_law [OF hi this] nth obtain h' where
      h': "heap_deallocate h ?p ?l (fallback_allocator s) = (Ret (), h')" "hinv h' (delete_nth i ?fb)"
      by auto
    have "bs ! i \<in> set ?fb" using \<open>i < length ?fb\<close> nth nth_mem by metis
    then have "?p \<noteq> 0" using live_law [OF hi] by (auto simp: live_ok_def block_ok_def)
    then have "fsb_dealloc h ?p ?l s = (Ret (), s\<lparr>fallback_allocator := h'\<rparr>)"
      using None h'(1) by (simp add: fsb_dealloc_def on_fallback_def)
    moreover have "hinv h' (map fallback_block ?bs @ free_blocks 0 ass)"
      using h'(2) i by (simp add: delete_nth_append map_delete_nth)
    ultimately show ?thesis using lo bs' by (auto simp: fsb_inv_def)
  next
    case (Some k)
    note k = list_index_Some(1) [OF Some]
    let ?ass = "ass[k := ?p # ass ! k]"
    have fb: "fallback_block (bs ! i) = (?p, block_layout k)" using Some by (simp add: fallback_block_def)
    have "mset (map fallback_block bs @ free_blocks 0 ass) = mset (map fallback_block ?bs @ free_blocks 0 ?ass)"
      using m mset_free_blocks_push [of k ass ?p] k len fb by simp
    with hi have h': "hinv (fallback_allocator s) (map fallback_block ?bs @ free_blocks 0 ?ass)"
      by (rule order_law)
    have "fallback_block (bs ! i) \<in> set (map fallback_block bs)" using i by simp
    from imageI [OF this, of fst] have "?p \<in> set (map fst (map fallback_block bs))" by (simp only: fb set_map fst_conv)
    then have "?p \<notin> fst ` set (free_blocks 0 ass)"
      using fsb_distinct [OF hi bs] len by auto
    then have "\<forall>as \<in> set ass. ?p \<notin> set as" by (auto simp: fst_free_blocks)
    then have "lists_ok ((block_mem s)(?p := list_heads s ! k)) ((list_heads s)[k := Some ?p]) ?ass"
      by (rule lists_ok_push [OF lo k])
    moreover have "BLOCK_NODE_SIZE \<le> BLOCK_SIZES ! k" "BLOCK_NODE_ALIGN \<le> BLOCK_SIZES ! k"
      using k by (simp_all add: word_le_nat_alt unat_block_size BLOCK_NODE_SIZE_def BLOCK_NODE_ALIGN_def power_add)
    ultimately show ?thesis
      using Some h' bs' by (auto simp: fsb_dealloc_def fsb_inv_def)
  qed
qed

lemma fsb_live:
  assumes "fsb_inv hinv accepts s bs"
  shows "live_ok lo hi bs"
  using assms live_law live_ok_fallback unfolding fsb_inv_def by blast

end

sublocale fallback_heap \<subseteq> fsb: global_alloc "fsb_alloc h" "fsb_dealloc h" "fsb_inv hinv accepts"
  "fsb_accepts accepts" lo hi
  by unfold_locales (fact fsb_alloc_inv fsb_dealloc_inv fsb_live)+

context fallback_heap
begin

lemma fsb_contract: "global_alloc (fsb_alloc h) (fsb_dealloc h) (fsb_inv hinv accepts) (fsb_accepts accepts) lo hi"
  by (rule fsb.global_alloc_axioms)

lemma fsb_run_ops:
  assumes "fsb_inv hinv accepts s []" and "list_all (op_ok (fsb_accepts accepts)) ops"
  shows "\<exists>s' bs. run_ops (fsb_alloc h) (fsb_dealloc h) ops (s, []) = Ret (s', bs) \<and> live_ok lo hi bs"
  using fsb.run_ops_safe [OF assms] by blast

end

section \<open>The repository's free-list allocator as fallback heap\<close>

definition ll_heap_ops :: "bool \<Rightarrow> LinkedListAllocator heap_ops" where
  "ll_heap_ops oc =
     \<lparr>heap_empty = LinkedListAllocator_new (\<lambda>_. ListNode_new 0),
      heap_init = ll_init oc,
      heap_allocate_first_fit = (\<lambda>l. io_bind (ll_alloc oc l) (\<lambda>p. io_ret (if p = 0 then Err () else Ok p))),
      heap_deallocate = ll_dealloc oc\<rparr>"

lemma heap_alloc_ll: "heap_alloc (ll_heap_ops oc) = ll_alloc oc"
  by (auto simp: fun_eq_iff heap_alloc_def ll_heap_ops_def io_bind_def split: prod.splits outcome.splits)

lemma ll_inv_order:
  assumes "ll_inv lo hi s bs" and "mset bs = mset bs'"
  shows "ll_inv lo hi s bs'"
proof -
  from assms(1) obtain rs where rs: "region_list (ll_mem s) (node_next (ll_head s)) rs" "regions_inv lo hi rs bs"
    by (auto simp: ll_inv_def)
  have "set bs = set bs'" using assms(2) by (metis set_mset_mset)
  then have "regions_inv lo hi rs bs'"
    using rs(2) assms(2) by (intro regions_inv_mset [OF _ _ _ rs(2)]) (auto simp: regions_inv_def)
  then show ?thesis using rs(1) by (auto simp: ll_inv_def)
qed

lemma ll_accepts_block: "i < 9 \<Longrightarrow> ll_accepts (block_layout i)"
proof -
  assume i: "i < 9"
  have "unat (max (BLOCK_SIZES ! i) LIST_NODE_ALIGN) \<le> 2 ^ 12" "unat (BLOCK_SIZES ! i) \<le> 2 ^ 12"
    using i power_increasing [of "i + 3" 12 "2::nat"]
    by (simp_all add: max_def LIST_NODE_ALIGN_def unat_block_size)
  then show ?thesis
    using block_layout_valid(2) [OF i] by (simp add: ll_accepts_def block_layout_def)
qed

interpretation ll_fb: fallback_heap "ll_heap_ops oc" "ll_inv lo hi" ll_accepts lo hi
  for oc lo hi
proof (intro fallback_heap.intro fallback_heap_axioms.intro)
  show "global_alloc (heap_alloc (ll_heap_ops oc)) (heap_deallocate (ll_heap_ops oc)) (ll_inv lo hi) ll_accepts lo hi"
    using ll.global_alloc_axioms by (simp add: heap_alloc_ll) (simp add: ll_heap_ops_def)
qed (auto simp: ll_accepts_block intro: ll_inv_order, simp add: ll_accepts_def)

section \<open>Properties\<close>

lemma free_blocks_empty: "free_blocks k (replicate n []) = []"
  by (induction n arbitrary: k) simp_all

lemma fsb_init_inv:
  assumes "heap_init h start sz (heap_empty h) = (Ret (), h0)" and "hinv h0 []"
  obtains s where "fsb_init h start sz (FixedSizeBlockAllocator_new h m) = (Ret (), s)"
    and "fsb_inv hinv accepts s []"
proof
  show "fsb_init h start sz (FixedSizeBlockAllocator_new h m) =
      (Ret (), (FixedSizeBlockAllocator_new h m)\<lparr>fallback_allocator := h0\<rparr>)"
    using assms(1) by (simp add: fsb_init_def on_fallback_def FixedSizeBlockAllocator_new_def)
  have "lists_ok m (replicate 9 None) (replicate 9 [])"
    by (simp add: lists_ok_def)
  moreover have "length BLOCK_SIZES = 9" by (simp add: BLOCK_SIZES_def)
  ultimately show "fsb_inv hinv accepts ((FixedSizeBlockAllocator_new h m)\<lparr>fallback_allocator := h0\<rparr>) []"
    unfolding fsb_inv_def FixedSizeBlockAllocator_new_def
    by (intro conjI exI [of _ "replicate 9 []"]) (simp_all add: free_blocks_empty assms(2))
qed

text \<open>
  Memory safety of the kernel's global allocator, relative to the documented contract of the
  fallback heap: after \<open>init\<close>, whatever a client allocates and frees, in any order, no call panics,
  and the live blocks are aligned, inside the heap and pairwise disjoint, although freed small
  blocks never go back to the heap that handed them out.
\<close>

theorem fsb_run_safe:
  assumes "fallback_heap h hinv accepts lo hi"
    and "heap_init h start sz (heap_empty h) = (Ret (), h0)" and "hinv h0 []"
    and "list_all (op_ok (fsb_accepts accepts)) ops"
  shows "\<exists>s s' bs. fsb_init h start sz (FixedSizeBlockAllocator_new h m) = (Ret (), s) \<and>
    run_ops (fsb_alloc h) (fsb_dealloc h) ops (s, []) = Ret (s', bs) \<and> live_ok lo hi bs"
proof -
  obtain s where s: "fsb_init h start sz (FixedSizeBlockAllocator_new h m) = (Ret (), s)" "fsb_inv hinv accepts s []"
    by (rule fsb_init_inv [where hinv = hinv, OF assms(2,3)])
  from fallback_heap.fsb_run_ops [OF assms(1) s(2) assms(4)]
  obtain s' bs where "run_ops (fsb_alloc h) (fsb_dealloc h) ops (s, []) = Ret (s', bs)" "live_ok lo hi bs"
    by auto
  then show ?thesis using s(1) by blast
qed

theorem fsb_run_safe_witness:
  "\<exists>s s' bs. fsb_init (ll_heap_ops True) HEAP_START HEAP_SIZE
      (FixedSizeBlockAllocator_new (ll_heap_ops True) (\<lambda>_. None)) = (Ret (), s) \<and>
    run_ops (fsb_alloc (ll_heap_ops True)) (fsb_dealloc (ll_heap_ops True))
      [AllocOp \<lparr>l_size = 24, l_align = 8\<rparr>, AllocOp \<lparr>l_size = 4000, l_align = 8\<rparr>, FreeOp 1, FreeOp 0,
       AllocOp \<lparr>l_size = 17, l_align = 1\<rparr>] (s, []) = Ret (s', bs) \<and>
    live_ok (unat HEAP_START) (unat HEAP_START + unat HEAP_SIZE) bs"
proof -
  have "8 dvd unat HEAP_START" "0 < unat HEAP_START" "16 \<le> unat HEAP_SIZE"
    "unat HEAP_START + unat HEAP_SIZE \<le> 2 ^ 63"
    by (simp_all add: HEAP_START_def HEAP_SIZE_def)
  from ll_init_inv [OF this, of True "\<lambda>_. ListNode_new 0"] obtain h0 where
    h0: "heap_init (ll_heap_ops True) HEAP_START HEAP_SIZE (heap_empty (ll_heap_ops True)) = (Ret (), h0)"
    "ll_inv (unat HEAP_START) (unat HEAP_START + unat HEAP_SIZE) h0 []"
    by (auto simp: ll_heap_ops_def)
  show ?thesis
    by (rule fsb_run_safe [OF ll_fb.fallback_heap_axioms h0])
      (simp add: fsb_accepts_def ll_accepts_def request_ok_def layout_valid_def is_power_of_two_def
        LIST_NODE_ALIGN_def max_def upt_rec)
qed

text \<open>
  The size classes: \<open>list_index\<close> gives the least class whose block holds the size and the
  alignment of the request, and no class exactly for a request above 2048 bytes.
\<close>

theorem list_index_least:
  "list_index l =
     (if max (unat (l_size l)) (unat (l_align l)) \<le> 2048
      then Some (LEAST i. max (unat (l_size l)) (unat (l_align l)) \<le> 2 ^ (i + 3)) else None)"
proof -
  let ?n = "max (unat (l_size l)) (unat (l_align l))"
  have n: "unat (max (l_size l) (l_align l)) = ?n"
    by (simp add: max_def word_le_nat_alt)
  show ?thesis
  proof (cases "list_index l")
    case None
    then have "\<not> max (l_size l) (l_align l) \<le> BLOCK_SIZES ! 8"
      by (auto simp: list_index_def Let_def position_None)
    then have "\<not> ?n \<le> 2048" using n unat_block_size [of 8] by (simp add: word_le_nat_alt)
    then show ?thesis using None by simp
  next
    case (Some i)
    then have p: "position (\<lambda>s. max (l_size l) (l_align l) \<le> s) BLOCK_SIZES = Some i"
      unfolding list_index_def Let_def .
    have i: "i < 9" using position_Some [OF p] by simp
    then have "?n \<le> 2 ^ (i + 3)"
      using position_Some [OF p] unfolding word_le_nat_alt n by (simp only: unat_block_size simp_thms)
    moreover have "\<not> ?n \<le> 2 ^ (j + 3)" if "j < i" for j
      using position_Some [OF p] that i unat_block_size [of j] unfolding word_le_nat_alt n
      by (metis less_trans)
    moreover have "?n \<le> 2048" using calculation i power_increasing [of "i + 3" 11 "2::nat"] by simp
    ultimately show ?thesis using Some
      by (auto intro!: Least_equality [symmetric] simp del: power_add simp: not_less [symmetric])
  qed
qed

text \<open>
  C26. Reuse: after a small block is freed, the next request of the same size class gets exactly that
  block back, the class lists are as before the free, and the fallback heap is not touched.
\<close>

theorem fsb_dealloc_alloc:
  assumes "list_index l = Some k" and "list_index l' = Some k" and "length (list_heads s) = 9"
  shows "\<exists>s'. fsb_dealloc h p l s = (Ret (), s') \<and>
    fsb_alloc h l' s' = (Ret p, s\<lparr>block_mem := (block_mem s)(p := None)\<rparr>)"
proof -
  have k: "k < 9" by (rule list_index_Some(1) [OF assms(1)])
  then have "BLOCK_NODE_SIZE \<le> BLOCK_SIZES ! k" "BLOCK_NODE_ALIGN \<le> BLOCK_SIZES ! k"
    by (simp_all add: word_le_nat_alt unat_block_size BLOCK_NODE_SIZE_def BLOCK_NODE_ALIGN_def power_add)
  then show ?thesis using assms k
    by (simp add: fsb_dealloc_def fsb_alloc_def io_simps)
qed

theorem fsb_dealloc_alloc_witness:
  "\<exists>s'. fsb_dealloc (ll_heap_ops True) 4096 \<lparr>l_size = 20, l_align = 4\<rparr>
      (FixedSizeBlockAllocator_new (ll_heap_ops True) (\<lambda>_. None)) = (Ret (), s') \<and>
    fsb_alloc (ll_heap_ops True) \<lparr>l_size = 32, l_align = 16\<rparr> s' =
      (Ret 4096, (FixedSizeBlockAllocator_new (ll_heap_ops True) (\<lambda>_. None))\<lparr>block_mem :=
        (block_mem (FixedSizeBlockAllocator_new (ll_heap_ops True) (\<lambda>_. None)))(4096 := None)\<rparr>)"
  by (rule fsb_dealloc_alloc [where k = 2])
    (simp_all add: list_index_def BLOCK_SIZES_def FixedSizeBlockAllocator_new_def max_def)

end
