(* ===== verification/Bump.thy ===== *)
theory Bump
  imports Allocator
begin

text \<open>
  \<open>src/allocator/bump.rs\<close>: the bump allocator. Its invariant ties the counter of allocations to
  the live blocks, which is why \<open>dealloc\<close> never underflows it and why a reset of \<open>next\<close> happens only
  when no block is live.
\<close>

record BumpAllocator =
  bump_heap_start :: usize
  bump_heap_end :: usize
  bump_next :: usize
  bump_allocations :: usize

definition BumpAllocator_new :: BumpAllocator where
  "BumpAllocator_new =
     \<lparr>bump_heap_start = 0, bump_heap_end = 0, bump_next = 0, bump_allocations = 0\<rparr>"

definition BumpAllocator_init :: "bool \<Rightarrow> usize \<Rightarrow> usize \<Rightarrow> (BumpAllocator, unit) io" where
  "BumpAllocator_init oc heap_start heap_size =
     io_bind (io_modify (\<lambda>b. b\<lparr>bump_heap_start := heap_start\<rparr>)) (\<lambda>_.
     io_bind (io_lift (add_oc oc heap_start heap_size)) (\<lambda>heap_end.
       io_modify (\<lambda>b. b\<lparr>bump_heap_end := heap_end, bump_next := heap_start\<rparr>)))"

definition bump_alloc :: "bool \<Rightarrow> layout \<Rightarrow> (BumpAllocator, usize) io" where
  "bump_alloc oc layout =
     io_bind (io_gets bump_next) (\<lambda>next.
     io_bind (io_lift (align_up oc next (l_align layout))) (\<lambda>alloc_start.
       case checked_add alloc_start (l_size layout) of
         None \<Rightarrow> io_ret 0
       | Some alloc_end \<Rightarrow>
           io_bind (io_gets bump_heap_end) (\<lambda>heap_end.
             if heap_end < alloc_end then io_ret 0
             else
               io_bind (io_modify (\<lambda>b. b\<lparr>bump_next := alloc_end\<rparr>)) (\<lambda>_.
               io_bind (io_gets bump_allocations) (\<lambda>n.
               io_bind (io_lift (add_oc oc n 1)) (\<lambda>n'.
               io_bind (io_modify (\<lambda>b. b\<lparr>bump_allocations := n'\<rparr>)) (\<lambda>_.
                 io_ret alloc_start)))))))"

definition bump_dealloc :: "bool \<Rightarrow> usize \<Rightarrow> layout \<Rightarrow> (BumpAllocator, unit) io" where
  "bump_dealloc oc ptr layout =
     io_bind (io_gets bump_allocations) (\<lambda>n.
     io_bind (io_lift (sub_oc oc n 1)) (\<lambda>n'.
       io_modify (\<lambda>b.
         let b = b\<lparr>bump_allocations := n'\<rparr>
         in if n' = 0 then b\<lparr>bump_next := bump_heap_start b\<rparr> else b)))"

section \<open>The invariant\<close>

text \<open>
  \<open>bs\<close> are the live blocks. They lie between the start of the heap and \<open>next\<close>, and the counter
  counts them. \<open>lo\<close> and \<open>hi\<close> are the bounds given to \<open>init\<close>.
\<close>

definition bump_inv :: "nat \<Rightarrow> nat \<Rightarrow> BumpAllocator \<Rightarrow> block list \<Rightarrow> bool" where
  "bump_inv lo hi b bs \<longleftrightarrow>
     0 < lo \<and> hi \<le> 2 ^ 63 \<and>
     unat (bump_heap_start b) = lo \<and> unat (bump_heap_end b) = hi \<and>
     lo \<le> unat (bump_next b) \<and> unat (bump_next b) \<le> hi \<and>
     unat (bump_allocations b) = length bs \<and>
     length bs \<le> unat (bump_next b) - lo \<and>
     live_ok lo (unat (bump_next b)) bs"

lemma bump_inv_init:
  assumes "0 < unat start" and "unat start + unat sz \<le> 2 ^ 63"
  shows "\<exists>b. BumpAllocator_init oc start sz BumpAllocator_new = (Ret (), b) \<and>
    bump_inv (unat start) (unat start + unat sz) b []"
proof -
  have e: "add_oc oc start sz = Ret (start + sz)" "unat (start + sz) = unat start + unat sz"
    using assms by (simp_all add: add_oc_Ret unat_add_nowrap)
  show ?thesis
    using assms by (simp add: BumpAllocator_init_def e bump_inv_def BumpAllocator_new_def)
qed

lemma live_ok_weaken: "live_ok lo hi bs \<Longrightarrow> hi \<le> hi' \<Longrightarrow> live_ok lo hi' bs"
  by (auto simp: live_ok_def block_ok_def)

lemma live_ok_new_block:
  assumes "live_ok lo m bs" and "block_ok m hi b" and "lo \<le> m" and "m \<le> hi"
  shows "live_ok lo hi (b # bs)"
  using assms live_ok_weaken [OF assms(1,4)]
  by (fastforce simp: live_ok_Cons live_ok_def block_ok_def block_range_def)

text \<open>The two branches of \<open>alloc\<close>: the request does not fit, or it is placed at the aligned \<open>next\<close>.\<close>

lemma bump_alloc_cases:
  assumes inv: "bump_inv lo hi b bs" and l: "request_ok l"
  obtains (full) start where "bump_alloc oc l b = (Ret 0, b)"
      and "align_up oc (bump_next b) (l_align l) = Ret start"
      and "hi < unat start + unat (l_size l)"
  | (placed) start where
      "bump_alloc oc l b = (Ret start, b\<lparr>bump_next := start + l_size l,
          bump_allocations := bump_allocations b + 1\<rparr>)"
      and "block_ok (unat (bump_next b)) hi (start, l)"
      and "unat (start + l_size l) = unat start + unat (l_size l)"
proof -
  from l have v: "layout_valid l" by (simp add: request_ok_def)
  note v = layout_validD [OF v]
  from inv have n: "unat (bump_next b) \<le> hi" "hi \<le> 2 ^ 63" "unat (bump_heap_end b) = hi"
    "0 < unat (bump_next b)" "unat (bump_allocations b) < 2 ^ 63"
    by (auto simp: bump_inv_def)
  have "unat (bump_next b) + unat (l_align l) \<le> 2 ^ 64" using v n by simp
  from align_up_Ret [OF v(1) this, of oc] obtain start where
    st: "align_up oc (bump_next b) (l_align l) = Ret start" "unat (l_align l) dvd unat start"
      "unat (bump_next b) \<le> unat start" .
  show thesis
  proof (cases "unat start + unat (l_size l) \<le> hi")
    case True
    then have e: "unat (start + l_size l) = unat start + unat (l_size l)"
      "checked_add start (l_size l) = Some (start + l_size l)"
      using n by (auto simp: unat_add_nowrap checked_add_Some)
    have "add_oc oc (bump_allocations b) 1 = Ret (bump_allocations b + 1)"
      using n by (simp add: add_oc_Ret)
    then have "bump_alloc oc l b = (Ret start, b\<lparr>bump_next := start + l_size l,
          bump_allocations := bump_allocations b + 1\<rparr>)"
      using True n e by (simp add: bump_alloc_def st word_less_nat_alt io_simps)
    moreover have "block_ok (unat (bump_next b)) hi (start, l)"
      using True st n by (auto simp: block_ok_def)
    ultimately show ?thesis using e placed by blast
  next
    case False
    have "bump_alloc oc l b = (Ret 0, b)"
    proof (cases "checked_add start (l_size l)")
      case None
      then show ?thesis by (simp add: bump_alloc_def st)
    next
      case (Some e)
      then show ?thesis using False n checked_add_SomeD [OF Some]
        by (simp add: bump_alloc_def st word_less_nat_alt)
    qed
    then show ?thesis using False st full by (meson not_le)
  qed
qed

lemma bump_alloc_inv:
  assumes inv: "bump_inv lo hi b bs" and l: "request_ok l"
  shows "\<exists>p b'. bump_alloc oc l b = (Ret p, b') \<and> bump_inv lo hi b' (if p = 0 then bs else (p, l) # bs)"
proof (cases rule: bump_alloc_cases [OF inv l, of oc, case_names full placed])
  case (full start)
  then show ?thesis using inv by auto
next
  case (placed start)
  from l have "0 < unat (l_size l)" by (auto simp: request_ok_def unat_gt_0)
  moreover have "live_ok lo (unat start + unat (l_size l)) ((start, l) # bs)"
    by (rule live_ok_new_block [where m = "unat (bump_next b)"])
      (use inv placed(2) in \<open>auto simp: bump_inv_def block_ok_def\<close>)
  moreover have "unat (bump_allocations b + 1) = Suc (length bs)"
    using inv by (subst unat_add_nowrap) (auto simp: bump_inv_def)
  ultimately show ?thesis
    using inv placed by (auto simp: bump_inv_def block_ok_def)
qed

lemma bump_dealloc_inv:
  assumes inv: "bump_inv lo hi b bs" and i: "i < length bs"
  shows "\<exists>b'. bump_dealloc oc p l b = (Ret (), b') \<and> bump_inv lo hi b' (delete_nth i bs)"
proof -
  from inv i have n: "unat (bump_allocations b) = length bs" "0 < length bs"
    by (auto simp: bump_inv_def)
  then have "bump_allocations b \<noteq> 0" by auto
  then have s: "sub_oc oc (bump_allocations b) 1 = Ret (bump_allocations b - 1)"
    "unat (bump_allocations b - 1) = length bs - 1"
    using n by (simp_all add: sub_oc_one unat_minus_one)
  have "unat (bump_allocations b - 1) = 0 \<longleftrightarrow> length bs = 1" using s(2) n by linarith
  then have z: "bump_allocations b - 1 = 0 \<longleftrightarrow> length bs = 1" by (simp only: unat_eq_zero)
  let ?b = "b\<lparr>bump_allocations := bump_allocations b - 1\<rparr>"
  have "bump_dealloc oc p l b =
      (Ret (), if length bs = 1 then ?b\<lparr>bump_next := bump_heap_start b\<rparr> else ?b)"
    using s(1) z by (simp add: bump_dealloc_def Let_def)
  moreover have "delete_nth i bs = []" if "length bs = 1"
    using i that by (simp add: delete_nth_def)
  ultimately show ?thesis
    using inv i s(2) live_ok_delete_nth [of lo "unat (bump_next b)" bs i]
    by (auto simp: bump_inv_def)
qed

interpretation bump: global_alloc "bump_alloc oc" "bump_dealloc oc" "bump_inv lo hi" request_ok lo hi
  for oc lo hi
proof
  show "\<exists>p s'. bump_alloc oc l s = (Ret p, s') \<and> bump_inv lo hi s' (if p = 0 then bs else (p, l) # bs)"
    if "bump_inv lo hi s bs" "request_ok l" for s bs l
    using that by (rule bump_alloc_inv)
  show "\<exists>s'. bump_dealloc oc (fst (bs ! i)) (snd (bs ! i)) s = (Ret (), s') \<and> bump_inv lo hi s' (delete_nth i bs)"
    if "bump_inv lo hi s bs" "i < length bs" for s bs i
    using that by (rule bump_dealloc_inv)
  show "live_ok lo hi bs" if "bump_inv lo hi s bs" for s bs
    using that live_ok_weaken by (auto simp: bump_inv_def)
qed

section \<open>Properties\<close>

text \<open>
  C21. Memory safety of the bump allocator: after \<open>init\<close>, whatever a client allocates and frees, in
  any order, no call panics (the counter neither overflows nor underflows), and the blocks that are
  live are aligned, inside the heap and pairwise disjoint.
\<close>

theorem bump_run_safe:
  assumes "0 < unat start" and "unat start + unat sz \<le> 2 ^ 63" and "list_all (op_ok request_ok) ops"
  shows "\<exists>b b' bs. BumpAllocator_init oc start sz BumpAllocator_new = (Ret (), b) \<and>
    run_ops (bump_alloc oc) (bump_dealloc oc) ops (b, []) = Ret (b', bs) \<and>
    live_ok (unat start) (unat start + unat sz) bs"
  using bump_inv_init [OF assms(1,2), of oc] bump.run_ops_safe [OF _ assms(3)] by meson

theorem bump_run_safe_witness:
  "\<exists>b b' bs. BumpAllocator_init True HEAP_START HEAP_SIZE BumpAllocator_new = (Ret (), b) \<and>
    run_ops (bump_alloc True) (bump_dealloc True)
      [AllocOp \<lparr>l_size = 8, l_align = 8\<rparr>, AllocOp \<lparr>l_size = 3, l_align = 4\<rparr>, FreeOp 1, FreeOp 0] (b, []) = Ret (b', bs) \<and>
    live_ok (unat HEAP_START) (unat HEAP_START + unat HEAP_SIZE) bs"
  by (rule bump_run_safe)
    (simp_all add: HEAP_START_def HEAP_SIZE_def request_ok_def layout_valid_def
      is_power_of_two_def upt_rec)

text \<open>
  When the bump allocator gets memory back: freeing the last live block makes the whole heap
  available again, and freeing any other block gives nothing back.
\<close>

theorem bump_dealloc_reuse:
  assumes "bump_inv lo hi b bs" and "i < length bs"
  shows "\<exists>b'. bump_dealloc oc (fst (bs ! i)) (snd (bs ! i)) b = (Ret (), b') \<and>
    bump_next b' = (if length bs = 1 then bump_heap_start b else bump_next b)"
proof -
  have n: "unat (bump_allocations b) = length bs" using assms by (simp add: bump_inv_def)
  then have nz: "bump_allocations b \<noteq> 0" using assms(2) by auto
  have "unat (bump_allocations b - 1) = 0 \<longleftrightarrow> length bs = 1"
    using n nz assms(2) by (simp add: unat_minus_one) linarith
  then have "bump_allocations b - 1 = 0 \<longleftrightarrow> length bs = 1" by (simp only: unat_eq_zero)
  then show ?thesis using nz by (simp add: bump_dealloc_def sub_oc_one Let_def)
qed

theorem bump_dealloc_reuse_witness:
  "let b = \<lparr>bump_heap_start = 16, bump_heap_end = 64, bump_next = 24, bump_allocations = 1\<rparr>;
       bs = [(16, \<lparr>l_size = 8, l_align = 8\<rparr>)]
   in bump_inv 16 64 b bs \<and>
      (\<exists>b'. bump_dealloc True 16 \<lparr>l_size = 8, l_align = 8\<rparr> b = (Ret (), b') \<and> bump_next b' = 16)"
proof -
  let ?b = "\<lparr>bump_heap_start = 16, bump_heap_end = 64, bump_next = 24, bump_allocations = 1\<rparr>"
  let ?bs = "[(16, \<lparr>l_size = 8, l_align = 8\<rparr>)] :: block list"
  have inv: "bump_inv 16 64 ?b ?bs"
    by (simp add: bump_inv_def live_ok_def block_ok_def)
  then show ?thesis
    using bump_dealloc_reuse [OF inv, of 0 True] by simp
qed

end
