(* ===== verification/Crates.thy ===== *)
theory Crates
  imports Rust_Prelude
begin

text \<open>
  The third-party types that several components share, as interfaces: the bounded lock-free queue
  \<open>crossbeam_queue::ArrayQueue\<close>, \<open>futures_util::task::AtomicWaker\<close>, the lock \<open>spin::Mutex\<close>, and the ports
  and the interrupt flag of the crate \<open>x86_64\<close>. Their code is not part of the
  repository, so each is a record of operations that the components take as a parameter, with its
  documented behaviour as a locale. The reference instances at the end show that the documented
  behaviour can be met; \<open>OnceCell\<close> is an \<open>option\<close>, with \<^const>\<open>None\<close> for \<open>uninit\<close>.
\<close>

section \<open>\<open>ArrayQueue\<close>\<close>

record ('a, 'q) array_queue =
  aq_new :: "nat \<Rightarrow> 'q"
  aq_push :: "'a \<Rightarrow> 'q \<Rightarrow> (unit, 'a) result \<times> 'q"
  aq_pop :: "'q \<Rightarrow> 'a option \<times> 'q"
  aq_is_empty :: "'q \<Rightarrow> bool"

text \<open>
  The documentation: a bounded first-in first-out queue; \<open>push\<close> on a full queue gives the element
  back; \<open>pop\<close> on an empty queue gives \<open>None\<close>. \<open>items\<close> is the content, oldest first, and \<open>cap\<close> the
  capacity.
\<close>

locale queue_spec =
  fixes Q :: "('a, 'q) array_queue" and items :: "'q \<Rightarrow> 'a list" and cap :: "'q \<Rightarrow> nat"
  assumes new_law: "0 < n \<Longrightarrow> items (aq_new Q n) = [] \<and> cap (aq_new Q n) = n"
    and push_law: "length (items q) < cap q \<Longrightarrow>
      \<exists>q'. aq_push Q x q = (Ok (), q') \<and> items q' = items q @ [x] \<and> cap q' = cap q"
    and full_law: "\<not> length (items q) < cap q \<Longrightarrow>
      \<exists>q'. aq_push Q x q = (Err x, q') \<and> items q' = items q \<and> cap q' = cap q"
    and pop_law: "items q = x # xs \<Longrightarrow> \<exists>q'. aq_pop Q q = (Some x, q') \<and> items q' = xs \<and> cap q' = cap q"
    and pop_empty_law: "items q = [] \<Longrightarrow> \<exists>q'. aq_pop Q q = (None, q') \<and> items q' = [] \<and> cap q' = cap q"
    and is_empty_law: "aq_is_empty Q q \<longleftrightarrow> items q = []"
begin

lemma push_cases:
  obtains (ok) q' where "length (items q) < cap q" and "aq_push Q x q = (Ok (), q')"
      and "items q' = items q @ [x]" and "cap q' = cap q"
  | (full) q' where "cap q \<le> length (items q)" and "aq_push Q x q = (Err x, q')"
      and "items q' = items q" and "cap q' = cap q"
  using push_law [of q x] full_law [of q x] by (cases "length (items q) < cap q") auto

lemma pop_cases:
  obtains (empty) q' where "items q = []" and "aq_pop Q q = (None, q')" and "items q' = []" and "cap q' = cap q"
  | (some) x xs q' where "items q = x # xs" and "aq_pop Q q = (Some x, q')" and "items q' = xs" and "cap q' = cap q"
  using pop_law [of q] pop_empty_law [of q] by (cases "items q") auto

end

section \<open>\<open>AtomicWaker\<close>\<close>

text \<open>\<open>wake\<close> returns the waker it calls, if one is registered; \<open>take\<close> gives it to the caller instead.\<close>

record ('w, 'k) atomic_waker =
  aw_new :: 'k
  aw_register :: "'w \<Rightarrow> 'k \<Rightarrow> 'k"
  aw_wake :: "'k \<Rightarrow> 'w option \<times> 'k"
  aw_take :: "'k \<Rightarrow> 'w option \<times> 'k"

text \<open>
  The documentation: \<open>register\<close> stores the waker that later calls of \<open>wake\<close> notify, replacing the
  one stored before; \<open>wake\<close> calls the last registered waker and does nothing without one; \<open>take\<close> returns
  the last registered waker, which \<open>wake\<close> then no longer notifies.
\<close>

locale waker_spec =
  fixes A :: "('w, 'k) atomic_waker" and registered :: "'k \<Rightarrow> 'w option"
  assumes aw_new_law: "registered (aw_new A) = None"
    and register_law: "registered (aw_register A w k) = Some w"
    and wake_law: "fst (aw_wake A k) = registered k \<and> registered (snd (aw_wake A k)) = None"
    and take_law: "fst (aw_take A k) = registered k \<and> registered (snd (aw_take A k)) = None"
begin

lemma wake_registered: "registered k = r \<Longrightarrow> \<exists>k'. aw_wake A k = (r, k') \<and> registered k' = None"
  using wake_law [of k] by (cases "aw_wake A k") auto

end

section \<open>I/O ports\<close>

text \<open>
  \<open>x86_64::instructions::port::Port\<close>: reads and writes of 8-, 16- and 32-bit ports act on the hardware,
  whose state \<^typ>\<open>'p\<close> the program does not see.
\<close>

record 'p port_ops =
  port_read8 :: "u16 \<Rightarrow> 'p \<Rightarrow> u8 \<times> 'p"
  port_write8 :: "u16 \<Rightarrow> u8 \<Rightarrow> 'p \<Rightarrow> 'p"
  port_read16 :: "u16 \<Rightarrow> 'p \<Rightarrow> u16 \<times> 'p"
  port_write16 :: "u16 \<Rightarrow> u16 \<Rightarrow> 'p \<Rightarrow> 'p"
  port_write32 :: "u16 \<Rightarrow> u32 \<Rightarrow> 'p \<Rightarrow> 'p"

section \<open>The interrupt flag and \<open>spin::Mutex\<close>\<close>

text \<open>
  \<open>x86_64::instructions::interrupts\<close> on the processor state \<^typ>\<open>'c\<close>. The two halves of
  \<open>without_interrupts\<close> are separate, so that code can run between them: entering returns whether
  interrupts were enabled and disables them, leaving enables them again in that case.
\<close>

record 'c irq_ops =
  are_enabled :: "'c \<Rightarrow> bool"
  irq_enable :: "'c \<Rightarrow> 'c"
  irq_disable :: "'c \<Rightarrow> 'c"
  wi_enter :: "'c \<Rightarrow> bool \<times> 'c"
  wi_leave :: "bool \<Rightarrow> 'c \<Rightarrow> 'c"

locale irq_spec =
  fixes I :: "'c irq_ops"
  assumes enable_law: "are_enabled I (irq_enable I c)"
    and disable_law: "\<not> are_enabled I (irq_disable I c)"
    and enter_law: "fst (wi_enter I c) = are_enabled I c \<and> \<not> are_enabled I (snd (wi_enter I c))"
    and leave_law: "are_enabled I (wi_leave I b c) \<longleftrightarrow> b \<or> are_enabled I c"

text \<open>
  \<open>spin::Mutex\<close>: \<open>lock\<close> spins until the lock is free. The kernel runs on one processor, so a lock that
  is held when \<open>lock\<close> is called with nothing else able to run is never released, and the call hangs.
\<close>

record 'm spin_mutex =
  sm_lock :: "'m \<Rightarrow> unit outcome \<times> 'm"
  sm_unlock :: "'m \<Rightarrow> 'm"

locale spin_spec =
  fixes M :: "'m spin_mutex" and held :: "'m \<Rightarrow> bool"
  assumes lock_law: "\<not> held m \<Longrightarrow> \<exists>m'. sm_lock M m = (Ret (), m') \<and> held m'"
    and lock_held_law: "held m \<Longrightarrow> fst (sm_lock M m) = Hang"
    and unlock_law: "\<not> held (sm_unlock M m)"

section \<open>Reference instances\<close>

definition flag_irq :: "bool irq_ops" where
  "flag_irq = \<lparr>are_enabled = (\<lambda>c. c), irq_enable = (\<lambda>c. True), irq_disable = (\<lambda>c. False),
     wi_enter = (\<lambda>c. (c, False)), wi_leave = (\<lambda>b c. b \<or> c)\<rparr>"

definition flag_mutex :: "bool spin_mutex" where
  "flag_mutex = \<lparr>sm_lock = (\<lambda>m. if m then (Hang, m) else (Ret (), True)), sm_unlock = (\<lambda>m. False)\<rparr>"

definition list_queue :: "('a, nat \<times> 'a list) array_queue" where
  "list_queue =
     \<lparr>aq_new = (\<lambda>n. (n, [])),
      aq_push = (\<lambda>x (n, xs). if length xs < n then (Ok (), (n, xs @ [x])) else (Err x, (n, xs))),
      aq_pop = (\<lambda>(n, xs). case xs of [] \<Rightarrow> (None, (n, [])) | y # ys \<Rightarrow> (Some y, (n, ys))),
      aq_is_empty = (\<lambda>(n, xs). xs = [])\<rparr>"

definition option_waker :: "('w, 'w option) atomic_waker" where
  "option_waker = \<lparr>aw_new = None, aw_register = (\<lambda>w k. Some w), aw_wake = (\<lambda>k. (k, None)), aw_take = (\<lambda>k. (k, None))\<rparr>"

interpretation lq: queue_spec list_queue snd fst
  by unfold_locales (auto simp: list_queue_def)

interpretation ow: waker_spec option_waker "\<lambda>k. k"
  by unfold_locales (simp_all add: option_waker_def)

interpretation fi: irq_spec flag_irq
  by unfold_locales (simp_all add: flag_irq_def)

interpretation fm: spin_spec flag_mutex "\<lambda>m. m"
  by unfold_locales (auto simp: flag_mutex_def)

end
