(* ===== verification/Locked_Alloc.thy ===== *)
theory Locked_Alloc
  imports Fixed_Size_Block Bump Crates
begin

text \<open>
  \<open>Locked\<close> of \<open>src/allocator.rs\<close>: the allocators are used behind a spin lock, which every call of
  \<open>GlobalAlloc\<close> takes first and releases when it returns. The lock keeps the contract of the allocator
  inside, and a call made while it is held never returns.
\<close>

section \<open>The wrapper\<close>

record ('a, 'm) Locked =
  inner :: 'a
  inner_lock :: 'm

definition Locked_new :: "'a \<Rightarrow> 'm \<Rightarrow> ('a, 'm) Locked" where
  "Locked_new a unlocked = \<lparr>inner = a, inner_lock = unlocked\<rparr>"

definition Locked_lock :: "'m spin_mutex \<Rightarrow> (('a, 'm) Locked, unit) io" where
  "Locked_lock M self = (case sm_lock M (inner_lock self) of (r, m) \<Rightarrow> (r, self\<lparr>inner_lock := m\<rparr>))"

text \<open>A call on the guard; the guard is dropped when the call returns, and kept when it panics.\<close>

definition with_lock :: "'m spin_mutex \<Rightarrow> ('a, 'x) io \<Rightarrow> (('a, 'm) Locked, 'x) io" where
  "with_lock M call =
     io_bind (Locked_lock M) (\<lambda>_.
     io_bind (\<lambda>self. case call (inner self) of (r, a) \<Rightarrow> (r, self\<lparr>inner := a\<rparr>)) (\<lambda>x.
     io_bind (io_modify (\<lambda>self. self\<lparr>inner_lock := sm_unlock M (inner_lock self)\<rparr>)) (\<lambda>_.
     io_ret x)))"

section \<open>The contract behind the lock\<close>

locale lock_user = spin_spec M held for M :: "'m spin_mutex" and held :: "'m \<Rightarrow> bool"
begin

lemma with_lock_Ret:
  assumes "\<not> held (inner_lock s)" and "call (inner s) = (Ret x, a)"
  obtains m where "with_lock M call s = (Ret x, s\<lparr>inner_lock := m, inner := a\<rparr>)" and "\<not> held m"
proof -
  obtain m where "sm_lock M (inner_lock s) = (Ret (), m)" using lock_law [OF assms(1)] by blast
  then have "with_lock M call s = (Ret x, s\<lparr>inner_lock := sm_unlock M m, inner := a\<rparr>)"
    using assms(2) by (simp add: with_lock_def Locked_lock_def io_bind_def)
  then show ?thesis using that unlock_law by blast
qed

lemma with_lock_held:
  assumes "held (inner_lock s)"
  shows "fst (with_lock M call s) = Hang"
  using lock_held_law [OF assms]
  by (cases "sm_lock M (inner_lock s)") (simp add: with_lock_def Locked_lock_def io_bind_def)

end

locale locked_alloc = global_alloc alloc dealloc inv accepts lo hi + lock_user M held
  for alloc :: "layout \<Rightarrow> ('s, usize) io" and dealloc :: "usize \<Rightarrow> layout \<Rightarrow> ('s, unit) io"
    and inv :: "'s \<Rightarrow> block list \<Rightarrow> bool" and accepts :: "layout \<Rightarrow> bool" and lo :: nat and hi :: nat
    and M :: "'m spin_mutex" and held :: "'m \<Rightarrow> bool"

definition locked_inv ::
  "('s \<Rightarrow> block list \<Rightarrow> bool) \<Rightarrow> ('m \<Rightarrow> bool) \<Rightarrow> ('s, 'm) Locked \<Rightarrow> block list \<Rightarrow> bool" where
  "locked_inv ainv held s bs \<longleftrightarrow> ainv (inner s) bs \<and> \<not> held (inner_lock s)"

sublocale locked_alloc \<subseteq> lk: global_alloc "\<lambda>l. with_lock M (alloc l)" "\<lambda>p l. with_lock M (dealloc p l)"
  "locked_inv inv held" accepts lo hi
proof
  fix s :: "('s, 'm) Locked" and bs l
  assume s: "locked_inv inv held s bs" and l: "accepts l"
  obtain p a where a: "alloc l (inner s) = (Ret p, a)" "inv a (if p = 0 then bs else (p, l) # bs)"
    using alloc_law [of "inner s" bs l] s l by (auto simp: locked_inv_def)
  have "\<not> held (inner_lock s)" using s by (simp add: locked_inv_def)
  then obtain m where "with_lock M (alloc l) s = (Ret p, s\<lparr>inner_lock := m, inner := a\<rparr>)" "\<not> held m"
    using a(1) by (rule with_lock_Ret)
  then show "\<exists>p s'. with_lock M (alloc l) s = (Ret p, s') \<and> locked_inv inv held s' (if p = 0 then bs else (p, l) # bs)"
    using a(2) by (simp add: locked_inv_def)
next
  fix s :: "('s, 'm) Locked" and bs i
  assume s: "locked_inv inv held s bs" and i: "i < length bs"
  obtain a where a: "dealloc (fst (bs ! i)) (snd (bs ! i)) (inner s) = (Ret (), a)" "inv a (delete_nth i bs)"
    using dealloc_law [of "inner s" bs i] s i by (auto simp: locked_inv_def)
  have "\<not> held (inner_lock s)" using s by (simp add: locked_inv_def)
  then obtain m where "with_lock M (dealloc (fst (bs ! i)) (snd (bs ! i))) s = (Ret (), s\<lparr>inner_lock := m, inner := a\<rparr>)" "\<not> held m"
    using a(1) by (rule with_lock_Ret)
  then show "\<exists>s'. with_lock M (dealloc (fst (bs ! i)) (snd (bs ! i))) s = (Ret (), s') \<and> locked_inv inv held s' (delete_nth i bs)"
    using a(2) by (simp add: locked_inv_def)
next
  fix s :: "('s, 'm) Locked" and bs
  assume "locked_inv inv held s bs"
  then show "live_ok lo hi bs" using live_law by (auto simp: locked_inv_def)
qed

context locked_alloc
begin

lemma locked_alloc_lk: "global_alloc (\<lambda>l. with_lock M (alloc l)) (\<lambda>p l. with_lock M (dealloc p l)) (locked_inv inv held) accepts lo hi"
  by (rule lk.global_alloc_axioms)

end

text \<open>The three allocators of the repository behind their locks.\<close>

lemma flag_lock_user: "lock_user flag_mutex (\<lambda>m. m)"
  using fm.spin_spec_axioms by (simp add: lock_user_def)

interpretation locked_bump: locked_alloc "bump_alloc oc" "bump_dealloc oc" "bump_inv lo hi" request_ok lo hi flag_mutex "\<lambda>m. m"
  for oc lo hi
  using bump.global_alloc_axioms flag_lock_user by (simp add: locked_alloc_def)

interpretation locked_ll: locked_alloc "ll_alloc oc" "ll_dealloc oc" "ll_inv lo hi" ll_accepts lo hi flag_mutex "\<lambda>m. m"
  for oc lo hi
  using ll.global_alloc_axioms flag_lock_user by (simp add: locked_alloc_def)

interpretation locked_fsb: locked_alloc "fsb_alloc (ll_heap_ops oc)" "fsb_dealloc (ll_heap_ops oc)" "fsb_inv (ll_inv lo hi) ll_accepts"
  "fsb_accepts ll_accepts" lo hi flag_mutex "\<lambda>m. m"
  for oc lo hi
  using ll_fb.fsb.global_alloc_axioms flag_lock_user by (simp add: locked_alloc_def)

section \<open>Properties\<close>

text \<open>
  C5. Memory safety of the kernel's global allocator behind its lock, relative to the documented
  contracts of the fallback heap and of the spin lock: after \<open>init\<close>, whatever a client allocates and
  frees, in any order, no call panics or hangs, the live blocks are aligned, inside the heap and
  pairwise disjoint, although freed small blocks never go back to the heap that handed them out, and
  the lock is free again. A call made while the lock is held, as by an interrupt handler, hangs.
\<close>

theorem global_allocator_safe:
  assumes "fallback_heap h hinv accepts lo hi" and "lock_user M held" and "\<not> held unlocked"
    and "heap_init h start sz (heap_empty h) = (Ret (), h0)" and "hinv h0 []"
    and "list_all (op_ok (fsb_accepts accepts)) ops"
  shows "\<exists>s s' bs. with_lock M (fsb_init h start sz) (Locked_new (FixedSizeBlockAllocator_new h m) unlocked) = (Ret (), s) \<and>
    run_ops (\<lambda>l. with_lock M (fsb_alloc h l)) (\<lambda>p l. with_lock M (fsb_dealloc h p l)) ops (s, []) = Ret (s', bs) \<and>
    live_ok lo hi bs \<and> \<not> held (inner_lock s') \<and>
    (\<forall>lk l. held lk \<longrightarrow> fst (with_lock M (fsb_alloc h l) (s'\<lparr>inner_lock := lk\<rparr>)) = Hang)"
proof -
  have la: "locked_alloc (fsb_alloc h) (fsb_dealloc h) (fsb_inv hinv accepts) (fsb_accepts accepts) lo hi M held"
    using fallback_heap.fsb_contract [OF assms(1)] assms(2) by (simp add: locked_alloc_def)
  obtain a where a: "fsb_init h start sz (FixedSizeBlockAllocator_new h m) = (Ret (), a)" "fsb_inv hinv accepts a []"
    by (rule fsb_init_inv [where hinv = hinv, OF assms(4,5)])
  let ?s = "Locked_new (FixedSizeBlockAllocator_new h m) unlocked"
  obtain lk where s: "with_lock M (fsb_init h start sz) ?s = (Ret (), ?s\<lparr>inner_lock := lk, inner := a\<rparr>)" "\<not> held lk"
    by (rule lock_user.with_lock_Ret [OF assms(2), of ?s "fsb_init h start sz" "()" a]) (use a(1) assms(3) in \<open>simp_all add: Locked_new_def\<close>)
  have "locked_inv (fsb_inv hinv accepts) held (?s\<lparr>inner_lock := lk, inner := a\<rparr>) []" using a(2) s(2) by (simp add: locked_inv_def)
  from global_alloc.run_ops_inv [OF locked_alloc.locked_alloc_lk [OF la] this assms(6)]
  obtain s' bs where r: "run_ops (\<lambda>l. with_lock M (fsb_alloc h l)) (\<lambda>p l. with_lock M (fsb_dealloc h p l)) ops
      (?s\<lparr>inner_lock := lk, inner := a\<rparr>, []) = Ret (s', bs)" "locked_inv (fsb_inv hinv accepts) held s' bs" by blast
  have "live_ok lo hi bs" using global_alloc.live_law [OF locked_alloc.locked_alloc_lk [OF la] r(2)] .
  moreover have "fst (with_lock M (fsb_alloc h l) (s'\<lparr>inner_lock := k\<rparr>)) = Hang" if "held k" for k l
    by (rule lock_user.with_lock_held [OF assms(2)]) (use that in simp)
  ultimately show ?thesis using s(1) r by (intro exI conjI) (auto simp: locked_inv_def)
qed

theorem global_allocator_safe_witness:
  "\<exists>s s' bs. with_lock flag_mutex (fsb_init (ll_heap_ops True) HEAP_START HEAP_SIZE)
      (Locked_new (FixedSizeBlockAllocator_new (ll_heap_ops True) (\<lambda>_. None)) False) = (Ret (), s) \<and>
    run_ops (\<lambda>l. with_lock flag_mutex (fsb_alloc (ll_heap_ops True) l)) (\<lambda>p l. with_lock flag_mutex (fsb_dealloc (ll_heap_ops True) p l))
      [AllocOp \<lparr>l_size = 24, l_align = 8\<rparr>, AllocOp \<lparr>l_size = 4000, l_align = 8\<rparr>, FreeOp 1, FreeOp 0,
       AllocOp \<lparr>l_size = 17, l_align = 1\<rparr>] (s, []) = Ret (s', bs) \<and>
    live_ok (unat HEAP_START) (unat HEAP_START + unat HEAP_SIZE) bs \<and> \<not> inner_lock s' \<and>
    fst (with_lock flag_mutex (fsb_alloc (ll_heap_ops True) \<lparr>l_size = 24, l_align = 8\<rparr>) (s'\<lparr>inner_lock := True\<rparr>)) = Hang"
proof -
  let ?ops = "[AllocOp \<lparr>l_size = 24, l_align = 8\<rparr>, AllocOp \<lparr>l_size = 4000, l_align = 8\<rparr>, FreeOp 1, FreeOp 0, AllocOp \<lparr>l_size = 17, l_align = 1\<rparr>]"
  have "8 dvd unat HEAP_START" "0 < unat HEAP_START" "16 \<le> unat HEAP_SIZE" "unat HEAP_START + unat HEAP_SIZE \<le> 2 ^ 63"
    by (simp_all add: HEAP_START_def HEAP_SIZE_def)
  from ll_init_inv [OF this, of True "\<lambda>_. ListNode_new 0"] obtain h0 where
    h0: "heap_init (ll_heap_ops True) HEAP_START HEAP_SIZE (heap_empty (ll_heap_ops True)) = (Ret (), h0)"
    "ll_inv (unat HEAP_START) (unat HEAP_START + unat HEAP_SIZE) h0 []"
    by (auto simp: ll_heap_ops_def)
  have ops: "list_all (op_ok (fsb_accepts ll_accepts)) ?ops"
    by (simp add: fsb_accepts_def ll_accepts_def request_ok_def layout_valid_def is_power_of_two_def LIST_NODE_ALIGN_def max_def upt_rec)
  show ?thesis
    using global_allocator_safe [OF ll_fb.fallback_heap_axioms flag_lock_user _ h0 ops, of False "\<lambda>_. None"] by auto
qed

end
