(* ===== verification/Ata.thy ===== *)
theory Ata
  imports Crates
begin

text \<open>
  \<open>src/ata.rs\<close>: the driver of the disk on the primary IDE channel. The module's statics are the
  fields of one record, the drive behind the I/O ports is a parameter, and the diagnostics printed
  with \<open>println!\<close> are a list of messages, which theory \<open>Interrupts\<close> sends to the screen. The futures are
  their \<open>poll\<close> functions; what the executor and the interrupt controller do for a task that awaits one is
  \<open>await_disk\<close>.
\<close>

section \<open>Constants\<close>

definition DATA_PORT :: u16 where "DATA_PORT = 0x1F0"
definition ERROR_PORT :: u16 where "ERROR_PORT = 0x1F1"
definition SECTOR_COUNT_PORT :: u16 where "SECTOR_COUNT_PORT = 0x1F2"
definition LBA_LOW_PORT :: u16 where "LBA_LOW_PORT = 0x1F3"
definition LBA_MID_PORT :: u16 where "LBA_MID_PORT = 0x1F4"
definition LBA_HIGH_PORT :: u16 where "LBA_HIGH_PORT = 0x1F5"
definition DEVICE_PORT :: u16 where "DEVICE_PORT = 0x1F6"
definition STATUS_COMMAND_PORT :: u16 where "STATUS_COMMAND_PORT = 0x1F7"
definition ALT_STATUS_CONTROL_PORT :: u16 where "ALT_STATUS_CONTROL_PORT = 0x3F6"
definition STATUS_DRQ :: u8 where "STATUS_DRQ = 0x08"
definition STATUS_ERR :: u8 where "STATUS_ERR = 0x01"
definition CMD_READ_SECTORS :: u8 where "CMD_READ_SECTORS = 0x20"
definition CMD_WRITE_SECTORS :: u8 where "CMD_WRITE_SECTORS = 0x30"
definition DEVICE_MASTER :: u8 where "DEVICE_MASTER = 0xA0"
definition DEVICE_SLAVE :: u8 where "DEVICE_SLAVE = 0xB0"
definition SECTOR_SIZE :: nat where "SECTOR_SIZE = 512"

lemmas port_defs = DATA_PORT_def ERROR_PORT_def SECTOR_COUNT_PORT_def LBA_LOW_PORT_def LBA_MID_PORT_def
  LBA_HIGH_PORT_def DEVICE_PORT_def STATUS_COMMAND_PORT_def ALT_STATUS_CONTROL_PORT_def

lemmas command_defs = CMD_READ_SECTORS_def CMD_WRITE_SECTORS_def DEVICE_MASTER_def DEVICE_SLAVE_def
  STATUS_DRQ_def STATUS_ERR_def

section \<open>State\<close>

datatype DiskRequest = Read u32 | Write u32

text \<open>The messages of the module's \<open>println!\<close> calls, with the values they print.\<close>

datatype ata_message =
  AtaInitialized
| MasterDetected u8
| NoMaster
| ReadRequested u32
| StatusBeforeRead u8
| SettingRead u8 u8 u8 u8
| DeviceRegister u8
| IssuingRead
| ReadResult u8 u8 u8 u8
| WriteRequested u32
| SettingWrite u8 u8 u8
| IssuingWrite
| AtaError u8
| WriteDone u32
| ReadDone u32
| ClientLine "u8 list"

text \<open>The line each of them prints; \<open>ClientLine\<close> is a line printed by the file system above the driver.\<close>

fun ata_text :: "ata_message \<Rightarrow> u8 list" where
  "ata_text AtaInitialized = bytes ''ATA driver initialized''"
| "ata_text (MasterDetected status) = bytes ''ATA master drive detected (status: '' @ show_0x status @ bytes '')''"
| "ata_text NoMaster = bytes ''No ATA master drive detected''"
| "ata_text (ReadRequested lba) = bytes ''[ATA] read_sector_async(LBA '' @ show_dec (unat lba) @ bytes '')''"
| "ata_text (StatusBeforeRead status) = bytes ''[ATA] Current status before read: '' @ show_0x_byte status"
| "ata_text (SettingRead low mid high upper) =
     bytes ''[ATA] Setting: count=1, lba_low='' @ show_byte low @ bytes '', lba_mid='' @ show_byte mid @
     bytes '', lba_high='' @ show_byte high @ bytes '', upper='' @ show_byte upper"
| "ata_text (DeviceRegister v) = bytes ''[ATA] Device register: '' @ show_0x_byte v"
| "ata_text IssuingRead = bytes ''[ATA] Issuing READ command (0x20)''"
| "ata_text (ReadResult b0 b1 b2 b3) =
     bytes ''[ATA] Read complete: '' @ show_byte b0 @ bytes '' '' @ show_byte b1 @ bytes '' '' @ show_byte b2 @ bytes '' '' @
     show_byte b3 @ bytes ''...''"
| "ata_text (WriteRequested lba) = bytes ''[ATA] write_sector_async(LBA '' @ show_dec (unat lba) @ bytes '')''"
| "ata_text (SettingWrite low mid high) =
     bytes ''[ATA] Setting up write: count=1, lba_low='' @ show_byte low @ bytes '', lba_mid='' @ show_byte mid @
     bytes '', lba_high='' @ show_byte high"
| "ata_text IssuingWrite = bytes ''[ATA] Issuing WRITE command (0x30)''"
| "ata_text (AtaError error) = bytes ''ATA error: '' @ show_0x error"
| "ata_text (WriteDone lba) = bytes ''ATA sector write complete (LBA: '' @ show_dec (unat lba) @ bytes '')''"
| "ata_text (ReadDone lba) = bytes ''ATA sector read complete (LBA: '' @ show_dec (unat lba) @ bytes '')''"
| "ata_text (ClientLine line) = line"

text \<open>\<open>woken\<close> records the wakers called by \<open>wake\<close>, in order.\<close>

record ('p, 'q, 'k, 'w) ata_state =
  PENDING_LBA :: u32
  OPERATION_COMPLETE :: bool
  WRITE_COMPLETE :: bool
  SECTOR_BUFFER :: "u8 list"
  SECTOR_WRITE_BUFFER :: "u8 list"
  DISK_REQUEST_QUEUE :: "'q option"
  DISK_WAKER :: "'k option"
  ports :: 'p
  woken :: "'w list"
  console :: "ata_message list"

text \<open>The crates the module uses.\<close>

record ('p, 'q, 'k, 'w) ata_env =
  env_ports :: "'p port_ops"
  env_queue :: "(DiskRequest, 'q) array_queue"
  env_waker :: "('w, 'k) atomic_waker"

definition ata_start :: "'p \<Rightarrow> ('p, 'q, 'k, 'w) ata_state" where
  "ata_start p =
     \<lparr>PENDING_LBA = 0, OPERATION_COMPLETE = False, WRITE_COMPLETE = False,
      SECTOR_BUFFER = replicate SECTOR_SIZE 0, SECTOR_WRITE_BUFFER = replicate SECTOR_SIZE 0,
      DISK_REQUEST_QUEUE = None, DISK_WAKER = None, ports = p, woken = [], console = []\<rparr>"

type_synonym ('p, 'q, 'k, 'w, 'a) ata_io = "(('p, 'q, 'k, 'w) ata_state, 'a) io"

definition in8 :: "('p, 'q, 'k, 'w) ata_env \<Rightarrow> u16 \<Rightarrow> ('p, 'q, 'k, 'w, u8) ata_io" where
  "in8 E port = (\<lambda>s. case port_read8 (env_ports E) port (ports s) of (v, p) \<Rightarrow> (Ret v, s\<lparr>ports := p\<rparr>))"

definition out8 :: "('p, 'q, 'k, 'w) ata_env \<Rightarrow> u16 \<Rightarrow> u8 \<Rightarrow> ('p, 'q, 'k, 'w, unit) ata_io" where
  "out8 E port v = io_modify (\<lambda>s. s\<lparr>ports := port_write8 (env_ports E) port v (ports s)\<rparr>)"

definition in16 :: "('p, 'q, 'k, 'w) ata_env \<Rightarrow> u16 \<Rightarrow> ('p, 'q, 'k, 'w, u16) ata_io" where
  "in16 E port = (\<lambda>s. case port_read16 (env_ports E) port (ports s) of (v, p) \<Rightarrow> (Ret v, s\<lparr>ports := p\<rparr>))"

definition out16 :: "('p, 'q, 'k, 'w) ata_env \<Rightarrow> u16 \<Rightarrow> u16 \<Rightarrow> ('p, 'q, 'k, 'w, unit) ata_io" where
  "out16 E port v = io_modify (\<lambda>s. s\<lparr>ports := port_write16 (env_ports E) port v (ports s)\<rparr>)"

definition log_msg :: "ata_message \<Rightarrow> ('p, 'q, 'k, 'w, unit) ata_io" where
  "log_msg m = io_modify (\<lambda>s. s\<lparr>console := console s @ [m]\<rparr>)"

section \<open>Futures\<close>

text \<open>
  \<open>poll\<close> of a read and of a write. The two arguments \<open>irq1\<close> and \<open>irq2\<close> are what an interrupt
  handler does if it runs between the first test and the registration, and between the registration
  and the second test; both are \<open>io_ret ()\<close> when no interrupt comes there.
\<close>

definition register_waker :: "('p, 'q, 'k, 'w) ata_env \<Rightarrow> 'w \<Rightarrow> ('p, 'q, 'k, 'w, unit) ata_io" where
  "register_waker E w = io_modify (\<lambda>s. s\<lparr>DISK_WAKER := map_option (aw_register (env_waker E) w) (DISK_WAKER s)\<rparr>)"

definition read_is_complete :: "u32 \<Rightarrow> ('p, 'q, 'k, 'w) ata_state \<Rightarrow> bool" where
  "read_is_complete lba s \<longleftrightarrow> OPERATION_COMPLETE s \<and> PENDING_LBA s = lba"

definition take_read :: "('p, 'q, 'k, 'w, u8 list poll) ata_io" where
  "take_read = io_bind (io_modify (\<lambda>s. s\<lparr>OPERATION_COMPLETE := False\<rparr>)) (\<lambda>_.
     io_bind (io_gets SECTOR_BUFFER) (\<lambda>buffer. io_ret (Ready buffer)))"

definition SectorRead_poll ::
  "('p, 'q, 'k, 'w) ata_env \<Rightarrow> ('p, 'q, 'k, 'w, unit) ata_io \<Rightarrow> ('p, 'q, 'k, 'w, unit) ata_io \<Rightarrow>
   u32 \<Rightarrow> 'w \<Rightarrow> ('p, 'q, 'k, 'w, u8 list poll) ata_io" where
  "SectorRead_poll E irq1 irq2 lba w =
     io_bind (io_gets (read_is_complete lba)) (\<lambda>complete.
     if complete then take_read else
     io_bind irq1 (\<lambda>_.
     io_bind (register_waker E w) (\<lambda>_.
     io_bind irq2 (\<lambda>_.
     io_bind (io_gets (read_is_complete lba)) (\<lambda>complete.
     if complete then take_read else io_ret Pending)))))"

definition write_is_complete :: "u32 \<Rightarrow> ('p, 'q, 'k, 'w) ata_state \<Rightarrow> bool" where
  "write_is_complete lba s \<longleftrightarrow> WRITE_COMPLETE s \<and> PENDING_LBA s = lba"

lemma is_complete_waker [simp]:
  "read_is_complete lba (s\<lparr>DISK_WAKER := x\<rparr>) = read_is_complete lba s"
  "write_is_complete lba (s\<lparr>DISK_WAKER := x\<rparr>) = write_is_complete lba s"
  by (simp_all add: read_is_complete_def write_is_complete_def)

definition take_write :: "('p, 'q, 'k, 'w, (unit, string) result poll) ata_io" where
  "take_write = io_bind (io_modify (\<lambda>s. s\<lparr>WRITE_COMPLETE := False\<rparr>)) (\<lambda>_. io_ret (Ready (Ok ())))"

definition SectorWrite_poll ::
  "('p, 'q, 'k, 'w) ata_env \<Rightarrow> ('p, 'q, 'k, 'w, unit) ata_io \<Rightarrow> ('p, 'q, 'k, 'w, unit) ata_io \<Rightarrow>
   u32 \<Rightarrow> 'w \<Rightarrow> ('p, 'q, 'k, 'w, (unit, string) result poll) ata_io" where
  "SectorWrite_poll E irq1 irq2 lba w =
     io_bind (io_gets (write_is_complete lba)) (\<lambda>complete.
     if complete then take_write else
     io_bind irq1 (\<lambda>_.
     io_bind (register_waker E w) (\<lambda>_.
     io_bind irq2 (\<lambda>_.
     io_bind (io_gets (write_is_complete lba)) (\<lambda>complete.
     if complete then take_write else io_ret Pending)))))"

section \<open>The driver\<close>

record AtaDriver =
  initialized :: bool

definition AtaDriver_new :: AtaDriver where
  "AtaDriver_new = \<lparr>initialized = False\<rparr>"

text \<open>The spin loop between the two writes only waits.\<close>

definition soft_reset :: "('p, 'q, 'k, 'w) ata_env \<Rightarrow> ('p, 'q, 'k, 'w, unit) ata_io" where
  "soft_reset E =
     io_bind (out8 E ALT_STATUS_CONTROL_PORT 0x04) (\<lambda>_. out8 E ALT_STATUS_CONTROL_PORT 0x00)"

definition detect_drives :: "('p, 'q, 'k, 'w) ata_env \<Rightarrow> ('p, 'q, 'k, 'w, unit) ata_io" where
  "detect_drives E =
     io_bind (out8 E DEVICE_PORT DEVICE_MASTER) (\<lambda>_.
     io_bind (in8 E STATUS_COMMAND_PORT) (\<lambda>status.
     if status \<noteq> 0xFF then log_msg (MasterDetected status) else log_msg NoMaster))"

definition ata_init :: "('p, 'q, 'k, 'w) ata_env \<Rightarrow> AtaDriver \<Rightarrow> ('p, 'q, 'k, 'w, AtaDriver) ata_io" where
  "ata_init E self =
     (if initialized self then io_ret self
      else
        io_bind (io_gets DISK_REQUEST_QUEUE) (\<lambda>q.
        if q \<noteq> None then io_panic ''ATA request queue already initialized''
        else io_bind (io_modify (\<lambda>s. s\<lparr>DISK_REQUEST_QUEUE := Some (aq_new (env_queue E) 32)\<rparr>)) (\<lambda>_.
        io_bind (io_gets DISK_WAKER) (\<lambda>k.
        if k \<noteq> None then io_panic ''ATA waker already initialized''
        else io_bind (io_modify (\<lambda>s. s\<lparr>DISK_WAKER := Some (aw_new (env_waker E))\<rparr>)) (\<lambda>_.
        io_bind (soft_reset E) (\<lambda>_.
        io_bind (detect_drives E) (\<lambda>_.
        io_bind (log_msg AtaInitialized) (\<lambda>_.
        io_ret (self\<lparr>initialized := True\<rparr>)))))))))"

definition lba_low :: "u32 \<Rightarrow> u8" where
  "lba_low lba = ucast (lba AND 0xFF)"

definition lba_mid :: "u32 \<Rightarrow> u8" where
  "lba_mid lba = ucast (drop_bit 8 lba AND 0xFF)"

definition lba_high :: "u32 \<Rightarrow> u8" where
  "lba_high lba = ucast (drop_bit 16 lba AND 0xFF)"

definition lba_upper :: "u32 \<Rightarrow> u8" where
  "lba_upper lba = ucast (drop_bit 24 lba AND 0x0F)"

definition issue_read_command :: "('p, 'q, 'k, 'w) ata_env \<Rightarrow> u32 \<Rightarrow> ('p, 'q, 'k, 'w, unit) ata_io" where
  "issue_read_command E lba =
     io_bind (out8 E SECTOR_COUNT_PORT 1) (\<lambda>_.
     io_bind (out8 E LBA_LOW_PORT (lba_low lba)) (\<lambda>_.
     io_bind (out8 E LBA_MID_PORT (lba_mid lba)) (\<lambda>_.
     io_bind (out8 E LBA_HIGH_PORT (lba_high lba)) (\<lambda>_.
     io_bind (out8 E DEVICE_PORT (DEVICE_SLAVE OR 0x40 OR lba_upper lba)) (\<lambda>_.
     out8 E STATUS_COMMAND_PORT CMD_READ_SECTORS)))))"

definition read_sector ::
  "('p, 'q, 'k, 'w) ata_env \<Rightarrow> u32 \<Rightarrow> ('p, 'q, 'k, 'w, (unit, string) result) ata_io" where
  "read_sector E lba =
     io_bind (io_gets DISK_REQUEST_QUEUE) (\<lambda>q. case q of
       None \<Rightarrow> io_ret (Err ''ATA request queue not initialized'')
     | Some queue \<Rightarrow>
         (case aq_push (env_queue E) (Read lba) queue of (r, queue') \<Rightarrow>
            io_bind (io_modify (\<lambda>s. s\<lparr>DISK_REQUEST_QUEUE := Some queue'\<rparr>)) (\<lambda>_.
            case r of
              Err _ \<Rightarrow> io_ret (Err ''ATA request queue full'')
            | Ok _ \<Rightarrow>
                io_bind (io_modify (\<lambda>s. s\<lparr>PENDING_LBA := lba, OPERATION_COMPLETE := False\<rparr>)) (\<lambda>_.
                io_bind (issue_read_command E lba) (\<lambda>_.
                io_ret (Ok ()))))))"

text \<open>The part of \<open>read_sector_async\<close> before its \<open>await\<close>.\<close>

definition start_read :: "('p, 'q, 'k, 'w) ata_env \<Rightarrow> u32 \<Rightarrow> ('p, 'q, 'k, 'w, unit) ata_io" where
  "start_read E lba =
     io_bind (log_msg (ReadRequested lba)) (\<lambda>_.
     io_bind (in8 E STATUS_COMMAND_PORT) (\<lambda>status.
     io_bind (log_msg (StatusBeforeRead status)) (\<lambda>_.
     io_bind (io_modify (\<lambda>s. s\<lparr>PENDING_LBA := lba, OPERATION_COMPLETE := False\<rparr>)) (\<lambda>_.
     io_bind (log_msg (SettingRead (lba_low lba) (lba_mid lba) (lba_high lba) (lba_upper lba))) (\<lambda>_.
     io_bind (out8 E SECTOR_COUNT_PORT 1) (\<lambda>_.
     io_bind (out8 E LBA_LOW_PORT (lba_low lba)) (\<lambda>_.
     io_bind (out8 E LBA_MID_PORT (lba_mid lba)) (\<lambda>_.
     io_bind (out8 E LBA_HIGH_PORT (lba_high lba)) (\<lambda>_.
     let device_val = DEVICE_SLAVE OR 0x40 OR lba_upper lba in
     io_bind (log_msg (DeviceRegister device_val)) (\<lambda>_.
     io_bind (out8 E DEVICE_PORT device_val) (\<lambda>_.
     io_bind (log_msg IssuingRead) (\<lambda>_.
     out8 E STATUS_COMMAND_PORT CMD_READ_SECTORS))))))))))))"

text \<open>
  The part of \<open>write_sector_async\<close> before its \<open>await\<close>. \<open>copy_from_slice\<close> panics on a slice of another
  length, which the type \<open>&[u8; SECTOR_SIZE]\<close> of \<open>data\<close> excludes.
\<close>

definition start_write :: "('p, 'q, 'k, 'w) ata_env \<Rightarrow> u32 \<Rightarrow> u8 list \<Rightarrow> ('p, 'q, 'k, 'w, unit) ata_io" where
  "start_write E lba data =
     io_bind (log_msg (WriteRequested lba)) (\<lambda>_.
     if length data \<noteq> SECTOR_SIZE then io_panic ''copy_from_slice: source slice length does not match'' else
     io_bind (io_modify (\<lambda>s. s\<lparr>SECTOR_WRITE_BUFFER := data, PENDING_LBA := lba, WRITE_COMPLETE := False\<rparr>)) (\<lambda>_.
     io_bind (log_msg (SettingWrite (lba_low lba) (lba_mid lba) (lba_high lba))) (\<lambda>_.
     io_bind (out8 E SECTOR_COUNT_PORT 1) (\<lambda>_.
     io_bind (out8 E LBA_LOW_PORT (lba_low lba)) (\<lambda>_.
     io_bind (out8 E LBA_MID_PORT (lba_mid lba)) (\<lambda>_.
     io_bind (out8 E LBA_HIGH_PORT (lba_high lba)) (\<lambda>_.
     io_bind (out8 E DEVICE_PORT (DEVICE_SLAVE OR 0x40 OR lba_upper lba)) (\<lambda>_.
     io_bind (log_msg IssuingWrite) (\<lambda>_.
     out8 E STATUS_COMMAND_PORT CMD_WRITE_SECTORS)))))))))"

section \<open>The interrupt handler\<close>

text \<open>The loops \<open>for i in 0..256\<close>, from index \<open>i\<close> with \<open>n\<close> rounds left.\<close>

fun read_words :: "('p, 'q, 'k, 'w) ata_env \<Rightarrow> nat \<Rightarrow> nat \<Rightarrow> ('p, 'q, 'k, 'w, unit) ata_io" where
  "read_words E i 0 = io_ret ()"
| "read_words E i (Suc n) =
     io_bind (in16 E DATA_PORT) (\<lambda>word.
     io_bind (io_modify (\<lambda>s. s\<lparr>SECTOR_BUFFER :=
       (SECTOR_BUFFER s)[i * 2 := ucast (word AND 0xFF), i * 2 + 1 := ucast (drop_bit 8 word)]\<rparr>)) (\<lambda>_.
     read_words E (Suc i) n))"

fun write_words :: "('p, 'q, 'k, 'w) ata_env \<Rightarrow> nat \<Rightarrow> nat \<Rightarrow> ('p, 'q, 'k, 'w, unit) ata_io" where
  "write_words E i 0 = io_ret ()"
| "write_words E i (Suc n) =
     io_bind (io_gets SECTOR_WRITE_BUFFER) (\<lambda>write_buffer.
     let byte1 = ucast (write_buffer ! (i * 2)) :: u16; byte2 = ucast (write_buffer ! (i * 2 + 1)) :: u16;
         word = byte1 OR push_bit 8 byte2
     in io_bind (out16 E DATA_PORT word) (\<lambda>_. write_words E (Suc i) n))"

definition wake_disk :: "('p, 'q, 'k, 'w) ata_env \<Rightarrow> ('p, 'q, 'k, 'w, unit) ata_io" where
  "wake_disk E = io_modify (\<lambda>s. case DISK_WAKER s of
       None \<Rightarrow> s
     | Some k \<Rightarrow> (case aw_wake (env_waker E) k of (w, k') \<Rightarrow>
         s\<lparr>DISK_WAKER := Some k', woken := woken s @ (case w of None \<Rightarrow> [] | Some w \<Rightarrow> [w])\<rparr>))"

definition on_primary_ata_interrupt :: "('p, 'q, 'k, 'w) ata_env \<Rightarrow> ('p, 'q, 'k, 'w, unit) ata_io" where
  "on_primary_ata_interrupt E =
     io_bind (in8 E STATUS_COMMAND_PORT) (\<lambda>status.
     if status AND STATUS_ERR \<noteq> 0 then
       io_bind (in8 E ERROR_PORT) (\<lambda>error.
       io_bind (log_msg (AtaError error)) (\<lambda>_.
       io_modify (\<lambda>s. s\<lparr>OPERATION_COMPLETE := False, WRITE_COMPLETE := False\<rparr>)))
     else if status AND STATUS_DRQ \<noteq> 0 then
       io_bind (io_gets (\<lambda>s. WRITE_COMPLETE s = False \<and> OPERATION_COMPLETE s = True)) (\<lambda>is_write.
       io_bind
         (if is_write then
            io_bind (write_words E 0 256) (\<lambda>_.
            io_bind (io_gets PENDING_LBA) (\<lambda>lba.
            io_bind (log_msg (WriteDone lba)) (\<lambda>_.
            io_modify (\<lambda>s. s\<lparr>WRITE_COMPLETE := True\<rparr>))))
          else
            io_bind (read_words E 0 256) (\<lambda>_.
            io_bind (io_gets PENDING_LBA) (\<lambda>lba.
            io_bind (log_msg (ReadDone lba)) (\<lambda>_.
            io_modify (\<lambda>s. s\<lparr>OPERATION_COMPLETE := True\<rparr>))))) (\<lambda>_.
       wake_disk E))
     else io_ret ())"

section \<open>Awaiting the disk\<close>

text \<open>
  What happens around a task that awaits the disk: the executor polls its future; on \<open>Pending\<close> the
  machine halts until the drive requests an interrupt (\<open>irq\<close> says whether it does), the handler
  runs, and the task is polled again once its waker has been called. If the drive requests no
  interrupt any more the task is never polled again. \<open>n\<close> bounds the number of interrupts.
\<close>

fun wait_wake ::
  "('p, 'q, 'k, 'w) ata_env \<Rightarrow> ('p \<Rightarrow> bool) \<Rightarrow> 'w \<Rightarrow> nat \<Rightarrow> ('p, 'q, 'k, 'w, unit) ata_io" where
  "wait_wake E irq w 0 s = (Hang, s)"
| "wait_wake E irq w (Suc n) s =
     (if \<not> irq (ports s) then (Hang, s)
      else io_bind (on_primary_ata_interrupt E) (\<lambda>_ s.
        if w \<in> set (woken s) then (Ret (), s\<lparr>woken := []\<rparr>) else wait_wake E irq w n s) s)"

fun await_disk ::
  "('p, 'q, 'k, 'w) ata_env \<Rightarrow> ('p \<Rightarrow> bool) \<Rightarrow> 'w \<Rightarrow> ('p, 'q, 'k, 'w, 'a poll) ata_io \<Rightarrow> nat \<Rightarrow>
   ('p, 'q, 'k, 'w, 'a) ata_io" where
  "await_disk E irq w p 0 s = (Hang, s)"
| "await_disk E irq w p (Suc n) s =
     io_bind p (\<lambda>r. case r of
         Ready x \<Rightarrow> io_ret x
       | Pending \<Rightarrow> io_bind (wait_wake E irq w n) (\<lambda>_. await_disk E irq w p n)) s"

definition read_sector_async ::
  "('p, 'q, 'k, 'w) ata_env \<Rightarrow> ('p \<Rightarrow> bool) \<Rightarrow> 'w \<Rightarrow> nat \<Rightarrow> u32 \<Rightarrow> ('p, 'q, 'k, 'w, u8 list) ata_io" where
  "read_sector_async E irq w n lba =
     io_bind (start_read E lba) (\<lambda>_.
     io_bind (await_disk E irq w (SectorRead_poll E (io_ret ()) (io_ret ()) lba w) n) (\<lambda>result.
     io_bind (log_msg (ReadResult (result ! 0) (result ! 1) (result ! 2) (result ! 3))) (\<lambda>_.
     io_ret result)))"

definition write_sector_async ::
  "('p, 'q, 'k, 'w) ata_env \<Rightarrow> ('p \<Rightarrow> bool) \<Rightarrow> 'w \<Rightarrow> nat \<Rightarrow> u32 \<Rightarrow> u8 list \<Rightarrow>
   ('p, 'q, 'k, 'w, (unit, string) result) ata_io" where
  "write_sector_async E irq w n lba data =
     io_bind (start_write E lba data) (\<lambda>_.
     await_disk E irq w (SectorWrite_poll E (io_ret ()) (io_ret ()) lba w) n)"

section \<open>Sequences of port accesses\<close>

text \<open>What the register writes of a command and the two data loops do to the drive.\<close>

definition issue_ports :: "'p port_ops \<Rightarrow> u8 \<Rightarrow> u32 \<Rightarrow> 'p \<Rightarrow> 'p" where
  "issue_ports P cmd lba =
     port_write8 P STATUS_COMMAND_PORT cmd \<circ>
     port_write8 P DEVICE_PORT (DEVICE_SLAVE OR 0x40 OR lba_upper lba) \<circ>
     port_write8 P LBA_HIGH_PORT (lba_high lba) \<circ>
     port_write8 P LBA_MID_PORT (lba_mid lba) \<circ>
     port_write8 P LBA_LOW_PORT (lba_low lba) \<circ>
     port_write8 P SECTOR_COUNT_PORT 1"

fun drain :: "'p port_ops \<Rightarrow> nat \<Rightarrow> 'p \<Rightarrow> u16 list \<times> 'p" where
  "drain P 0 p = ([], p)"
| "drain P (Suc n) p = (case port_read16 P DATA_PORT p of (v, p') \<Rightarrow>
     case drain P n p' of (vs, p'') \<Rightarrow> (v # vs, p''))"

definition feed :: "'p port_ops \<Rightarrow> u16 list \<Rightarrow> 'p \<Rightarrow> 'p" where
  "feed P ws p = fold (port_write16 P DATA_PORT) ws p"

text \<open>A sector as the words that cross the data port.\<close>

definition sector_words :: "u8 list \<Rightarrow> u16 list" where
  "sector_words bs = map (\<lambda>i. u16_from_le_bytes (bs ! (2 * i)) (bs ! (2 * i + 1))) [0..<256]"

fun words_bytes :: "u16 list \<Rightarrow> u8 list" where
  "words_bytes [] = []"
| "words_bytes (v # vs) = ucast v # ucast (drop_bit 8 v) # words_bytes vs"

lemma length_words_bytes [simp]: "length (words_bytes ws) = 2 * length ws"
  by (induction ws) simp_all

lemma nth_words_bytes:
  "i < length ws \<Longrightarrow> words_bytes ws ! (2 * i) = ucast (ws ! i) \<and>
    words_bytes ws ! Suc (2 * i) = ucast (drop_bit 8 (ws ! i))"
proof (induction ws arbitrary: i)
  case Nil
  then show ?case by simp
next
  case (Cons w ws)
  then show ?case by (cases i) auto
qed

lemma ucast_le_bytes:
  "(ucast (u16_from_le_bytes b0 b1) :: u8) = b0" "(ucast (drop_bit 8 (u16_from_le_bytes b0 b1)) :: u8) = b1"
  unfolding u16_from_le_bytes_def by (rule bit_word_eqI; auto simp: bit_simps dest: bit_imp_le_length)+

lemma words_bytes_sector_words:
  assumes "length bs = 512"
  shows "words_bytes (sector_words bs) = bs"
proof (rule nth_equalityI)
  show "length (words_bytes (sector_words bs)) = length bs" using assms by (simp add: sector_words_def)
  fix i assume i: "i < length (words_bytes (sector_words bs))"
  then have j: "i div 2 < length (sector_words bs)" "i div 2 < 256" by (auto simp: sector_words_def)
  have "i = 2 * (i div 2) \<or> i = Suc (2 * (i div 2))" by presburger
  then show "words_bytes (sector_words bs) ! i = bs ! i"
    using nth_words_bytes [OF j(1)] j(2) by (auto simp: sector_words_def ucast_le_bytes)
qed

lemma length_drain [simp]: "length (fst (drain P n p)) = n"
  by (induction n arbitrary: p) (auto split: prod.splits simp: prod.case_eq_if)

section \<open>The data loops and the handler\<close>

lemma read_words_eq:
  assumes "2 * (i + n) \<le> length (SECTOR_BUFFER s)"
  shows "read_words E i n s = (Ret (), s\<lparr>
    SECTOR_BUFFER := copy_slice (SECTOR_BUFFER s) (2 * i) (words_bytes (fst (drain (env_ports E) n (ports s)))),
    ports := snd (drain (env_ports E) n (ports s))\<rparr>)"
  using assms
proof (induction n arbitrary: i s)
  case 0
  then show ?case by (simp add: copy_slice_def)
next
  case (Suc n)
  obtain v p where v: "port_read16 (env_ports E) DATA_PORT (ports s) = (v, p)" by fastforce
  obtain vs p' where vs: "drain (env_ports E) n p = (vs, p')" by fastforce
  have len: "length vs = n" using length_drain [of "env_ports E" n p] vs by simp
  let ?b = "(SECTOR_BUFFER s)[i * 2 := ucast (v AND 0xFF), i * 2 + 1 := ucast (drop_bit 8 v)]"
  have b: "(ucast (v AND 0xFF) :: u8) = ucast v" by (rule bit_word_eqI) (auto simp: bit_simps)
  have "copy_slice ?b (2 * Suc i) (words_bytes vs) =
      copy_slice (SECTOR_BUFFER s) (2 * i) (ucast v # ucast (drop_bit 8 v) # words_bytes vs)"
    using Suc.prems len b
    by (intro nth_equalityI) (auto simp: nth_copy_slice nth_list_update nth_Cons' mult.commute)
  then show ?case
    using Suc.prems v vs by (simp add: in16_def io_bind_def Suc.IH)
qed

lemma write_words_eq:
  "write_words E i n s = (Ret (), s\<lparr>ports := feed (env_ports E)
     (map (\<lambda>j. u16_from_le_bytes (SECTOR_WRITE_BUFFER s ! (2 * j)) (SECTOR_WRITE_BUFFER s ! (2 * j + 1))) [i..<i + n])
     (ports s)\<rparr>)"
proof (induction n arbitrary: i s)
  case 0
  then show ?case by (simp add: feed_def)
next
  case (Suc n)
  have "[i..<i + Suc n] = i # [Suc i..<Suc i + n]" by (simp add: upt_rec)
  then show ?case
    by (simp add: Suc.IH out16_def Let_def feed_def u16_from_le_bytes_def mult.commute)
qed

lemma write_words_256:
  "write_words E 0 256 s = (Ret (), s\<lparr>ports := feed (env_ports E) (sector_words (SECTOR_WRITE_BUFFER s)) (ports s)\<rparr>)"
  by (simp add: write_words_eq sector_words_def)

text \<open>What \<open>read_sector_async\<close> prints before its \<open>await\<close>, given the status it read.\<close>

definition request_lines :: "u32 \<Rightarrow> u8 \<Rightarrow> ata_message list" where
  "request_lines lba status =
     [ReadRequested lba, StatusBeforeRead status, SettingRead (lba_low lba) (lba_mid lba) (lba_high lba) (lba_upper lba),
      DeviceRegister (DEVICE_SLAVE OR 0x40 OR lba_upper lba), IssuingRead]"

lemma start_read_lines:
  "start_read E lba s = (Ret (), s\<lparr>PENDING_LBA := lba, OPERATION_COMPLETE := False,
     console := console s @ request_lines lba (fst (port_read8 (env_ports E) STATUS_COMMAND_PORT (ports s))),
     ports := issue_ports (env_ports E) CMD_READ_SECTORS lba
       (snd (port_read8 (env_ports E) STATUS_COMMAND_PORT (ports s)))\<rparr>)"
  by (cases "port_read8 (env_ports E) STATUS_COMMAND_PORT (ports s)")
    (simp add: start_read_def log_msg_def in8_def out8_def issue_ports_def io_bind_def Let_def request_lines_def)

lemma start_read_eq:
  "\<exists>c. start_read E lba s = (Ret (), s\<lparr>PENDING_LBA := lba, OPERATION_COMPLETE := False, console := c,
     ports := issue_ports (env_ports E) CMD_READ_SECTORS lba
       (snd (port_read8 (env_ports E) STATUS_COMMAND_PORT (ports s)))\<rparr>)"
  using start_read_lines [of E lba s] by blast

lemma start_write_eq:
  "length data = 512 \<Longrightarrow> \<exists>c. start_write E lba data s = (Ret (), s\<lparr>SECTOR_WRITE_BUFFER := data,
     PENDING_LBA := lba, WRITE_COMPLETE := False, console := c,
     ports := issue_ports (env_ports E) CMD_WRITE_SECTORS lba (ports s)\<rparr>)"
  by (simp add: start_write_def log_msg_def out8_def issue_ports_def SECTOR_SIZE_def, rule exI, rule refl)

text \<open>The registers after the reset and the selection of the master, and what \<open>init\<close> prints of the status it then reads.\<close>

definition reset_ports :: "'p port_ops \<Rightarrow> 'p \<Rightarrow> 'p" where
  "reset_ports P p = port_write8 P DEVICE_PORT DEVICE_MASTER (port_write8 P ALT_STATUS_CONTROL_PORT 0x00 (port_write8 P ALT_STATUS_CONTROL_PORT 0x04 p))"

definition init_lines :: "u8 \<Rightarrow> ata_message list" where
  "init_lines status = [if status \<noteq> 0xFF then MasterDetected status else NoMaster, AtaInitialized]"

lemma ata_init_lines:
  assumes "DISK_REQUEST_QUEUE a = None" and "DISK_WAKER a = None"
  shows "ata_init E AtaDriver_new a = (Ret \<lparr>initialized = True\<rparr>,
    a\<lparr>DISK_REQUEST_QUEUE := Some (aq_new (env_queue E) 32), DISK_WAKER := Some (aw_new (env_waker E)),
      console := console a @ init_lines (fst (port_read8 (env_ports E) STATUS_COMMAND_PORT (reset_ports (env_ports E) (ports a)))),
      ports := snd (port_read8 (env_ports E) STATUS_COMMAND_PORT (reset_ports (env_ports E) (ports a)))\<rparr>)"
  using assms
  by (cases "port_read8 (env_ports E) STATUS_COMMAND_PORT (reset_ports (env_ports E) (ports a))")
    (simp add: ata_init_def AtaDriver_new_def soft_reset_def detect_drives_def log_msg_def in8_def out8_def reset_ports_def init_lines_def io_bind_def)

text \<open>The drive's answer to the status read at the start of the handler: no error and data to move.\<close>

definition data_ready :: "'p port_ops \<Rightarrow> 'p \<Rightarrow> 'p \<Rightarrow> bool" where
  "data_ready P p p' \<longleftrightarrow>
     (\<exists>st. port_read8 P STATUS_COMMAND_PORT p = (st, p') \<and> st AND STATUS_ERR = 0 \<and> st AND STATUS_DRQ \<noteq> 0)"

lemma interrupt_reads:
  assumes "data_ready (env_ports E) (ports s) p" and "\<not> OPERATION_COMPLETE s \<or> WRITE_COMPLETE s"
    and "length (SECTOR_BUFFER s) = 512" and "drain (env_ports E) 256 p = (ws, p')"
  shows "on_primary_ata_interrupt E s = wake_disk E (s\<lparr>SECTOR_BUFFER := words_bytes ws, ports := p',
    console := console s @ [ReadDone (PENDING_LBA s)], OPERATION_COMPLETE := True\<rparr>)"
proof -
  have "length ws = 256" using length_drain [of "env_ports E" 256 p] assms(4) by simp
  then have "copy_slice (SECTOR_BUFFER s) 0 (words_bytes ws) = words_bytes ws"
    using assms(3) by (simp add: copy_slice_def)
  moreover from assms(1) obtain st where "port_read8 (env_ports E) STATUS_COMMAND_PORT (ports s) = (st, p)"
    "st AND STATUS_ERR = 0" "st AND STATUS_DRQ \<noteq> 0" by (auto simp: data_ready_def)
  moreover have "\<not> (WRITE_COMPLETE s = False \<and> OPERATION_COMPLETE s = True)" using assms(2) by auto
  ultimately show ?thesis
    using assms(3,4) by (simp add: on_primary_ata_interrupt_def in8_def io_bind_def log_msg_def read_words_eq
        del: de_Morgan_conj)
qed

lemma interrupt_writes:
  assumes "data_ready (env_ports E) (ports s) p" and "OPERATION_COMPLETE s" and "\<not> WRITE_COMPLETE s"
  shows "on_primary_ata_interrupt E s = wake_disk E (s\<lparr>
    ports := feed (env_ports E) (sector_words (SECTOR_WRITE_BUFFER s)) p,
    console := console s @ [WriteDone (PENDING_LBA s)], WRITE_COMPLETE := True\<rparr>)"
proof -
  from assms(1) obtain st where "port_read8 (env_ports E) STATUS_COMMAND_PORT (ports s) = (st, p)"
    "st AND STATUS_ERR = 0" "st AND STATUS_DRQ \<noteq> 0" by (auto simp: data_ready_def)
  then show ?thesis
    using assms(2,3) by (simp add: on_primary_ata_interrupt_def in8_def io_bind_def log_msg_def write_words_256)
qed

context waker_spec
begin

lemma wake_disk_registered:
  assumes "env_waker E = A" and "DISK_WAKER s = Some k" and "registered k = Some w"
  obtains k' where "wake_disk E s = (Ret (), s\<lparr>DISK_WAKER := Some k', woken := woken s @ [w]\<rparr>)"
  using assms wake_registered [OF assms(3)] by (auto simp: wake_disk_def)

text \<open>\<open>poll\<close> before its operation is complete registers the waker.\<close>

lemma poll_pending:
  assumes "env_waker E = A" and "DISK_WAKER s = Some k"
  obtains k' where "registered k' = Some w"
    and "\<not> read_is_complete lba s \<Longrightarrow>
      SectorRead_poll E (io_ret ()) (io_ret ()) lba w s = (Ret Pending, s\<lparr>DISK_WAKER := Some k'\<rparr>)"
    and "\<not> write_is_complete lba s \<Longrightarrow>
      SectorWrite_poll E (io_ret ()) (io_ret ()) lba w s = (Ret Pending, s\<lparr>DISK_WAKER := Some k'\<rparr>)"
proof
  show "registered (aw_register A w k) = Some w" by (rule register_law)
qed (use assms in \<open>simp_all add: SectorRead_poll_def SectorWrite_poll_def register_waker_def\<close>)

end

lemma poll_ready:
  "read_is_complete lba s \<Longrightarrow>
     SectorRead_poll E i1 i2 lba w s = (Ret (Ready (SECTOR_BUFFER s)), s\<lparr>OPERATION_COMPLETE := False\<rparr>)"
  "write_is_complete lba s \<Longrightarrow>
     SectorWrite_poll E i1 i2 lba w s = (Ret (Ready (Ok ())), s\<lparr>WRITE_COMPLETE := False\<rparr>)"
  by (simp_all add: SectorRead_poll_def take_read_def SectorWrite_poll_def take_write_def)

section \<open>The contract of the drive\<close>

text \<open>
  What the ATA specification promises of the selected drive: while it is \<open>ready\<close>, reading the status
  register changes nothing, and a READ SECTORS command is answered by an interrupt after which the
  256 words of the addressed sector can be read from the data port. Only 28 bits of the address
  reach the drive. \<open>image\<close> is the content of the disk.
\<close>

locale ata_device =
  fixes P :: "'p port_ops" and irq :: "'p \<Rightarrow> bool" and ready :: "'p \<Rightarrow> bool"
    and image :: "'p \<Rightarrow> u32 \<Rightarrow> u8 list"
  assumes sector_law: "ready p \<Longrightarrow> length (image p l) = 512"
    and status_law: "ready p \<Longrightarrow> ready (snd (port_read8 P STATUS_COMMAND_PORT p)) \<and>
      image (snd (port_read8 P STATUS_COMMAND_PORT p)) = image p"
    and read_law: "ready p \<Longrightarrow> irq (issue_ports P CMD_READ_SECTORS lba p) \<and>
      (\<exists>p1 p2. data_ready P (issue_ports P CMD_READ_SECTORS lba p) p1 \<and>
         drain P 256 p1 = (sector_words (image p (take_bit 28 lba)), p2) \<and> ready p2 \<and> image p2 = image p)"

text \<open>
  A drive that, beyond the ATA specification, also requests an interrupt before the first sector of
  a write, and keeps requesting it, ignoring reads of the data port, until it has got the data.
\<close>

locale level_device = ata_device +
  assumes write_law: "ready p \<Longrightarrow> length bs = 512 \<Longrightarrow>
      irq (issue_ports P CMD_WRITE_SECTORS lba p) \<and>
      (\<exists>p1 p2. data_ready P (issue_ports P CMD_WRITE_SECTORS lba p) p1 \<and>
         ready (feed P (sector_words bs) p1) \<and>
         image (feed P (sector_words bs) p1) = (image p)(take_bit 28 lba := bs) \<and>
         irq (snd (drain P 256 p1)) \<and> data_ready P (snd (drain P 256 p1)) p2 \<and>
         ready (feed P (sector_words bs) p2) \<and>
         image (feed P (sector_words bs) p2) = (image p)(take_bit 28 lba := bs))"

text \<open>The driver between two operations.\<close>

definition ata_idle :: "('p \<Rightarrow> bool) \<Rightarrow> ('p, 'q, 'k, 'w) ata_state \<Rightarrow> bool" where
  "ata_idle ready s \<longleftrightarrow> DISK_WAKER s \<noteq> None \<and> woken s = [] \<and> length (SECTOR_BUFFER s) = 512 \<and> ready (ports s)"

locale ata_disk = ata_device "env_ports E" irq ready image + waker_spec "env_waker E" registered
  for E :: "('p, 'q, 'k, 'w) ata_env" and irq :: "'p \<Rightarrow> bool" and ready :: "'p \<Rightarrow> bool"
    and image :: "'p \<Rightarrow> u32 \<Rightarrow> u8 list" and registered :: "'k \<Rightarrow> 'w option"
begin

text \<open>One interrupt of a read in progress, and the poll after it.\<close>

lemma wait_wake_read:
  assumes "irq (ports s)" and "data_ready (env_ports E) (ports s) p1" and "drain (env_ports E) 256 p1 = (ws, p2)"
    and "\<not> OPERATION_COMPLETE s" and "length (SECTOR_BUFFER s) = 512" and "woken s = []"
    and "DISK_WAKER s = Some k" and "registered k = Some w"
  obtains k' c where "wait_wake E irq w (Suc n) s = (Ret (), s\<lparr>SECTOR_BUFFER := words_bytes ws, ports := p2,
    console := c, OPERATION_COMPLETE := True, DISK_WAKER := Some k'\<rparr>)"
proof -
  let ?s = "s\<lparr>SECTOR_BUFFER := words_bytes ws, ports := p2,
    console := console s @ [ReadDone (PENDING_LBA s)], OPERATION_COMPLETE := True\<rparr>"
  obtain k' where "wake_disk E ?s = (Ret (), ?s\<lparr>DISK_WAKER := Some k', woken := woken ?s @ [w]\<rparr>)"
    by (rule wake_disk_registered [of E ?s k w]) (use assms in simp_all)
  moreover have "on_primary_ata_interrupt E s = wake_disk E ?s"
    by (rule interrupt_reads) (use assms in simp_all)
  ultimately have "wait_wake E irq w (Suc n) s = (Ret (), ?s\<lparr>DISK_WAKER := Some k'\<rparr>)"
    using assms by (simp add: io_bind_def)
  then show ?thesis by (rule that)
qed

lemma read_sector_async_ok:
  assumes "ata_idle ready s" and "2 \<le> n"
  shows "\<exists>s'. read_sector_async E irq w n lba s = (Ret (image (ports s) (take_bit 28 lba)), s') \<and>
    ata_idle ready s' \<and> image (ports s') = image (ports s)"
proof -
  let ?p = "snd (port_read8 (env_ports E) STATUS_COMMAND_PORT (ports s))"
  let ?d = "image (ports s) (take_bit 28 lba)"
  from assms(1) have p: "ready ?p" "image ?p = image (ports s)" "length ?d = 512"
    using status_law sector_law by (auto simp: ata_idle_def)
  obtain c where c: "start_read E lba s = (Ret (), s\<lparr>PENDING_LBA := lba, OPERATION_COMPLETE := False, console := c,
      ports := issue_ports (env_ports E) CMD_READ_SECTORS lba ?p\<rparr>)" (is "_ = (_, ?s1)")
    using start_read_eq [of E lba s] by blast
  from assms(1) obtain k where k: "DISK_WAKER ?s1 = Some k" by (auto simp: ata_idle_def)
  obtain k1 where k1: "registered k1 = Some w"
    "SectorRead_poll E (io_ret ()) (io_ret ()) lba w ?s1 = (Ret Pending, ?s1\<lparr>DISK_WAKER := Some k1\<rparr>)" (is "_ = (_, ?s2)")
    by (rule poll_pending [OF refl k, of w lba]) (simp add: read_is_complete_def)
  from read_law [OF p(1), of lba] p(2) obtain p1 p2 where l: "irq (ports ?s2)" "data_ready (env_ports E) (ports ?s2) p1"
    "drain (env_ports E) 256 p1 = (sector_words ?d, p2)" "ready p2" "image p2 = image (ports s)"
    by auto
  obtain m where n: "n = Suc (Suc m)" using assms(2) by (cases n; cases "n - 1") auto
  obtain k2 c2 where w: "wait_wake E irq w (Suc m) ?s2 = (Ret (), ?s2\<lparr>SECTOR_BUFFER := words_bytes (sector_words ?d),
      ports := p2, console := c2, OPERATION_COMPLETE := True, DISK_WAKER := Some k2\<rparr>)" (is "_ = (_, ?s3)")
    by (rule wait_wake_read [OF l(1-3) _ _ _ _ k1(1), of m]) (use assms in \<open>auto simp: ata_idle_def\<close>)
  have r: "SectorRead_poll E (io_ret ()) (io_ret ()) lba w ?s3 =
      (Ret (Ready ?d), ?s3\<lparr>OPERATION_COMPLETE := False\<rparr>)"
    using poll_ready(1) [of lba ?s3] p(3) by (simp add: read_is_complete_def words_bytes_sector_words)
  have "await_disk E irq w (SectorRead_poll E (io_ret ()) (io_ret ()) lba w) n ?s1 =
      (Ret ?d, ?s3\<lparr>OPERATION_COMPLETE := False\<rparr>)"
    by (simp only: n await_disk.simps io_bind_def k1(2) w r prod.case outcome.case poll.case io_apply)
  then show ?thesis
    using c l assms(1) p(3) by (simp add: read_sector_async_def io_bind_def log_msg_def ata_idle_def
        words_bytes_sector_words)
qed

end

locale level_disk = ata_disk E irq ready image registered + level_device "env_ports E" irq ready image
  for E :: "('p, 'q, 'k, 'w) ata_env" and irq :: "'p \<Rightarrow> bool" and ready :: "'p \<Rightarrow> bool"
    and image :: "'p \<Rightarrow> u32 \<Rightarrow> u8 list" and registered :: "'k \<Rightarrow> 'w option"
begin

text \<open>The last interrupt of a write: the handler sends the sector, and the next poll is ready.\<close>

lemma await_write_last:
  assumes "irq (ports s)" and "data_ready (env_ports E) (ports s) p1" and "OPERATION_COMPLETE s"
    and "\<not> WRITE_COMPLETE s" and "PENDING_LBA s = lba" and "woken s = []" and "DISK_WAKER s \<noteq> None"
  obtains k c where "await_disk E irq w (SectorWrite_poll E (io_ret ()) (io_ret ()) lba w) (Suc (Suc n)) s =
    (Ret (Ok ()), s\<lparr>ports := feed (env_ports E) (sector_words (SECTOR_WRITE_BUFFER s)) p1, console := c,
       DISK_WAKER := Some k, WRITE_COMPLETE := False\<rparr>)"
proof -
  obtain k where k: "DISK_WAKER s = Some k" using assms(7) by auto
  obtain k1 where k1: "registered k1 = Some w"
    "SectorWrite_poll E (io_ret ()) (io_ret ()) lba w s = (Ret Pending, s\<lparr>DISK_WAKER := Some k1\<rparr>)" (is "_ = (_, ?s1)")
    by (rule poll_pending [OF refl k, of w lba]) (use assms(4) in \<open>simp add: write_is_complete_def\<close>)
  let ?s2 = "?s1\<lparr>ports := feed (env_ports E) (sector_words (SECTOR_WRITE_BUFFER ?s1)) p1,
    console := console ?s1 @ [WriteDone (PENDING_LBA ?s1)], WRITE_COMPLETE := True\<rparr>"
  obtain k2 where k2: "wake_disk E ?s2 = (Ret (), ?s2\<lparr>DISK_WAKER := Some k2, woken := woken ?s2 @ [w]\<rparr>)"
    by (rule wake_disk_registered [of E ?s2 k1 w]) (use k1 in simp_all)
  have "on_primary_ata_interrupt E ?s1 = wake_disk E ?s2"
    by (rule interrupt_writes) (use assms in simp_all)
  then have w: "wait_wake E irq w (Suc n) ?s1 = (Ret (), ?s2\<lparr>DISK_WAKER := Some k2\<rparr>)"
    using k2 assms by (simp add: io_bind_def)
  have r: "SectorWrite_poll E (io_ret ()) (io_ret ()) lba w (?s2\<lparr>DISK_WAKER := Some k2\<rparr>) =
      (Ret (Ready (Ok ())), (?s2\<lparr>DISK_WAKER := Some k2\<rparr>)\<lparr>WRITE_COMPLETE := False\<rparr>)"
    by (rule poll_ready(2)) (use assms in \<open>simp add: write_is_complete_def\<close>)
  have "await_disk E irq w (SectorWrite_poll E (io_ret ()) (io_ret ()) lba w) (Suc (Suc n)) s =
      (Ret (Ok ()), (?s2\<lparr>DISK_WAKER := Some k2\<rparr>)\<lparr>WRITE_COMPLETE := False\<rparr>)"
    by (simp only: await_disk.simps io_bind_def k1(2) w r prod.case outcome.case poll.case io_apply)
  then show ?thesis by (intro that) simp
qed

text \<open>The interrupt before: the handler takes the write for a read, and the next poll is still pending.\<close>

lemma await_write_first:
  assumes "irq (ports s)" and "data_ready (env_ports E) (ports s) p1" and "\<not> OPERATION_COMPLETE s"
    and "\<not> WRITE_COMPLETE s" and "PENDING_LBA s = lba" and "woken s = []" and "DISK_WAKER s \<noteq> None"
    and "length (SECTOR_BUFFER s) = 512"
    and "irq (snd (drain (env_ports E) 256 p1))" and "data_ready (env_ports E) (snd (drain (env_ports E) 256 p1)) p2"
  obtains k c b where "await_disk E irq w (SectorWrite_poll E (io_ret ()) (io_ret ()) lba w) (Suc (Suc (Suc n))) s =
      (Ret (Ok ()), s\<lparr>SECTOR_BUFFER := b, OPERATION_COMPLETE := True,
         ports := feed (env_ports E) (sector_words (SECTOR_WRITE_BUFFER s)) p2, console := c,
         DISK_WAKER := Some k, WRITE_COMPLETE := False\<rparr>)"
    and "length b = 512"
proof -
  let ?poll = "SectorWrite_poll E (io_ret ()) (io_ret ()) lba w"
  obtain k where k: "DISK_WAKER s = Some k" using assms(7) by auto
  obtain k1 where k1: "registered k1 = Some w" "?poll s = (Ret Pending, s\<lparr>DISK_WAKER := Some k1\<rparr>)" (is "_ = (_, ?s1)")
    by (rule poll_pending [OF refl k, of w lba]) (use assms(4) in \<open>simp add: write_is_complete_def\<close>)
  obtain ws p3 where d: "drain (env_ports E) 256 p1 = (ws, p3)" by fastforce
  have len: "length (words_bytes ws) = 512" using d length_drain [of "env_ports E" 256 p1] by simp
  have "irq (ports ?s1)" "data_ready (env_ports E) (ports ?s1) p1" using assms by simp_all
  then obtain k2 c2 where w: "wait_wake E irq w (Suc (Suc n)) ?s1 = (Ret (), ?s1\<lparr>SECTOR_BUFFER := words_bytes ws,
      ports := p3, console := c2, OPERATION_COMPLETE := True, DISK_WAKER := Some k2\<rparr>)" (is "_ = (_, ?s2)")
    by (rule wait_wake_read [OF _ _ d _ _ _ _ k1(1)]) (use assms in simp_all)
  have "irq (ports ?s2)" "data_ready (env_ports E) (ports ?s2) p2" using assms(9,10) d by simp_all
  then obtain k3 c3 where "await_disk E irq w ?poll (Suc (Suc n)) ?s2 = (Ret (Ok ()), ?s2\<lparr>ports :=
      feed (env_ports E) (sector_words (SECTOR_WRITE_BUFFER ?s2)) p2, console := c3,
      DISK_WAKER := Some k3, WRITE_COMPLETE := False\<rparr>)"
    by (rule await_write_last) (use assms in simp_all)
  then have "await_disk E irq w ?poll (Suc (Suc (Suc n))) s = (Ret (Ok ()), ?s2\<lparr>ports :=
      feed (env_ports E) (sector_words (SECTOR_WRITE_BUFFER ?s2)) p2, console := c3,
      DISK_WAKER := Some k3, WRITE_COMPLETE := False\<rparr>)"
    by (simp only: await_disk.simps(2) [of _ _ _ _ "Suc (Suc n)"] io_bind_def k1(2) w prod.case outcome.case poll.case)
  then show ?thesis by (intro that [OF _ len]) simp
qed

lemma write_sector_async_ok:
  assumes "ata_idle ready s" and "length data = 512" and "3 \<le> n"
  shows "\<exists>s'. write_sector_async E irq w n lba data s = (Ret (Ok ()), s') \<and>
    ata_idle ready s' \<and> image (ports s') = (image (ports s))(take_bit 28 lba := data)"
proof -
  let ?poll = "SectorWrite_poll E (io_ret ()) (io_ret ()) lba w"
  obtain c where c: "start_write E lba data s = (Ret (), s\<lparr>SECTOR_WRITE_BUFFER := data, PENDING_LBA := lba,
      WRITE_COMPLETE := False, console := c, ports := issue_ports (env_ports E) CMD_WRITE_SECTORS lba (ports s)\<rparr>)"
      (is "_ = (_, ?s1)") using start_write_eq [OF assms(2), of E lba s] by blast
  have "ready (ports s)" using assms(1) by (simp add: ata_idle_def)
  from write_law [OF this assms(2), of lba] obtain p1 p2 where
    l: "irq (ports ?s1)" "data_ready (env_ports E) (ports ?s1) p1"
      "ready (feed (env_ports E) (sector_words data) p1)"
      "image (feed (env_ports E) (sector_words data) p1) = (image (ports s))(take_bit 28 lba := data)"
      "irq (snd (drain (env_ports E) 256 p1))" "data_ready (env_ports E) (snd (drain (env_ports E) 256 p1)) p2"
      "ready (feed (env_ports E) (sector_words data) p2)"
      "image (feed (env_ports E) (sector_words data) p2) = (image (ports s))(take_bit 28 lba := data)"
    by auto
  obtain m where n: "n = Suc (Suc (Suc m))" using le_Suc_ex [OF assms(3)] by (auto simp: numeral_3_eq_3)
  show ?thesis
  proof (cases "OPERATION_COMPLETE s")
    case True
    obtain k c' where "await_disk E irq w ?poll n ?s1 = (Ret (Ok ()), ?s1\<lparr>ports :=
        feed (env_ports E) (sector_words (SECTOR_WRITE_BUFFER ?s1)) p1, console := c',
        DISK_WAKER := Some k, WRITE_COMPLETE := False\<rparr>)"
      unfolding n by (rule await_write_last [OF l(1,2)]) (use True assms(1) in \<open>auto simp: ata_idle_def\<close>)
    then show ?thesis using c l assms(1) by (simp add: write_sector_async_def io_bind_def ata_idle_def)
  next
    case False
    obtain k c' b where "await_disk E irq w ?poll n ?s1 = (Ret (Ok ()), ?s1\<lparr>SECTOR_BUFFER := b,
        OPERATION_COMPLETE := True, ports := feed (env_ports E) (sector_words (SECTOR_WRITE_BUFFER ?s1)) p2,
        console := c', DISK_WAKER := Some k, WRITE_COMPLETE := False\<rparr>)" "length b = 512"
      unfolding n by (rule await_write_first [OF l(1,2) _ _ _ _ _ _ l(5,6)])
        (use False assms(1) in \<open>auto simp: ata_idle_def\<close>)
    then show ?thesis using c l(7,8) assms(1) by (simp add: write_sector_async_def io_bind_def ata_idle_def)
  qed
qed

end

section \<open>A drive that meets the contract\<close>

text \<open>
  A slave drive with the task-file registers, as the ATA specification describes PIO transfers.
  With \<open>level\<close> it also requests an interrupt while it waits for the data of a write.
\<close>

datatype ctl_mode = Idle | Data_in "u16 list" | Data_out u32 "u16 list"

record disk_ctl =
  c_image :: "u32 \<Rightarrow> u8 list"
  c_low :: u8
  c_mid :: u8
  c_high :: u8
  c_device :: u8
  c_mode :: ctl_mode

definition ctl_lba :: "disk_ctl \<Rightarrow> u32" where
  "ctl_lba c = u32_from_le_bytes (c_low c) (c_mid c) (c_high c) (c_device c AND 0x0F)"

definition ctl_command :: "u8 \<Rightarrow> disk_ctl \<Rightarrow> disk_ctl" where
  "ctl_command cmd c =
     (if \<not> bit (c_device c) 4 then c
      else if cmd = CMD_READ_SECTORS then c\<lparr>c_mode := Data_in (sector_words (c_image c (ctl_lba c)))\<rparr>
      else if cmd = CMD_WRITE_SECTORS then c\<lparr>c_mode := Data_out (ctl_lba c) []\<rparr>
      else c)"

definition ctl_write8 :: "u16 \<Rightarrow> u8 \<Rightarrow> disk_ctl \<Rightarrow> disk_ctl" where
  "ctl_write8 port v c =
     (if port = LBA_LOW_PORT then c\<lparr>c_low := v\<rparr>
      else if port = LBA_MID_PORT then c\<lparr>c_mid := v\<rparr>
      else if port = LBA_HIGH_PORT then c\<lparr>c_high := v\<rparr>
      else if port = DEVICE_PORT then c\<lparr>c_device := v\<rparr>
      else if port = STATUS_COMMAND_PORT then ctl_command v c
      else if port = ALT_STATUS_CONTROL_PORT \<and> bit v 2 then c\<lparr>c_mode := Idle\<rparr>
      else c)"

definition ctl_read8 :: "u16 \<Rightarrow> disk_ctl \<Rightarrow> u8 \<times> disk_ctl" where
  "ctl_read8 port c =
     (if port = STATUS_COMMAND_PORT then (if c_mode c = Idle then 0x40 else 0x48, c) else (0, c))"

definition ctl_read16 :: "u16 \<Rightarrow> disk_ctl \<Rightarrow> u16 \<times> disk_ctl" where
  "ctl_read16 port c =
     (case c_mode c of
        Data_in (v # vs) \<Rightarrow> (v, c\<lparr>c_mode := (if vs = [] then Idle else Data_in vs)\<rparr>)
      | _ \<Rightarrow> (0xFFFF, c))"

definition ctl_write16 :: "u16 \<Rightarrow> u16 \<Rightarrow> disk_ctl \<Rightarrow> disk_ctl" where
  "ctl_write16 port v c =
     (case c_mode c of
        Data_out lba vs \<Rightarrow>
          if length vs = 255
          then c\<lparr>c_image := (c_image c)(lba := words_bytes (vs @ [v])), c_mode := Idle\<rparr>
          else c\<lparr>c_mode := Data_out lba (vs @ [v])\<rparr>
      | _ \<Rightarrow> c)"

definition ctl_ports :: "disk_ctl port_ops" where
  "ctl_ports = \<lparr>port_read8 = ctl_read8, port_write8 = ctl_write8, port_read16 = ctl_read16, port_write16 = ctl_write16,
     port_write32 = (\<lambda>port v c. c)\<rparr>"

definition ctl_irq :: "bool \<Rightarrow> disk_ctl \<Rightarrow> bool" where
  "ctl_irq level c = (case c_mode c of Idle \<Rightarrow> False | Data_in _ \<Rightarrow> True | Data_out _ _ \<Rightarrow> level)"

definition ctl_ready :: "disk_ctl \<Rightarrow> bool" where
  "ctl_ready c \<longleftrightarrow> c_mode c = Idle \<and> (\<forall>l. length (c_image c l) = 512)"

definition device_value :: "u32 \<Rightarrow> u8" where
  "device_value lba = DEVICE_SLAVE OR 0x40 OR lba_upper lba"

lemma device_value_low: "device_value lba AND 0x0F = lba_upper lba"
  by (simp add: device_value_def DEVICE_SLAVE_def lba_upper_def) (rule bit_word_eqI, auto simp: bit_simps)

lemma lba_registers:
  "u32_from_le_bytes (lba_low lba) (lba_mid lba) (lba_high lba) (device_value lba AND 0x0F) = take_bit 28 lba"
  unfolding device_value_low
proof (rule bit_word_eqI)
  fix n assume "n < LENGTH(32)"
  then consider "n < 8" | "8 \<le> n" "n < 16" | "16 \<le> n" "n < 24" | "24 \<le> n" "n < 28" | "28 \<le> n" "n < 32"
    by fastforce
  then show "bit (u32_from_le_bytes (lba_low lba) (lba_mid lba) (lba_high lba) (lba_upper lba)) n = bit (take_bit 28 lba) n"
    by cases (auto simp: u32_from_le_bytes_def lba_low_def lba_mid_def lba_high_def lba_upper_def bit_simps)
qed

lemma ctl_issue:
  "issue_ports ctl_ports cmd lba c = ctl_command cmd (c\<lparr>c_low := lba_low lba, c_mid := lba_mid lba,
     c_high := lba_high lba, c_device := device_value lba\<rparr>)"
  by (simp add: issue_ports_def ctl_ports_def ctl_write8_def port_defs device_value_def)

lemma ctl_command_eq:
  "ctl_command CMD_READ_SECTORS (c\<lparr>c_low := lba_low lba, c_mid := lba_mid lba,
     c_high := lba_high lba, c_device := device_value lba\<rparr>) = c\<lparr>c_low := lba_low lba, c_mid := lba_mid lba,
     c_high := lba_high lba, c_device := device_value lba, c_mode := Data_in (sector_words (c_image c (take_bit 28 lba)))\<rparr>"
  "ctl_command CMD_WRITE_SECTORS (c\<lparr>c_low := lba_low lba, c_mid := lba_mid lba,
     c_high := lba_high lba, c_device := device_value lba\<rparr>) = c\<lparr>c_low := lba_low lba, c_mid := lba_mid lba,
     c_high := lba_high lba, c_device := device_value lba, c_mode := Data_out (take_bit 28 lba) []\<rparr>"
proof -
  have "bit (device_value lba) 4" by (simp add: device_value_def DEVICE_SLAVE_def bit_simps)
  moreover have "CMD_READ_SECTORS \<noteq> CMD_WRITE_SECTORS" by (simp add: command_defs)
  ultimately show "ctl_command CMD_READ_SECTORS (c\<lparr>c_low := lba_low lba, c_mid := lba_mid lba,
     c_high := lba_high lba, c_device := device_value lba\<rparr>) = c\<lparr>c_low := lba_low lba, c_mid := lba_mid lba,
     c_high := lba_high lba, c_device := device_value lba, c_mode := Data_in (sector_words (c_image c (take_bit 28 lba)))\<rparr>"
    and "ctl_command CMD_WRITE_SECTORS (c\<lparr>c_low := lba_low lba, c_mid := lba_mid lba,
     c_high := lba_high lba, c_device := device_value lba\<rparr>) = c\<lparr>c_low := lba_low lba, c_mid := lba_mid lba,
     c_high := lba_high lba, c_device := device_value lba, c_mode := Data_out (take_bit 28 lba) []\<rparr>"
    using lba_registers [of lba] by (simp_all add: ctl_command_def ctl_lba_def)
qed

lemma ctl_data_ready: "c_mode c \<noteq> Idle \<Longrightarrow> data_ready ctl_ports c c"
  by (simp add: data_ready_def ctl_ports_def ctl_read8_def command_defs)

lemma ctl_drain_in:
  assumes "ws \<noteq> []"
  shows "drain ctl_ports (length ws) (c\<lparr>c_mode := Data_in ws\<rparr>) = (ws, c\<lparr>c_mode := Idle\<rparr>)"
  using assms
proof (induction ws)
  case Nil
  then show ?case by simp
next
  case (Cons w ws)
  then show ?case by (cases ws) (auto simp: ctl_ports_def ctl_read16_def)
qed

lemma ctl_drain_out: "c_mode c = Data_out l ws \<Longrightarrow> snd (drain ctl_ports n c) = c"
  by (induction n) (auto simp: ctl_ports_def ctl_read16_def split: prod.splits)

lemma ctl_feed:
  assumes "c_mode c = Data_out l vs" and "length vs + length ws = 256" and "ws \<noteq> []"
  shows "feed ctl_ports ws c = c\<lparr>c_image := (c_image c)(l := words_bytes (vs @ ws)), c_mode := Idle\<rparr>"
  using assms
proof (induction ws arbitrary: c vs)
  case Nil
  then show ?case by simp
next
  case (Cons w ws)
  show ?case
  proof (cases "ws = []")
    case True
    then show ?thesis using Cons.prems by (simp add: feed_def ctl_ports_def ctl_write16_def fun_upd_def)
  next
    case False
    then have "length vs \<noteq> 255" using Cons.prems by auto
    then show ?thesis
      using Cons.prems Cons.IH [of "c\<lparr>c_mode := Data_out l (vs @ [w])\<rparr>" "vs @ [w]"] False
      by (simp add: feed_def ctl_ports_def ctl_write16_def)
  qed
qed

lemma length_sector_words [simp]: "length (sector_words bs) = 256"
  by (simp add: sector_words_def)

interpretation ctl: ata_device ctl_ports "ctl_irq level" ctl_ready c_image
  for level
proof
  fix p :: disk_ctl and lba :: u32
  assume r: "ctl_ready p"
  show "length (c_image p l) = 512" for l using r by (simp add: ctl_ready_def)
  show "ctl_ready (snd (port_read8 ctl_ports STATUS_COMMAND_PORT p)) \<and>
      c_image (snd (port_read8 ctl_ports STATUS_COMMAND_PORT p)) = c_image p"
    using r by (simp add: ctl_ports_def ctl_read8_def)
  let ?c = "p\<lparr>c_low := lba_low lba, c_mid := lba_mid lba, c_high := lba_high lba, c_device := device_value lba\<rparr>"
  let ?ws = "sector_words (c_image p (take_bit 28 lba))"
  have "?ws \<noteq> []" using length_sector_words [of "c_image p (take_bit 28 lba)"] by (metis list.size(3) zero_neq_numeral)
  from ctl_drain_in [OF this, of ?c] have "drain ctl_ports 256 (?c\<lparr>c_mode := Data_in ?ws\<rparr>) = (?ws, ?c\<lparr>c_mode := Idle\<rparr>)"
    by (simp only: length_sector_words)
  moreover have "data_ready ctl_ports (?c\<lparr>c_mode := Data_in ?ws\<rparr>) (?c\<lparr>c_mode := Data_in ?ws\<rparr>)"
    by (rule ctl_data_ready) simp
  ultimately show "ctl_irq level (issue_ports ctl_ports CMD_READ_SECTORS lba p) \<and>
      (\<exists>p1 p2. data_ready ctl_ports (issue_ports ctl_ports CMD_READ_SECTORS lba p) p1 \<and>
         drain ctl_ports 256 p1 = (?ws, p2) \<and> ctl_ready p2 \<and> c_image p2 = c_image p)"
    using r unfolding ctl_issue ctl_command_eq
    by (intro conjI exI [of _ "?c\<lparr>c_mode := Data_in ?ws\<rparr>"] exI [of _ "?c\<lparr>c_mode := Idle\<rparr>"])
      (simp_all add: ctl_irq_def ctl_ready_def)
qed

interpretation level_ctl: level_device ctl_ports "ctl_irq True" ctl_ready c_image
proof
  fix p :: disk_ctl and lba :: u32 and bs :: "u8 list"
  assume r: "ctl_ready p" and bs: "length bs = 512"
  let ?c = "p\<lparr>c_low := lba_low lba, c_mid := lba_mid lba, c_high := lba_high lba, c_device := device_value lba,
    c_mode := Data_out (take_bit 28 lba) []\<rparr>"
  let ?f = "feed ctl_ports (sector_words bs) ?c"
  have "sector_words bs \<noteq> []" using length_sector_words [of bs] by (metis list.size(3) zero_neq_numeral)
  then have f: "?f = ?c\<lparr>c_image := (c_image ?c)(take_bit 28 lba := bs), c_mode := Idle\<rparr>"
    using ctl_feed [of ?c "take_bit 28 lba" "[]" "sector_words bs"] bs by (simp add: words_bytes_sector_words)
  have d: "snd (drain ctl_ports 256 ?c) = ?c" by (rule ctl_drain_out) simp
  have "data_ready ctl_ports ?c ?c" by (rule ctl_data_ready) simp
  moreover have "ctl_ready ?f" "c_image ?f = (c_image p)(take_bit 28 lba := bs)" "ctl_irq True ?c"
    using r bs by (simp_all add: f ctl_ready_def ctl_irq_def)
  ultimately show "ctl_irq True (issue_ports ctl_ports CMD_WRITE_SECTORS lba p) \<and>
      (\<exists>p1 p2. data_ready ctl_ports (issue_ports ctl_ports CMD_WRITE_SECTORS lba p) p1 \<and>
         ctl_ready (feed ctl_ports (sector_words bs) p1) \<and>
         c_image (feed ctl_ports (sector_words bs) p1) = (c_image p)(take_bit 28 lba := bs) \<and>
         ctl_irq True (snd (drain ctl_ports 256 p1)) \<and> data_ready ctl_ports (snd (drain ctl_ports 256 p1)) p2 \<and>
         ctl_ready (feed ctl_ports (sector_words bs) p2) \<and>
         c_image (feed ctl_ports (sector_words bs) p2) = (c_image p)(take_bit 28 lba := bs))"
    unfolding ctl_issue ctl_command_eq by (intro conjI exI [of _ ?c]) (simp_all only: d)
qed

definition ctl_env :: "(disk_ctl, nat \<times> DiskRequest list, nat option, nat) ata_env" where
  "ctl_env = \<lparr>env_ports = ctl_ports, env_queue = list_queue, env_waker = option_waker\<rparr>"

interpretation ctl_disk: ata_disk ctl_env "ctl_irq level" ctl_ready c_image "\<lambda>k. k"
  for level
  unfolding ata_disk_def ctl_env_def by (simp add: ctl.ata_device_axioms ow.waker_spec_axioms)

interpretation level_ctl_disk: level_disk ctl_env "ctl_irq True" ctl_ready c_image "\<lambda>k. k"
  unfolding level_disk_def using ctl_disk.ata_disk_axioms
  by (simp add: ctl_env_def level_ctl.level_device_axioms)

section \<open>Properties\<close>

definition blank_drive :: disk_ctl where
  "blank_drive = \<lparr>c_image = (\<lambda>l. replicate 512 (ucast l)), c_low = 0, c_mid = 0, c_high = 0, c_device = 0, c_mode = Idle\<rparr>"

lemma blank_drive_ready: "ctl_ready blank_drive"
  by (simp add: ctl_ready_def blank_drive_def)

definition idle_start :: "(disk_ctl, nat \<times> DiskRequest list, nat option, nat) ata_state" where
  "idle_start = (ata_start blank_drive)\<lparr>DISK_WAKER := Some None, DISK_REQUEST_QUEUE := Some (32, [])\<rparr>"

lemma idle_start_idle: "ata_idle ctl_ready idle_start"
  using blank_drive_ready by (simp add: ata_idle_def idle_start_def ata_start_def SECTOR_SIZE_def)

text \<open>
  C27. Reading works: on a drive that keeps the ATA contract, \<open>read_sector_async\<close> of an initialized
  driver returns, after one interrupt, the content of the sector its 28 address bits select, and
  leaves the disk as it was and the driver ready for the next operation.
\<close>

theorem read_sector_async_returns:
  assumes "ata_disk E irq ready img registered" and "ata_idle ready s" and "2 \<le> n"
  shows "\<exists>s'. read_sector_async E irq w n lba s = (Ret (img (ports s) (take_bit 28 lba)), s') \<and>
    ata_idle ready s' \<and> img (ports s') = img (ports s)"
  using ata_disk.read_sector_async_ok [OF assms] .

theorem read_sector_async_returns_witness:
  "\<exists>s'. read_sector_async ctl_env (ctl_irq False) (7 :: nat) 2 5 idle_start =
      (Ret (c_image (ports idle_start) (take_bit 28 5)), s') \<and>
    ata_idle ctl_ready s' \<and> c_image (ports s') = c_image (ports idle_start)"
  by (rule read_sector_async_returns [OF ctl_disk.ata_disk_axioms idle_start_idle]) simp

text \<open>
  C28. No lost wake-up: wherever the interrupt of a read falls, before the registration of the waker,
  after it, or after the poll has given up, either this poll is ready or the waker is called and the
  next poll is ready, with the words taken from the data port.
\<close>

theorem sector_read_no_lost_wakeup:
  assumes "waker_spec (env_waker E) registered" and "DISK_WAKER s \<noteq> None" and "PENDING_LBA s = lba"
    and "\<not> OPERATION_COMPLETE s" and "length (SECTOR_BUFFER s) = 512"
    and "data_ready (env_ports E) (ports s) p" and "bs = words_bytes (fst (drain (env_ports E) 256 p))"
  shows "(\<exists>s'. SectorRead_poll E (on_primary_ata_interrupt E) (io_ret ()) lba w s = (Ret (Ready bs), s')) \<and>
    (\<exists>s'. SectorRead_poll E (io_ret ()) (on_primary_ata_interrupt E) lba w s = (Ret (Ready bs), s')) \<and>
    (\<exists>s1 s2 s3. SectorRead_poll E (io_ret ()) (io_ret ()) lba w s = (Ret Pending, s1) \<and>
       on_primary_ata_interrupt E s1 = (Ret (), s2) \<and> woken s2 = woken s @ [w] \<and>
       SectorRead_poll E (io_ret ()) (io_ret ()) lba w s2 = (Ret (Ready bs), s3))"
proof -
  obtain k where k: "DISK_WAKER s = Some k" using assms(2) by auto
  obtain ws p' where d: "drain (env_ports E) 256 p = (ws, p')" by fastforce
  let ?k = "aw_register (env_waker E) w k"
  have irq: "on_primary_ata_interrupt E (s\<lparr>DISK_WAKER := x\<rparr>) = wake_disk E (s\<lparr>DISK_WAKER := x,
      SECTOR_BUFFER := words_bytes ws, ports := p', console := console s @ [ReadDone lba], OPERATION_COMPLETE := True\<rparr>)" for x
    using interrupt_reads [of E "s\<lparr>DISK_WAKER := x\<rparr>" p ws p'] assms d by simp
  have irq0: "on_primary_ata_interrupt E s = wake_disk E (s\<lparr>SECTOR_BUFFER := words_bytes ws, ports := p',
      console := console s @ [ReadDone lba], OPERATION_COMPLETE := True\<rparr>)"
    using interrupt_reads [of E s p ws p'] assms d by simp
  have "aw_wake (env_waker E) ?k = (Some w, snd (aw_wake (env_waker E) ?k))"
    using waker_spec.wake_law [OF assms(1), of ?k] waker_spec.register_law [OF assms(1), of w k]
    by (cases "aw_wake (env_waker E) ?k") simp
  note defs = SectorRead_poll_def register_waker_def take_read_def read_is_complete_def io_bind_def wake_disk_def
  have "\<exists>s'. SectorRead_poll E (on_primary_ata_interrupt E) (io_ret ()) lba w s = (Ret (Ready bs), s')"
    using assms(3,4,7) d irq0 k by (simp add: defs split: prod.splits)
  moreover have "\<exists>s'. SectorRead_poll E (io_ret ()) (on_primary_ata_interrupt E) lba w s = (Ret (Ready bs), s')"
    using assms(3,4,7) d irq k by (simp add: defs split: prod.splits)
  moreover have "\<exists>s1 s2 s3. SectorRead_poll E (io_ret ()) (io_ret ()) lba w s = (Ret Pending, s1) \<and>
       on_primary_ata_interrupt E s1 = (Ret (), s2) \<and> woken s2 = woken s @ [w] \<and>
       SectorRead_poll E (io_ret ()) (io_ret ()) lba w s2 = (Ret (Ready bs), s3)"
    using assms(3,4,7) d irq k \<open>aw_wake (env_waker E) ?k = _\<close>
    by (cases "aw_wake (env_waker E) ?k") (simp add: defs)
  ultimately show ?thesis by blast
qed

lemma data_in_ready: "data_ready ctl_ports (blank_drive\<lparr>c_mode := Data_in ws\<rparr>) (blank_drive\<lparr>c_mode := Data_in ws\<rparr>)"
  by (rule ctl_data_ready) simp

theorem sector_read_no_lost_wakeup_witness:
  "\<exists>s bs. (\<exists>s'. SectorRead_poll ctl_env (on_primary_ata_interrupt ctl_env) (io_ret ()) 0 (7 :: nat) s = (Ret (Ready bs), s')) \<and>
    (\<exists>s'. SectorRead_poll ctl_env (io_ret ()) (on_primary_ata_interrupt ctl_env) 0 7 s = (Ret (Ready bs), s')) \<and>
    (\<exists>s1 s2 s3. SectorRead_poll ctl_env (io_ret ()) (io_ret ()) 0 7 s = (Ret Pending, s1) \<and>
       on_primary_ata_interrupt ctl_env s1 = (Ret (), s2) \<and> woken s2 = woken s @ [7] \<and>
       SectorRead_poll ctl_env (io_ret ()) (io_ret ()) 0 7 s2 = (Ret (Ready bs), s3))"
proof (intro exI)
  let ?p = "blank_drive\<lparr>c_mode := Data_in (replicate 256 1)\<rparr>"
  show "(\<exists>s'. SectorRead_poll ctl_env (on_primary_ata_interrupt ctl_env) (io_ret ()) 0 (7 :: nat) (idle_start\<lparr>ports := ?p\<rparr>) =
        (Ret (Ready (words_bytes (fst (drain (env_ports ctl_env) 256 ?p)))), s')) \<and>
    (\<exists>s'. SectorRead_poll ctl_env (io_ret ()) (on_primary_ata_interrupt ctl_env) 0 7 (idle_start\<lparr>ports := ?p\<rparr>) =
        (Ret (Ready (words_bytes (fst (drain (env_ports ctl_env) 256 ?p)))), s')) \<and>
    (\<exists>s1 s2 s3. SectorRead_poll ctl_env (io_ret ()) (io_ret ()) 0 7 (idle_start\<lparr>ports := ?p\<rparr>) = (Ret Pending, s1) \<and>
       on_primary_ata_interrupt ctl_env s1 = (Ret (), s2) \<and> woken s2 = woken (idle_start\<lparr>ports := ?p\<rparr>) @ [7] \<and>
       SectorRead_poll ctl_env (io_ret ()) (io_ret ()) 0 7 s2 =
         (Ret (Ready (words_bytes (fst (drain (env_ports ctl_env) 256 ?p)))), s3))"
    by (rule sector_read_no_lost_wakeup [where p = ?p and registered = "\<lambda>k. k"])
      (use ow.waker_spec_axioms data_in_ready in \<open>simp_all add: idle_start_def ata_start_def SECTOR_SIZE_def ctl_env_def\<close>)
qed

text \<open>
  C29. The write path takes a write for a read: when no completed read is left unconsumed, as after
  every finished \<open>read_sector_async\<close>, the handler answers the drive's request for data by reading
  256 words from it, sends nothing, and the write future stays pending. The test \<open>is_write\<close> asks for
  \<open>OPERATION_COMPLETE\<close>, which \<open>write_sector_async\<close> never sets.
\<close>

theorem write_first_interrupt_reads:
  assumes "DISK_WAKER s = Some k" and "\<not> OPERATION_COMPLETE s" and "length (SECTOR_BUFFER s) = 512"
    and "length data = 512"
    and "data_ready (env_ports E) (issue_ports (env_ports E) CMD_WRITE_SECTORS lba (ports s)) p"
  shows "\<exists>s1 s2 s3. start_write E lba data s = (Ret (), s1) \<and> on_primary_ata_interrupt E s1 = (Ret (), s2) \<and>
    ports s2 = snd (drain (env_ports E) 256 p) \<and> SECTOR_BUFFER s2 = words_bytes (fst (drain (env_ports E) 256 p)) \<and>
    SectorWrite_poll E (io_ret ()) (io_ret ()) lba w s2 = (Ret Pending, s3)"
proof -
  obtain ws p' where d: "drain (env_ports E) 256 p = (ws, p')" by fastforce
  obtain c where c: "start_write E lba data s = (Ret (), s\<lparr>SECTOR_WRITE_BUFFER := data, PENDING_LBA := lba,
      WRITE_COMPLETE := False, console := c, ports := issue_ports (env_ports E) CMD_WRITE_SECTORS lba (ports s)\<rparr>)"
      (is "_ = (_, ?s1)") using start_write_eq [OF assms(4), of E lba s] by blast
  have "on_primary_ata_interrupt E ?s1 = wake_disk E (?s1\<lparr>SECTOR_BUFFER := words_bytes ws, ports := p',
      console := console ?s1 @ [ReadDone (PENDING_LBA ?s1)], OPERATION_COMPLETE := True\<rparr>)"
    by (rule interrupt_reads [OF _ _ _ d]) (use assms in simp_all)
  then show ?thesis
    using c d assms(1)
    by (simp add: wake_disk_def SectorWrite_poll_def register_waker_def write_is_complete_def split: prod.splits)
qed

theorem write_first_interrupt_reads_witness:
  "\<exists>s1 s2 s3. start_write ctl_env 3 (replicate 512 1) idle_start = (Ret (), s1) \<and>
    on_primary_ata_interrupt ctl_env s1 = (Ret (), s2) \<and>
    ports s2 = snd (drain (env_ports ctl_env) 256 (issue_ports ctl_ports CMD_WRITE_SECTORS 3 blank_drive)) \<and>
    SECTOR_BUFFER s2 = words_bytes (fst (drain (env_ports ctl_env) 256 (issue_ports ctl_ports CMD_WRITE_SECTORS 3 blank_drive))) \<and>
    SectorWrite_poll ctl_env (io_ret ()) (io_ret ()) 3 (7 :: nat) s2 = (Ret Pending, s3)"
proof (rule write_first_interrupt_reads)
  show "data_ready (env_ports ctl_env) (issue_ports (env_ports ctl_env) CMD_WRITE_SECTORS 3 (ports idle_start))
      (issue_ports ctl_ports CMD_WRITE_SECTORS 3 blank_drive)"
    using ctl_data_ready by (simp add: ctl_env_def idle_start_def ata_start_def ctl_issue ctl_command_eq)
qed (simp_all add: idle_start_def ata_start_def SECTOR_SIZE_def)

text \<open>
  C30. On a drive that requests no interrupt before it has the data, which is how the ATA
  specification starts a PIO write, \<open>write_sector_async\<close> never completes: the driver sends the data
  only from the interrupt handler, and waits for an interrupt that does not come.
\<close>

theorem write_sector_async_stuck:
  assumes "DISK_WAKER s = Some k" and "length data = 512"
    and "\<not> irq (issue_ports (env_ports E) CMD_WRITE_SECTORS lba (ports s))"
  shows "\<exists>s'. write_sector_async E irq w n lba data s = (Hang, s') \<and>
    ports s' = issue_ports (env_ports E) CMD_WRITE_SECTORS lba (ports s)"
proof -
  obtain c where c: "start_write E lba data s = (Ret (), s\<lparr>SECTOR_WRITE_BUFFER := data, PENDING_LBA := lba,
      WRITE_COMPLETE := False, console := c, ports := issue_ports (env_ports E) CMD_WRITE_SECTORS lba (ports s)\<rparr>)"
      (is "_ = (_, ?s1)") using start_write_eq [OF assms(2), of E lba s] by blast
  have w: "wait_wake E irq w m (?s1\<lparr>DISK_WAKER := x\<rparr>) = (Hang, ?s1\<lparr>DISK_WAKER := x\<rparr>)" for m x
    using assms(3) by (cases m) simp_all
  then have "\<exists>s'. await_disk E irq w (SectorWrite_poll E (io_ret ()) (io_ret ()) lba w) n ?s1 = (Hang, s') \<and>
      ports s' = ports ?s1"
    using assms(1) w by (cases n) (simp_all add: io_bind_def SectorWrite_poll_def register_waker_def write_is_complete_def)
  then show ?thesis using c by (simp add: write_sector_async_def io_bind_def)
qed

theorem write_sector_async_stuck_witness:
  "\<exists>s'. write_sector_async ctl_env (ctl_irq False) 7 1000 3 (replicate 512 1) idle_start = (Hang, s') \<and>
    ports s' = issue_ports (env_ports ctl_env) CMD_WRITE_SECTORS 3 (ports idle_start)"
  by (rule write_sector_async_stuck)
    (simp_all add: idle_start_def ata_start_def ctl_env_def ctl_issue ctl_command_eq ctl_irq_def)



text \<open>
  C32. A drive error is swallowed: the handler calls no waker and completes nothing, so a future that
  waits for the failed operation is still pending and is not polled again; the error is never
  reported to the caller.
\<close>

theorem ata_error_wakes_nobody:
  assumes "port_read8 (env_ports E) STATUS_COMMAND_PORT (ports s) = (st, p)" and "st AND STATUS_ERR \<noteq> 0"
  shows "\<exists>s'. on_primary_ata_interrupt E s = (Ret (), s') \<and> woken s' = woken s \<and> DISK_WAKER s' = DISK_WAKER s \<and>
    (\<exists>s1. SectorRead_poll E (io_ret ()) (io_ret ()) lba w s' = (Ret Pending, s1)) \<and>
    (\<exists>s1. SectorWrite_poll E (io_ret ()) (io_ret ()) lba w s' = (Ret Pending, s1))"
  using assms
  by (cases "port_read8 (env_ports E) ERROR_PORT p")
    (simp add: on_primary_ata_interrupt_def in8_def io_bind_def log_msg_def SectorRead_poll_def SectorWrite_poll_def
      register_waker_def read_is_complete_def write_is_complete_def)

definition failing_ports :: "disk_ctl port_ops" where
  "failing_ports = ctl_ports\<lparr>port_read8 := (\<lambda>_ c. (0x51, c))\<rparr>"

theorem ata_error_wakes_nobody_witness:
  "\<exists>s'. on_primary_ata_interrupt (ctl_env\<lparr>env_ports := failing_ports\<rparr>) idle_start = (Ret (), s') \<and>
    woken s' = woken idle_start \<and> DISK_WAKER s' = DISK_WAKER idle_start \<and>
    (\<exists>s1. SectorRead_poll (ctl_env\<lparr>env_ports := failing_ports\<rparr>) (io_ret ()) (io_ret ()) 0 7 s' = (Ret Pending, s1)) \<and>
    (\<exists>s1. SectorWrite_poll (ctl_env\<lparr>env_ports := failing_ports\<rparr>) (io_ret ()) (io_ret ()) 0 7 s' = (Ret Pending, s1))"
  by (rule ata_error_wakes_nobody [where st = "0x51" and p = blank_drive])
    (simp_all add: failing_ports_def idle_start_def ata_start_def STATUS_ERR_def)

section \<open>The request queue\<close>

text \<open>Synchronous reads, each followed by some number of disk interrupts.\<close>

fun serve_irqs :: "('p, 'q, 'k, 'w) ata_env \<Rightarrow> nat \<Rightarrow> ('p, 'q, 'k, 'w, unit) ata_io" where
  "serve_irqs E 0 = io_ret ()"
| "serve_irqs E (Suc n) = io_bind (on_primary_ata_interrupt E) (\<lambda>_. serve_irqs E n)"

fun read_sectors ::
  "('p, 'q, 'k, 'w) ata_env \<Rightarrow> (u32 \<times> nat) list \<Rightarrow> ('p, 'q, 'k, 'w, (unit, string) result list) ata_io" where
  "read_sectors E [] = io_ret []"
| "read_sectors E ((lba, n) # rs) =
     io_bind (read_sector E lba) (\<lambda>r. io_bind (serve_irqs E n) (\<lambda>_.
     io_bind (read_sectors E rs) (\<lambda>rest. io_ret (r # rest))))"

lemma read_words_queue: "\<exists>s'. read_words E i n s = (Ret (), s') \<and> DISK_REQUEST_QUEUE s' = DISK_REQUEST_QUEUE s"
proof (induction n arbitrary: i s)
  case 0
  then show ?case by simp
next
  case (Suc n)
  obtain v p where v: "port_read16 (env_ports E) DATA_PORT (ports s) = (v, p)" by fastforce
  show ?case
    using Suc [of "Suc i" "s\<lparr>ports := p, SECTOR_BUFFER :=
      (SECTOR_BUFFER s)[i * 2 := ucast (v AND 0xFF), i * 2 + 1 := ucast (drop_bit 8 v)]\<rparr>"] v
    by (simp add: io_bind_def in16_def)
qed

lemma interrupt_queue:
  "\<exists>s'. on_primary_ata_interrupt E s = (Ret (), s') \<and> DISK_REQUEST_QUEUE s' = DISK_REQUEST_QUEUE s"
proof -
  obtain st p where r: "port_read8 (env_ports E) STATUS_COMMAND_PORT (ports s) = (st, p)" by fastforce
  obtain er p' where e: "port_read8 (env_ports E) ERROR_PORT p = (er, p')" by fastforce
  obtain s' where s': "read_words E 0 256 (s\<lparr>ports := p\<rparr>) = (Ret (), s')"
    "DISK_REQUEST_QUEUE s' = DISK_REQUEST_QUEUE s"
    using read_words_queue [of E 0 256 "s\<lparr>ports := p\<rparr>"] by auto
  have w: "\<exists>t'. wake_disk E t = (Ret (), t') \<and> DISK_REQUEST_QUEUE t' = DISK_REQUEST_QUEUE t" for t
    by (simp add: wake_disk_def split: option.split prod.split)
  show ?thesis
    using r e s' w [of "s'\<lparr>console := console s' @ [ReadDone (PENDING_LBA s')], OPERATION_COMPLETE := True\<rparr>"]
      w [of "s\<lparr>ports := feed (env_ports E) (sector_words (SECTOR_WRITE_BUFFER s)) p,
          console := console s @ [WriteDone (PENDING_LBA s)], WRITE_COMPLETE := True\<rparr>"]
    by (auto simp: on_primary_ata_interrupt_def in8_def io_bind_def log_msg_def write_words_256)
qed

lemma serve_irqs_queue: "\<exists>s'. serve_irqs E n s = (Ret (), s') \<and> DISK_REQUEST_QUEUE s' = DISK_REQUEST_QUEUE s"
proof (induction n arbitrary: s)
  case 0
  then show ?case by simp
next
  case (Suc n)
  obtain s1 where "on_primary_ata_interrupt E s = (Ret (), s1)" "DISK_REQUEST_QUEUE s1 = DISK_REQUEST_QUEUE s"
    using interrupt_queue by blast
  then show ?case using Suc [of s1] by (simp add: io_bind_def)
qed

lemma read_sector_queue:
  assumes "queue_spec (env_queue E) items cap" and "DISK_REQUEST_QUEUE s = Some q"
  obtains s' q' where "read_sector E lba s =
      (Ret (if length (items q) < cap q then Ok () else Err ''ATA request queue full''), s')"
    and "DISK_REQUEST_QUEUE s' = Some q'" and "cap q' = cap q"
    and "length (items q') = (if length (items q) < cap q then Suc (length (items q)) else length (items q))"
proof (cases rule: queue_spec.push_cases [OF assms(1), of q "Read lba", case_names ok full])
  case (ok q')
  then show ?thesis using assms(2) that [of "s\<lparr>DISK_REQUEST_QUEUE := Some q', PENDING_LBA := lba, OPERATION_COMPLETE := False,
      ports := issue_ports (env_ports E) CMD_READ_SECTORS lba (ports s)\<rparr>" q']
    by (simp add: read_sector_def issue_read_command_def out8_def issue_ports_def io_bind_def)
next
  case (full q')
  then show ?thesis using assms(2) that [of "s\<lparr>DISK_REQUEST_QUEUE := Some q'\<rparr>" q']
    by (simp add: read_sector_def)
qed

lemma read_sectors_queue:
  assumes "queue_spec (env_queue E) items cap" and "DISK_REQUEST_QUEUE s = Some q" and "length (items q) \<le> cap q"
  shows "\<exists>s'. read_sectors E rs s = (Ret (map (\<lambda>i. if length (items q) + i < cap q then Ok ()
    else Err ''ATA request queue full'') [0..<length rs]), s')"
  using assms(2,3)
proof (induction rs arbitrary: s q)
  case Nil
  then show ?case by simp
next
  case (Cons r rs)
  obtain lba n where r: "r = (lba, n)" by fastforce
  obtain s1 q1 where s1: "read_sector E lba s =
      (Ret (if length (items q) < cap q then Ok () else Err ''ATA request queue full''), s1)"
    and q1: "DISK_REQUEST_QUEUE s1 = Some q1" "cap q1 = cap q"
      "length (items q1) = (if length (items q) < cap q then Suc (length (items q)) else length (items q))"
    by (rule read_sector_queue [OF assms(1) Cons.prems(1), of lba])
  obtain s2 where s2: "serve_irqs E n s1 = (Ret (), s2)" "DISK_REQUEST_QUEUE s2 = Some q1"
    using serve_irqs_queue [of E n s1] q1(1) by auto
  have "length (items q1) \<le> cap q1" using q1 Cons.prems(2) by (simp split: if_splits)
  from Cons.IH [OF s2(2) this] obtain s3 where s3: "read_sectors E rs s2 = (Ret (map (\<lambda>i. if length (items q1) + i < cap q1 then Ok ()
    else Err ''ATA request queue full'') [0..<length rs]), s3)" by blast
  have "map (\<lambda>i. if length (items q) + i < cap q then Ok () else Err ''ATA request queue full'') [0..<length (r # rs)] =
    (if length (items q) < cap q then Ok () else Err ''ATA request queue full'') #
    map (\<lambda>i. if length (items q1) + i < cap q1 then Ok () else Err ''ATA request queue full'') [0..<length rs]"
    using q1(2,3) Cons.prems(2) by (simp add: upt_conv_Cons map_Suc_upt [symmetric] del: upt_Suc)
  then have "read_sectors E (r # rs) s = (Ret (map (\<lambda>i. if length (items q) + i < cap q then Ok ()
    else Err ''ATA request queue full'') [0..<length (r # rs)]), s3)"
    using s1 s2(1) s3 by (simp only: r read_sectors.simps io_bind_def prod.case outcome.case io_apply)
  then show ?case by (rule exI)
qed



text \<open>
  Initialization: the first \<open>init\<close> of a driver creates the queue and the waker and marks the
  driver; another \<open>init\<close> of the same driver changes nothing; \<open>init\<close> of a second driver panics, since
  the statics are already initialized.
\<close>

theorem ata_init_once:
  assumes "DISK_REQUEST_QUEUE s = None" and "DISK_WAKER s = None"
  shows "\<exists>s'. ata_init E AtaDriver_new s = (Ret \<lparr>initialized = True\<rparr>, s') \<and>
    DISK_REQUEST_QUEUE s' = Some (aq_new (env_queue E) 32) \<and> DISK_WAKER s' = Some (aw_new (env_waker E)) \<and>
    ata_init E \<lparr>initialized = True\<rparr> s' = (Ret \<lparr>initialized = True\<rparr>, s') \<and>
    ata_init E AtaDriver_new s' = (Panic ''ATA request queue already initialized'', s')"
proof -
  obtain st p where "port_read8 (env_ports E) STATUS_COMMAND_PORT
      (port_write8 (env_ports E) DEVICE_PORT DEVICE_MASTER (port_write8 (env_ports E) ALT_STATUS_CONTROL_PORT 0
        (port_write8 (env_ports E) ALT_STATUS_CONTROL_PORT 4 (ports s)))) = (st, p)" by fastforce
  then show ?thesis using assms
    by (auto simp: ata_init_def AtaDriver_new_def soft_reset_def detect_drives_def log_msg_def out8_def in8_def io_bind_def)
qed

theorem ata_init_once_witness:
  "\<exists>s'. ata_init ctl_env AtaDriver_new (ata_start blank_drive) = (Ret \<lparr>initialized = True\<rparr>, s') \<and>
    DISK_REQUEST_QUEUE s' = Some (aq_new (env_queue ctl_env) 32) \<and> DISK_WAKER s' = Some (aw_new (env_waker ctl_env)) \<and>
    ata_init ctl_env \<lparr>initialized = True\<rparr> s' = (Ret \<lparr>initialized = True\<rparr>, s') \<and>
    ata_init ctl_env AtaDriver_new s' = (Panic ''ATA request queue already initialized'', s')"
  by (rule ata_init_once) (simp_all add: ata_start_def)

end
