(* ===== verification/Fat32.thy ===== *)
theory Fat32
  imports Ata
begin

text \<open>
  \<open>src/fs/fat32.rs\<close>: the FAT32 file system, operation by operation. The functions of the module call
  \<open>AtaDriver::read_sector_async\<close> and \<open>write_sector_async\<close> and await them one after the other; here
  they take the two, and \<open>println!\<close>, as a record \<open>D\<close>, so that the lemmas hold for every device that
  keeps the contract of theory \<open>Fat32_Read\<close>, and theory \<open>Fat32_Write\<close> for writing.

  Arithmetic on \<open>u32\<close> carries the overflow setting \<open>oc\<close>. Offsets computed in \<open>usize\<close> from a \<open>u32\<close>
  cluster number or a loop counter stay far below \<open>2 ^ 64\<close> and are natural numbers.
\<close>

section \<open>The device\<close>

record 's disk_ops =
  d_read :: "u32 \<Rightarrow> ('s, u8 list) io"
  d_write :: "u32 \<Rightarrow> u8 list \<Rightarrow> ('s, (unit, string) result) io"
  d_println :: "u8 list \<Rightarrow> ('s, unit) io"

section \<open>The boot sector\<close>

record BootSector =
  bytes_per_sector :: u16
  sectors_per_cluster :: u8
  reserved_sectors :: u16
  num_fats :: u8
  total_sectors_32 :: u32
  sectors_per_fat_32 :: u32
  root_cluster :: u32

definition get_u16 :: "u8 list \<Rightarrow> nat \<Rightarrow> u16" where
  "get_u16 bs off = u16_from_le_bytes (bs ! off) (bs ! (off + 1))"

definition get_u32 :: "u8 list \<Rightarrow> nat \<Rightarrow> u32" where
  "get_u32 bs off = u32_from_le_bytes (bs ! off) (bs ! (off + 1)) (bs ! (off + 2)) (bs ! (off + 3))"

text \<open>The lines printed for a boot sector.\<close>

definition boot_lines :: "BootSector \<Rightarrow> u8 list list" where
  "boot_lines b =
     [bytes ''[FAT32] Boot Sector Parsed:'',
      bytes ''  Bytes per sector: '' @ show_dec (unat (bytes_per_sector b)),
      bytes ''  Sectors per cluster: '' @ show_dec (unat (sectors_per_cluster b)),
      bytes ''  Reserved sectors: '' @ show_dec (unat (reserved_sectors b)),
      bytes ''  Number of FATs: '' @ show_dec (unat (num_fats b)),
      bytes ''  Total sectors: '' @ show_dec (unat (total_sectors_32 b)),
      bytes ''  Sectors per FAT: '' @ show_dec (unat (sectors_per_fat_32 b)),
      bytes ''  Root cluster: '' @ show_dec (unat (root_cluster b))]"

fun println_lines :: "'s disk_ops \<Rightarrow> u8 list list \<Rightarrow> ('s, unit) io" where
  "println_lines D [] = io_ret ()"
| "println_lines D (l # ls) = io_bind (d_println D l) (\<lambda>_. println_lines D ls)"

definition BootSector_read :: "'s disk_ops \<Rightarrow> ('s, (BootSector, string) result) io" where
  "BootSector_read D =
     io_bind (d_read D 0) (\<lambda>sector.
     if sector ! 510 \<noteq> 0x55 \<or> sector ! 511 \<noteq> 0xAA then io_ret (Err ''Invalid FAT32 boot signature'')
     else
       let b = \<lparr>bytes_per_sector = get_u16 sector 0x0B,
         sectors_per_cluster = sector ! 0x0D,
         reserved_sectors = get_u16 sector 0x0E,
         num_fats = sector ! 0x10,
         total_sectors_32 = get_u32 sector 0x20,
         sectors_per_fat_32 = get_u32 sector 0x24,
         root_cluster = get_u32 sector 0x2C\<rparr>
       in io_bind (println_lines D (boot_lines b)) (\<lambda>_. io_ret (Ok b)))"

definition fat_start_sector :: "BootSector \<Rightarrow> u32" where
  "fat_start_sector b = ucast (reserved_sectors b)"

definition data_start_sector :: "bool \<Rightarrow> BootSector \<Rightarrow> u32 outcome" where
  "data_start_sector oc b =
     obind (mul_oc oc (ucast (num_fats b)) (sectors_per_fat_32 b)) (\<lambda>fats.
     add_oc oc (ucast (reserved_sectors b)) fats)"

definition cluster_to_sector :: "bool \<Rightarrow> BootSector \<Rightarrow> u32 \<Rightarrow> u32 outcome" where
  "cluster_to_sector oc b cluster =
     obind (data_start_sector oc b) (\<lambda>data_start.
     obind (sub_oc oc cluster 2) (\<lambda>index.
     obind (mul_oc oc index (ucast (sectors_per_cluster b))) (\<lambda>offset.
     add_oc oc data_start offset)))"

section \<open>Directory entries\<close>

record DirEntry =
  de_name :: "u8 list"
  attributes :: u8
  first_cluster :: u32
  file_size :: u32

definition is_directory :: "DirEntry \<Rightarrow> bool" where
  "is_directory e \<longleftrightarrow> attributes e AND 0x10 \<noteq> 0"

definition is_valid :: "DirEntry \<Rightarrow> bool" where
  "is_valid e \<longleftrightarrow> de_name e ! 0 \<noteq> 0x00 \<and> de_name e ! 0 \<noteq> 0xE5"

fun push_name :: "u8 list \<Rightarrow> string \<Rightarrow> string" where
  "push_name [] name = name"
| "push_name (b # bs) name =
     (if b \<noteq> 0x20 \<and> b \<noteq> 0 then push_name bs (name @ [char_of (unat b)]) else push_name bs name)"

definition get_name :: "DirEntry \<Rightarrow> string" where
  "get_name e = push_name (drop 8 (take 11 (de_name e))) (push_name (take 8 (de_name e)) [] @ [CHR ''.''])"

section \<open>Reading\<close>

text \<open>A \<open>Fat32\<close> holds nothing but its boot sector.\<close>

type_synonym Fat32 = BootSector

definition Fat32_new :: "'s disk_ops \<Rightarrow> ('s, (Fat32, string) result) io" where
  "Fat32_new D = io_try (BootSector_read D) (\<lambda>boot_sector. io_ret (Ok boot_sector))"

definition MAX_ITERATIONS :: nat where
  "MAX_ITERATIONS = 10000"

text \<open>The loop of \<open>follow_cluster_chain\<close>, with the number of iterations left.\<close>

fun follow_loop ::
  "bool \<Rightarrow> 's disk_ops \<Rightarrow> Fat32 \<Rightarrow> nat \<Rightarrow> u32 \<Rightarrow> u32 list \<Rightarrow> ('s, (u32 list, string) result) io" where
  "follow_loop oc D b 0 current clusters = io_ret (Err ''Cluster chain too long or infinite loop'')"
| "follow_loop oc D b (Suc n) current clusters =
     (let clusters = clusters @ [current];
          fat_entry_offset = unat current * 4;
          fat_sector_index = fat_entry_offset div 512;
          fat_offset = fat_entry_offset mod 512
      in io_bind (io_lift (add_oc oc (fat_start_sector b) (of_nat fat_sector_index))) (\<lambda>fat_sector_number.
         io_bind (d_read D fat_sector_number) (\<lambda>fat_data.
         let next_cluster = get_u32 fat_data fat_offset
         in if 0x0FFFFFF8 \<le> next_cluster then io_ret (Ok clusters)
            else follow_loop oc D b n next_cluster clusters)))"

definition follow_cluster_chain ::
  "bool \<Rightarrow> 's disk_ops \<Rightarrow> Fat32 \<Rightarrow> u32 \<Rightarrow> ('s, (u32 list, string) result) io" where
  "follow_cluster_chain oc D b start_cluster = follow_loop oc D b MAX_ITERATIONS start_cluster []"

fun read_sector_run :: "bool \<Rightarrow> 's disk_ops \<Rightarrow> u32 \<Rightarrow> nat list \<Rightarrow> u8 list \<Rightarrow> ('s, u8 list) io" where
  "read_sector_run oc D cluster_sector [] data = io_ret data"
| "read_sector_run oc D cluster_sector (i # is) data =
     io_bind (io_lift (add_oc oc cluster_sector (of_nat i))) (\<lambda>lba.
     io_bind (d_read D lba) (\<lambda>sector.
     read_sector_run oc D cluster_sector is (data @ sector)))"

fun read_clusters :: "bool \<Rightarrow> 's disk_ops \<Rightarrow> Fat32 \<Rightarrow> u32 list \<Rightarrow> u8 list \<Rightarrow> ('s, u8 list) io" where
  "read_clusters oc D b [] data = io_ret data"
| "read_clusters oc D b (cluster # clusters) data =
     io_bind (io_lift (cluster_to_sector oc b cluster)) (\<lambda>cluster_sector.
     io_bind (read_sector_run oc D cluster_sector [0..<unat (sectors_per_cluster b)] data) (\<lambda>data.
     read_clusters oc D b clusters data))"

definition read_file :: "bool \<Rightarrow> 's disk_ops \<Rightarrow> Fat32 \<Rightarrow> DirEntry \<Rightarrow> ('s, (u8 list, string) result) io" where
  "read_file oc D b entry =
     io_try (follow_cluster_chain oc D b (first_cluster entry)) (\<lambda>clusters.
     io_bind (read_clusters oc D b clusters []) (\<lambda>data.
     io_ret (Ok (take (unat (file_size entry)) data))))"

definition parse_entry :: "u8 list \<Rightarrow> nat \<Rightarrow> DirEntry" where
  "parse_entry sector entry_index =
     (let offset = entry_index * 32;
          name = copy_slice (replicate 11 0) 0 (take 11 (drop offset sector));
          low_cluster = ucast (get_u16 sector (offset + 26)) :: u32;
          high_cluster = ucast (get_u16 sector (offset + 20)) :: u32
      in \<lparr>de_name = name,
          attributes = sector ! (offset + 11),
          first_cluster = push_bit 16 high_cluster OR low_cluster,
          file_size = get_u32 sector (offset + 28)\<rparr>)"

fun scan_entries :: "u8 list \<Rightarrow> nat list \<Rightarrow> DirEntry list \<Rightarrow> DirEntry list" where
  "scan_entries sector [] entries = entries"
| "scan_entries sector (i # is) entries =
     (let entry = parse_entry sector i
      in scan_entries sector is (if is_valid entry then entries @ [entry] else entries))"

fun list_sector_run :: "bool \<Rightarrow> 's disk_ops \<Rightarrow> u32 \<Rightarrow> nat list \<Rightarrow> DirEntry list \<Rightarrow> ('s, DirEntry list) io" where
  "list_sector_run oc D cluster_sector [] entries = io_ret entries"
| "list_sector_run oc D cluster_sector (i # is) entries =
     io_bind (io_lift (add_oc oc cluster_sector (of_nat i))) (\<lambda>lba.
     io_bind (d_read D lba) (\<lambda>sector.
     list_sector_run oc D cluster_sector is (scan_entries sector [0..<16] entries)))"

fun list_clusters :: "bool \<Rightarrow> 's disk_ops \<Rightarrow> Fat32 \<Rightarrow> u32 list \<Rightarrow> DirEntry list \<Rightarrow> ('s, DirEntry list) io" where
  "list_clusters oc D b [] entries = io_ret entries"
| "list_clusters oc D b (cluster # clusters) entries =
     io_bind (io_lift (cluster_to_sector oc b cluster)) (\<lambda>cluster_sector.
     io_bind (list_sector_run oc D cluster_sector [0..<unat (sectors_per_cluster b)] entries) (\<lambda>entries.
     list_clusters oc D b clusters entries))"

definition list_directory :: "bool \<Rightarrow> 's disk_ops \<Rightarrow> Fat32 \<Rightarrow> u32 \<Rightarrow> ('s, (DirEntry list, string) result) io" where
  "list_directory oc D b cluster =
     io_try (follow_cluster_chain oc D b cluster) (\<lambda>clusters.
     io_bind (list_clusters oc D b clusters []) (\<lambda>entries. io_ret (Ok entries)))"

definition list_root_directory :: "bool \<Rightarrow> 's disk_ops \<Rightarrow> Fat32 \<Rightarrow> ('s, (DirEntry list, string) result) io" where
  "list_root_directory oc D b = list_directory oc D b (root_cluster b)"

section \<open>Writing\<close>

text \<open>
  \<open>find_free_cluster\<close>: the loop over the 128 entries of a FAT sector, and the loop over the sectors
  with the index of the next one and the number of sectors left.
\<close>

fun scan_free :: "bool \<Rightarrow> u32 \<Rightarrow> u8 list \<Rightarrow> nat list \<Rightarrow> u32 option outcome" where
  "scan_free oc fat_sector_idx fat_data [] = Ret None"
| "scan_free oc fat_sector_idx fat_data (off # offs) =
     (if get_u32 fat_data off = 0 then
        obind (mul_oc oc fat_sector_idx 512) (\<lambda>base.
        obind (add_oc oc base (of_nat off)) (\<lambda>pos.
        let cluster_index = pos div 4
        in if 2 \<le> cluster_index then Ret (Some cluster_index) else scan_free oc fat_sector_idx fat_data offs))
      else scan_free oc fat_sector_idx fat_data offs)"

fun find_free_loop ::
  "bool \<Rightarrow> 's disk_ops \<Rightarrow> Fat32 \<Rightarrow> nat \<Rightarrow> nat \<Rightarrow> ('s, (u32, string) result) io" where
  "find_free_loop oc D b fat_sector_idx 0 = io_ret (Err ''No free clusters available'')"
| "find_free_loop oc D b fat_sector_idx (Suc n) =
     io_bind (io_lift (add_oc oc (fat_start_sector b) (of_nat fat_sector_idx))) (\<lambda>fat_sector_number.
     io_bind (d_read D fat_sector_number) (\<lambda>fat_data.
     io_bind (io_lift (scan_free oc (of_nat fat_sector_idx) fat_data (map ((*) 4) [0..<128]))) (\<lambda>found.
     case found of
       Some cluster_index \<Rightarrow> io_ret (Ok cluster_index)
     | None \<Rightarrow> find_free_loop oc D b (Suc fat_sector_idx) n)))"

definition find_free_cluster :: "bool \<Rightarrow> 's disk_ops \<Rightarrow> Fat32 \<Rightarrow> ('s, (u32, string) result) io" where
  "find_free_cluster oc D b = find_free_loop oc D b 0 (unat (sectors_per_fat_32 b))"

definition set_fat_entry ::
  "bool \<Rightarrow> 's disk_ops \<Rightarrow> Fat32 \<Rightarrow> u32 \<Rightarrow> u32 \<Rightarrow> ('s, (unit, string) result) io" where
  "set_fat_entry oc D b cluster value =
     (let fat_entry_offset = unat cluster * 4;
          fat_sector_index = fat_entry_offset div 512;
          fat_offset = fat_entry_offset mod 512
      in io_bind (io_lift (add_oc oc (fat_start_sector b) (of_nat fat_sector_index))) (\<lambda>fat_sector_number.
         io_bind (d_read D fat_sector_number) (\<lambda>fat_data.
         let value_bytes = u32_to_le_bytes value;
             fat_data = fat_data[fat_offset := value_bytes ! 0, fat_offset + 1 := value_bytes ! 1,
               fat_offset + 2 := value_bytes ! 2, fat_offset + 3 := value_bytes ! 3]
         in io_try (d_write D fat_sector_number fat_data) (\<lambda>_.
            if 1 < num_fats b then
              io_bind (io_lift (add_oc oc fat_sector_number (sectors_per_fat_32 b))) (\<lambda>backup_fat_sector.
              io_try (d_write D backup_fat_sector fat_data) (\<lambda>_. io_ret (Ok ())))
            else io_ret (Ok ())))))"

definition allocate_cluster ::
  "bool \<Rightarrow> 's disk_ops \<Rightarrow> Fat32 \<Rightarrow> u32 option \<Rightarrow> u32 option \<Rightarrow> ('s, (u32, string) result) io" where
  "allocate_cluster oc D b previous_cluster next_cluster =
     io_try (find_free_cluster oc D b) (\<lambda>new_cluster.
     io_try (case previous_cluster of
         Some prev \<Rightarrow> set_fat_entry oc D b prev new_cluster
       | None \<Rightarrow> io_ret (Ok ())) (\<lambda>_.
     io_try (case next_cluster of
         None \<Rightarrow> set_fat_entry oc D b new_cluster 0x0FFFFFF8
       | Some next \<Rightarrow> set_fat_entry oc D b new_cluster next) (\<lambda>_.
     io_ret (Ok new_cluster))))"

text \<open>\<open>str::split\<close> on a character, on the UTF-8 bytes of the name.\<close>

fun split_on :: "'a \<Rightarrow> 'a list \<Rightarrow> 'a list list" where
  "split_on c [] = [[]]"
| "split_on c (x # xs) = (if x = c then [] # split_on c xs
     else (case split_on c xs of p # ps \<Rightarrow> (x # p) # ps | [] \<Rightarrow> [[x]]))"

definition pad_spaces :: "u8 list \<Rightarrow> nat list \<Rightarrow> u8 list" where
  "pad_spaces entry is = fold (\<lambda>i e. e[i := 0x20]) is entry"

definition create_dir_entry :: "u8 list \<Rightarrow> u32 \<Rightarrow> u32 \<Rightarrow> u8 list" where
  "create_dir_entry name start len =
     (let entry = replicate 32 0;
          parts = split_on 0x2E name;
          base_name = (if 0 < length parts then parts ! 0 else []);
          ext = (if 1 < length parts then parts ! 1 else []);
          entry = copy_slice entry 0 (take 8 base_name);
          entry = pad_spaces entry [length base_name..<8];
          entry = copy_slice entry 8 (take 3 ext);
          entry = pad_spaces entry (map ((+) 8) [length ext..<3]);
          entry = entry[11 := 0x20];
          high_cluster = ucast (drop_bit 16 start AND 0xFFFF) :: u16;
          entry = copy_slice entry 20 (u16_to_le_bytes high_cluster);
          low_cluster = ucast (start AND 0xFFFF) :: u16;
          entry = copy_slice entry 26 (u16_to_le_bytes low_cluster);
          entry = copy_slice entry 28 (u32_to_le_bytes len)
      in entry)"

text \<open>The first free slot of a directory sector, among the entry indices given.\<close>

fun free_slot :: "u8 list \<Rightarrow> nat list \<Rightarrow> nat option" where
  "free_slot sector [] = None"
| "free_slot sector (i # is) =
     (if sector ! (i * 32) = 0x00 \<or> sector ! (i * 32) = 0xE5 then Some i else free_slot sector is)"

text \<open>The loops of \<open>write_dir_entry\<close> return whether the entry has been written.\<close>

fun write_slot_run ::
  "bool \<Rightarrow> 's disk_ops \<Rightarrow> u8 list \<Rightarrow> u32 \<Rightarrow> nat list \<Rightarrow> ('s, (bool, string) result) io" where
  "write_slot_run oc D entry cluster_sector [] = io_ret (Ok False)"
| "write_slot_run oc D entry cluster_sector (i # is) =
     io_bind (io_lift (add_oc oc cluster_sector (of_nat i))) (\<lambda>lba.
     io_bind (d_read D lba) (\<lambda>sector.
     case free_slot sector [0..<16] of
       Some entry_index \<Rightarrow>
         io_try (d_write D lba (copy_slice sector (entry_index * 32) entry)) (\<lambda>_. io_ret (Ok True))
     | None \<Rightarrow> write_slot_run oc D entry cluster_sector is))"

fun write_slot_clusters ::
  "bool \<Rightarrow> 's disk_ops \<Rightarrow> Fat32 \<Rightarrow> u8 list \<Rightarrow> u32 list \<Rightarrow> ('s, (unit, string) result) io" where
  "write_slot_clusters oc D b entry [] = io_ret (Err ''No free directory entries available'')"
| "write_slot_clusters oc D b entry (cluster_num # clusters) =
     io_bind (io_lift (cluster_to_sector oc b cluster_num)) (\<lambda>cluster_sector.
     io_try (write_slot_run oc D entry cluster_sector [0..<unat (sectors_per_cluster b)]) (\<lambda>written.
     if written then io_ret (Ok ()) else write_slot_clusters oc D b entry clusters))"

definition write_dir_entry ::
  "bool \<Rightarrow> 's disk_ops \<Rightarrow> Fat32 \<Rightarrow> u32 \<Rightarrow> u8 list \<Rightarrow> ('s, (unit, string) result) io" where
  "write_dir_entry oc D b directory_cluster entry =
     io_try (follow_cluster_chain oc D b directory_cluster) (\<lambda>clusters.
     write_slot_clusters oc D b entry clusters)"

text \<open>\<open>slice::chunks\<close>; its panic on a chunk size of zero is in \<open>create_file\<close>.\<close>

function chunks :: "nat \<Rightarrow> 'a list \<Rightarrow> 'a list list" where
  "chunks n xs = (if xs = [] \<or> n = 0 then [] else take n xs # chunks n (drop n xs))"
  by pat_completeness auto
termination by (relation "measure (\<lambda>(n, xs). length xs)") auto

fun write_chunks ::
  "bool \<Rightarrow> 's disk_ops \<Rightarrow> Fat32 \<Rightarrow> u8 list list \<Rightarrow> u32 option \<Rightarrow> u32 option \<Rightarrow>
   ('s, (u32 option, string) result) io" where
  "write_chunks oc D b [] current_cluster first = io_ret (Ok first)"
| "write_chunks oc D b (chunk # rest) current_cluster first =
     io_try (allocate_cluster oc D b current_cluster None) (\<lambda>new_cluster.
     let first = (if first = None then Some new_cluster else first)
     in io_bind (io_lift (cluster_to_sector oc b new_cluster)) (\<lambda>cluster_sector.
        let sector_data = copy_slice (replicate 512 0) 0 (take 512 chunk)
        in io_try (d_write D cluster_sector sector_data) (\<lambda>_.
           write_chunks oc D b rest (Some new_cluster) first)))"

definition create_file ::
  "bool \<Rightarrow> 's disk_ops \<Rightarrow> Fat32 \<Rightarrow> u32 \<Rightarrow> u8 list \<Rightarrow> u8 list \<Rightarrow> ('s, (unit, string) result) io" where
  "create_file oc D b directory_cluster name data =
     (if 12 < length name then io_ret (Err ''Filename too long'')
      else if sectors_per_cluster b = 0 then io_panic ''chunk size must be non-zero''
      else
        io_try (write_chunks oc D b (chunks (512 * unat (sectors_per_cluster b)) data) None None) (\<lambda>first.
        let entry = create_dir_entry name (case first of Some c \<Rightarrow> c | None \<Rightarrow> 0) (of_nat (length data))
        in io_try (write_dir_entry oc D b directory_cluster entry) (\<lambda>_. io_ret (Ok ()))))"

declare chunks.simps [simp del]

end
