(* ===== verification/Fat32_Read.thy ===== *)
theory Fat32_Read
  imports Fat32
begin

text \<open>
  Correctness of the reading half of \<open>src/fs/fat32.rs\<close>, for every device that keeps the contract
  \<open>sector_disk\<close>; the contract is interpreted on the ATA driver of the repository. \<open>dsk s\<close> is the
  content of the disk, a function from sector numbers to 512 bytes.
\<close>

section \<open>The contract of the device\<close>

locale sector_disk =
  fixes D :: "'s disk_ops" and ok :: "'s \<Rightarrow> bool" and dsk :: "'s \<Rightarrow> u32 \<Rightarrow> u8 list"
  assumes length_law: "ok s \<Longrightarrow> length (dsk s l) = 512"
    and rd_law: "ok s \<Longrightarrow> unat l < 2 ^ 28 \<Longrightarrow> \<exists>s'. d_read D l s = (Ret (dsk s l), s') \<and> ok s' \<and> dsk s' = dsk s"
    and println_law: "ok s \<Longrightarrow> \<exists>s'. d_println D line s = (Ret (), s') \<and> ok s' \<and> dsk s' = dsk s"

definition ata_ops ::
  "('p, 'q, 'k, 'w) ata_env \<Rightarrow> ('p \<Rightarrow> bool) \<Rightarrow> 'w \<Rightarrow> nat \<Rightarrow> ('p, 'q, 'k, 'w) ata_state disk_ops" where
  "ata_ops E irq w n = \<lparr>d_read = read_sector_async E irq w n, d_write = write_sector_async E irq w n,
     d_println = (\<lambda>line. log_msg (ClientLine line))\<rparr>"

lemma take_bit_28: "unat (l :: u32) < 2 ^ 28 \<Longrightarrow> take_bit 28 l = l"
  by (simp add: word_unat_eq_iff unsigned_take_bit_eq take_bit_nat_eq_self)

lemma ata_sector_disk:
  assumes "ata_disk E irq ready img registered" and "2 \<le> n"
  shows "sector_disk (ata_ops E irq w n) (ata_idle ready) (\<lambda>s. img (ports s))"
proof
  fix s :: "('a, 'b, 'c, 'd) ata_state" and l :: u32
  assume i: "ata_idle ready s"
  have "ata_device (env_ports E) irq ready img" using assms(1) by (simp add: ata_disk_def)
  then show "length (img (ports s) l) = 512"
    using i by (simp add: ata_idle_def ata_device.sector_law)
  show "\<exists>s'. d_println (ata_ops E irq w n) line s = (Ret (), s') \<and> ata_idle ready s' \<and> img (ports s') = img (ports s)" for line
    using i by (simp add: ata_ops_def log_msg_def ata_idle_def)
  assume "unat l < 2 ^ 28"
  then show "\<exists>s'. d_read (ata_ops E irq w n) l s = (Ret (img (ports s) l), s') \<and> ata_idle ready s' \<and> img (ports s') = img (ports s)"
    using ata_disk.read_sector_async_ok [OF assms(1) i assms(2), of w l] by (simp add: ata_ops_def take_bit_28)
qed

interpretation ata_fs: sector_disk "ata_ops ctl_env (ctl_irq level) w (Suc (Suc n))" "ata_idle ctl_ready" "\<lambda>s. c_image (ports s)"
  for level w n
  by (rule ata_sector_disk [OF ctl_disk.ata_disk_axioms]) simp

section \<open>What is on the disk\<close>

text \<open>Sector numbers, and the place of the entry of a cluster in the first FAT.\<close>

definition sect :: "nat \<Rightarrow> u32" where
  "sect n = of_nat n"

definition fat_sector :: "Fat32 \<Rightarrow> u32 \<Rightarrow> nat" where
  "fat_sector b c = unat (reserved_sectors b) + unat c * 4 div 512"

definition fat_offset :: "u32 \<Rightarrow> nat" where
  "fat_offset c = unat c * 4 mod 512"

definition fat_entry :: "Fat32 \<Rightarrow> (u32 \<Rightarrow> u8 list) \<Rightarrow> u32 \<Rightarrow> u32" where
  "fat_entry b d c = get_u32 (d (sect (fat_sector b c))) (fat_offset c)"

text \<open>A chain of clusters: each entry names the next cluster, the last one is an end mark.\<close>

inductive fat_chain :: "(u32 \<Rightarrow> u32) \<Rightarrow> u32 \<Rightarrow> u32 list \<Rightarrow> bool" for f :: "u32 \<Rightarrow> u32" where
  last: "0x0FFFFFF8 \<le> f c \<Longrightarrow> fat_chain f c [c]"
| link: "f c < 0x0FFFFFF8 \<Longrightarrow> fat_chain f (f c) cs \<Longrightarrow> fat_chain f c (c # cs)"

inductive_cases fat_chainE: "fat_chain f c cs"

inductive_simps fat_chain_Nil: "fat_chain f c []"
inductive_simps fat_chain_Cons: "fat_chain f c (x # xs)"

fun chain_from :: "(u32 \<Rightarrow> u32) \<Rightarrow> nat \<Rightarrow> u32 \<Rightarrow> u32 list option" where
  "chain_from f 0 c = None"
| "chain_from f (Suc n) c =
     (if 0x0FFFFFF8 \<le> f c then Some [c] else map_option (Cons c) (chain_from f n (f c)))"

lemma chain_from_iff: "chain_from f n c = Some cs \<longleftrightarrow> fat_chain f c cs \<and> length cs \<le> n"
proof (induction n arbitrary: c cs)
  case 0
  then show ?case by (auto elim: fat_chain.cases)
next
  case (Suc n)
  then show ?case by (cases cs) (auto simp: fat_chain_Nil fat_chain_Cons not_le)
qed

lemma fat_chain_unique: "fat_chain f c cs \<Longrightarrow> fat_chain f c cs' \<Longrightarrow> cs = cs'"
  using chain_from_iff [of f "max (length cs) (length cs')" c cs] chain_from_iff [of f "max (length cs) (length cs')" c cs']
  by simp

text \<open>Where a cluster lies, and that all of it can be addressed.\<close>

definition cluster_start :: "Fat32 \<Rightarrow> u32 \<Rightarrow> nat" where
  "cluster_start b c = unat (reserved_sectors b) + unat (num_fats b) * unat (sectors_per_fat_32 b) +
     (unat c - 2) * unat (sectors_per_cluster b)"

definition cluster_ok :: "Fat32 \<Rightarrow> u32 \<Rightarrow> bool" where
  "cluster_ok b c \<longleftrightarrow> 2 \<le> unat c \<and> cluster_start b c + unat (sectors_per_cluster b) \<le> 2 ^ 28"

definition cluster_data :: "Fat32 \<Rightarrow> (u32 \<Rightarrow> u8 list) \<Rightarrow> u32 \<Rightarrow> u8 list" where
  "cluster_data b d c = concat (map (\<lambda>i. d (sect (cluster_start b c + i))) [0..<unat (sectors_per_cluster b)])"

definition chain_data :: "Fat32 \<Rightarrow> (u32 \<Rightarrow> u8 list) \<Rightarrow> u32 list \<Rightarrow> u8 list" where
  "chain_data b d cs = concat (map (cluster_data b d) cs)"

lemma cluster_to_sector_ok:
  assumes "cluster_ok b c"
  shows "cluster_to_sector oc b c = Ret (sect (cluster_start b c))"
proof -
  let ?m = "unat (num_fats b) * unat (sectors_per_fat_32 b)"
  let ?k = "(unat c - 2) * unat (sectors_per_cluster b)"
  have c: "2 \<le> unat c" "unat (reserved_sectors b) + ?m + ?k \<le> 2 ^ 28"
    using assms by (simp_all add: cluster_ok_def cluster_start_def)
  have u: "unat (ucast (num_fats b) :: u32) = unat (num_fats b)"
    "unat (ucast (reserved_sectors b) :: u32) = unat (reserved_sectors b)"
    "unat (ucast (sectors_per_cluster b) :: u32) = unat (sectors_per_cluster b)"
    by (simp_all add: unsigned_ucast_eq take_bit_nat_eq_self_iff less_le_trans [OF unsigned_less])
  have m: "unat (ucast (num_fats b) * sectors_per_fat_32 b) = ?m"
    using c(2) u by (simp add: unat_mul_nowrap)
  have i: "unat (c - 2) = unat c - 2" using c(1) by (simp add: unat_sub_nowrap)
  have k: "unat ((c - 2) * ucast (sectors_per_cluster b)) = ?k"
    using c(2) u i by (simp add: unat_mul_nowrap)
  have s: "unat (ucast (reserved_sectors b) + ucast (num_fats b) * sectors_per_fat_32 b) = unat (reserved_sectors b) + ?m"
    using c(2) u m by (simp add: unat_add_nowrap)
  have "unat (ucast (reserved_sectors b) + ucast (num_fats b) * sectors_per_fat_32 b +
      (c - 2) * ucast (sectors_per_cluster b)) = cluster_start b c"
    using c(2) s k by (subst unat_add_nowrap) (simp_all add: cluster_start_def)
  then have "ucast (reserved_sectors b) + ucast (num_fats b) * sectors_per_fat_32 b +
      (c - 2) * ucast (sectors_per_cluster b) = sect (cluster_start b c)"
    unfolding sect_def by (metis of_nat_unat ucast_id)
  then show ?thesis
    using c u m i k s by (simp add: cluster_to_sector_def data_start_sector_def arith_simps)
qed

lemma unat_sect: "n < 2 ^ 32 \<Longrightarrow> unat (sect n) = n"
  by (simp add: sect_def unat_of_nat)

lemma sect_inj: "m < 2 ^ 32 \<Longrightarrow> n < 2 ^ 32 \<Longrightarrow> sect m = sect n \<longleftrightarrow> m = n"
  by (metis unat_sect)

lemma add_oc_sect:
  assumes "m + i < 2 ^ 32"
  shows "add_oc oc (sect m) (of_nat i) = Ret (sect (m + i))"
proof -
  have "unat (of_nat i :: u32) = i" using assms by (simp add: unat_of_nat)
  then show ?thesis using assms unat_sect [of m] by (simp add: add_oc_def sect_def)
qed

lemma fat_start_sect: "fat_start_sector b = sect (unat (reserved_sectors b))"
  by (simp add: fat_start_sector_def sect_def word_unat_eq_iff unat_of_nat unsigned_ucast_eq take_bit_eq_mod)

text \<open>The sector of a FAT entry is always in the range of 28-bit addresses.\<close>

lemma fat_sector_bound: "fat_sector b c < 2 ^ 28"
proof -
  have "unat (reserved_sectors b) < 2 ^ 16" "unat c < 2 ^ 32"
    using unsigned_less [of "reserved_sectors b", where 'a = nat] unsigned_less [of c, where 'a = nat] by simp_all
  then show ?thesis by (simp add: fat_sector_def)
qed

lemma fat_offset_bound: "fat_offset c + 4 \<le> 512"
proof -
  have "fat_offset c = unat c mod 128 * 4"
    unfolding fat_offset_def using mod_mult_mult2 [of "unat c" 4 128] by simp
  moreover have "unat c mod 128 < 128" by simp
  ultimately show ?thesis by linarith
qed

lemma fat_sector_add:
  "add_oc oc (fat_start_sector b) (of_nat (unat c * 4 div 512)) = Ret (sect (fat_sector b c))"
  unfolding fat_start_sect fat_sector_def
  by (rule add_oc_sect) (use fat_sector_bound [of b c] in \<open>simp add: fat_sector_def\<close>)

lemma follow_loop_Suc:
  "follow_loop oc D b (Suc n) c acc = io_bind (d_read D (sect (fat_sector b c))) (\<lambda>fat_data.
     if 0x0FFFFFF8 \<le> get_u32 fat_data (fat_offset c) then io_ret (Ok (acc @ [c]))
     else follow_loop oc D b n (get_u32 fat_data (fat_offset c)) (acc @ [c]))"
  by (simp only: follow_loop.simps Let_def fat_sector_add fat_offset_def io_bind_basic)

declare follow_loop.simps(2) [simp del]

lemma scan_entries_eq: "scan_entries sector is es = es @ filter is_valid (map (parse_entry sector) is)"
  by (induction "is" arbitrary: es) (auto simp: Let_def)

context sector_disk
begin

lemma rdE:
  assumes "ok s" and "unat l < 2 ^ 28"
  obtains s' where "d_read D l s = (Ret (dsk s l), s')" and "ok s'" and "dsk s' = dsk s"
  using rd_law [OF assms] by blast

lemma rd_sectE:
  assumes "ok s" and "n < 2 ^ 28"
  obtains s' where "d_read D (sect n) s = (Ret (dsk s (sect n)), s')" and "ok s'" and "dsk s' = dsk s"
proof (rule rdE [OF assms(1), of "sect n"])
  show "unat (sect n) < 2 ^ 28" using assms(2) by (simp add: unat_sect)
qed (rule that)

lemma follow_loop_ok:
  assumes "ok s"
  shows "\<exists>s'. follow_loop oc D b n c acc s = (Ret (case chain_from (fat_entry b (dsk s)) n c of
      Some cs \<Rightarrow> Ok (acc @ cs) | None \<Rightarrow> Err ''Cluster chain too long or infinite loop''), s') \<and>
    ok s' \<and> dsk s' = dsk s"
  using assms
proof (induction n arbitrary: c acc s)
  case 0
  then show ?case by simp
next
  case (Suc n)
  obtain s1 where s1: "d_read D (sect (fat_sector b c)) s = (Ret (dsk s (sect (fat_sector b c))), s1)"
      "ok s1" "dsk s1 = dsk s"
    by (rule rd_sectE [OF Suc.prems fat_sector_bound])
  then have step: "follow_loop oc D b (Suc n) c acc s =
      (if 0x0FFFFFF8 \<le> fat_entry b (dsk s) c then (Ret (Ok (acc @ [c])), s1)
       else follow_loop oc D b n (fat_entry b (dsk s) c) (acc @ [c]) s1)"
    by (simp add: follow_loop_Suc io_bind_def fat_entry_def)
  show ?case
    using Suc.IH [OF s1(2), of "fat_entry b (dsk s) c" "acc @ [c]"] s1(2,3)
    by (auto simp: step split: option.splits)
qed

lemma follow_ok:
  assumes "ok s"
  shows "\<exists>s'. follow_cluster_chain oc D b c s = (Ret (case chain_from (fat_entry b (dsk s)) MAX_ITERATIONS c of
      Some cs \<Rightarrow> Ok cs | None \<Rightarrow> Err ''Cluster chain too long or infinite loop''), s') \<and> ok s' \<and> dsk s' = dsk s"
  using follow_loop_ok [OF assms, of oc b MAX_ITERATIONS c "[]"] by (simp add: follow_cluster_chain_def split: option.splits)

lemma follow_chain:
  assumes "ok s" and "fat_chain (fat_entry b (dsk s)) c cs" and "length cs \<le> MAX_ITERATIONS"
  obtains s' where "follow_cluster_chain oc D b c s = (Ret (Ok cs), s')" and "ok s'" and "dsk s' = dsk s"
  using follow_ok [OF assms(1), of oc b c] assms(2,3) chain_from_iff [of "fat_entry b (dsk s)" MAX_ITERATIONS c cs] by auto

lemma read_sector_run_ok:
  assumes "ok s" and "\<forall>i \<in> set js. m + i < 2 ^ 28"
  shows "\<exists>s'. read_sector_run oc D (sect m) js acc s = (Ret (acc @ concat (map (\<lambda>i. dsk s (sect (m + i))) js)), s') \<and>
    ok s' \<and> dsk s' = dsk s"
  using assms
proof (induction js arbitrary: acc s)
  case Nil
  then show ?case by simp
next
  case (Cons i js)
  from Cons.prems(2) have b: "m + i < 2 ^ 28" by simp
  from rd_sectE [OF Cons.prems(1) this] obtain s1 where
    s1: "d_read D (sect (m + i)) s = (Ret (dsk s (sect (m + i))), s1)" "ok s1" "dsk s1 = dsk s" by blast
  have "add_oc oc (sect m) (of_nat i) = Ret (sect (m + i))"
    using b by (intro add_oc_sect) simp
  then show ?case
    using Cons.IH [OF s1(2), of "acc @ dsk s (sect (m + i))"] Cons.prems(2) s1
    by (simp add: io_bind_def)
qed

lemma cluster_sectors: "cluster_ok b c \<Longrightarrow> \<forall>i \<in> set [0..<unat (sectors_per_cluster b)]. cluster_start b c + i < 2 ^ 28"
  by (auto simp: cluster_ok_def)

lemma read_clusters_ok:
  assumes "ok s" and "list_all (cluster_ok b) cs"
  shows "\<exists>s'. read_clusters oc D b cs acc s = (Ret (acc @ chain_data b (dsk s) cs), s') \<and> ok s' \<and> dsk s' = dsk s"
  using assms
proof (induction cs arbitrary: acc s)
  case Nil
  then show ?case by (simp add: chain_data_def)
next
  case (Cons c cs)
  then have ok: "cluster_ok b c" by simp
  obtain s1 where s1: "read_sector_run oc D (sect (cluster_start b c)) [0..<unat (sectors_per_cluster b)] acc s =
      (Ret (acc @ cluster_data b (dsk s) c), s1)" "ok s1" "dsk s1 = dsk s"
    using read_sector_run_ok [OF Cons.prems(1) cluster_sectors [OF ok], of oc acc] by (auto simp: cluster_data_def)
  have "list_all (cluster_ok b) cs" using Cons.prems by simp
  from Cons.IH [OF s1(2) this, of "acc @ cluster_data b (dsk s) c"] show ?case
    using s1 by (simp add: cluster_to_sector_ok [OF ok] io_bind_def chain_data_def)
qed

lemma read_file_ok:
  assumes "ok s" and "fat_chain (fat_entry b (dsk s)) (first_cluster e) cs" and "length cs \<le> MAX_ITERATIONS"
    and "list_all (cluster_ok b) cs"
  shows "\<exists>s'. read_file oc D b e s = (Ret (Ok (take (unat (file_size e)) (chain_data b (dsk s) cs))), s') \<and>
    ok s' \<and> dsk s' = dsk s"
proof -
  obtain s1 where s1: "follow_cluster_chain oc D b (first_cluster e) s = (Ret (Ok cs), s1)" "ok s1" "dsk s1 = dsk s"
    by (rule follow_chain [OF assms(1-3)])
  from read_clusters_ok [OF s1(2) assms(4), of oc "[]"] s1(3) obtain s2 where
    "read_clusters oc D b cs [] s1 = (Ret (chain_data b (dsk s) cs), s2)" "ok s2" "dsk s2 = dsk s" by auto
  then show ?thesis using s1 by (simp add: read_file_def io_try_def io_bind_def)
qed

end

section \<open>Directories\<close>

text \<open>The entries of a directory whose clusters, put together, are the given bytes.\<close>

definition dir_entries :: "u8 list \<Rightarrow> DirEntry list" where
  "dir_entries data = filter is_valid (map (parse_entry data) [0..<length data div 32])"

lemma parse_entry_cong:
  assumes "\<forall>j < 32. xs ! (i * 32 + j) = ys ! (k * 32 + j)" and "i * 32 + 32 \<le> length xs" and "k * 32 + 32 \<le> length ys"
  shows "parse_entry xs i = parse_entry ys k"
proof -
  have "take 11 (drop (i * 32) xs) = take 11 (drop (k * 32) ys)"
    using assms by (intro nth_equalityI) auto
  then show ?thesis
    using assms(1) [rule_format, of 11] assms(1) [rule_format, of 20] assms(1) [rule_format, of 21]
      assms(1) [rule_format, of 26] assms(1) [rule_format, of 27] assms(1) [rule_format, of 28]
      assms(1) [rule_format, of 29] assms(1) [rule_format, of 30] assms(1) [rule_format, of 31]
    by (simp add: parse_entry_def get_u16_def get_u32_def Let_def add.commute [of "i * 32"] add.commute [of "k * 32"])
qed

lemma dir_entries_append:
  assumes "32 dvd length xs"
  shows "dir_entries (xs @ ys) = dir_entries xs @ dir_entries ys"
proof -
  obtain n where n: "length xs = 32 * n" using assms by blast
  have l: "parse_entry (xs @ ys) i = parse_entry xs i" if "i < n" for i
    using that n by (intro parse_entry_cong) (auto simp: nth_append)
  have r: "parse_entry (xs @ ys) (i + n) = parse_entry ys i" if "i < length ys div 32" for i
  proof (rule parse_entry_cong)
    have "i * 32 + 32 \<le> length ys" using that by (simp add: less_eq_div_iff_mult_less_eq Suc_le_eq [symmetric] mult.commute)
    then show "(i + n) * 32 + 32 \<le> length (xs @ ys)" "i * 32 + 32 \<le> length ys"
      "\<forall>j<32. (xs @ ys) ! ((i + n) * 32 + j) = ys ! (i * 32 + j)"
      using n by (auto simp: nth_append algebra_simps)
  qed
  have "(length xs + length ys) div 32 = n + length ys div 32" using n by simp
  then have "[0..<length (xs @ ys) div 32] = [0..<n] @ map (\<lambda>i. i + n) [0..<length ys div 32]"
    using upt_add_eq_append [of 0 n "length ys div 32"] map_add_upt [of n "length ys div 32"] by (simp add: add.commute)
  moreover have "map (parse_entry (xs @ ys)) [0..<n] = map (parse_entry xs) [0..<n]" using l by simp
  moreover have "map (\<lambda>i. parse_entry (xs @ ys) (i + n)) [0..<length ys div 32] =
      map (parse_entry ys) [0..<length ys div 32]" using r by simp
  ultimately show ?thesis
    using n by (simp add: dir_entries_def o_def del: map_eq_conv)
qed

lemma dir_entries_concat:
  "\<forall>xs \<in> set xss. 32 dvd length xs \<Longrightarrow> dir_entries (concat xss) = concat (map dir_entries xss)"
  by (induction xss) (simp_all add: dir_entries_append, simp add: dir_entries_def)

context sector_disk
begin

lemma dir_entries_sector: "ok s \<Longrightarrow> dir_entries (dsk s l) = filter is_valid (map (parse_entry (dsk s l)) [0..<16])"
  by (simp add: dir_entries_def length_law)

lemma list_sector_run_ok:
  assumes "ok s" and "\<forall>i \<in> set js. m + i < 2 ^ 28"
  shows "\<exists>s'. list_sector_run oc D (sect m) js acc s =
      (Ret (acc @ concat (map (\<lambda>i. dir_entries (dsk s (sect (m + i)))) js)), s') \<and> ok s' \<and> dsk s' = dsk s"
  using assms
proof (induction js arbitrary: acc s)
  case Nil
  then show ?case by simp
next
  case (Cons i js)
  from Cons.prems(2) have b: "m + i < 2 ^ 28" by simp
  from rd_sectE [OF Cons.prems(1) this] obtain s1 where
    s1: "d_read D (sect (m + i)) s = (Ret (dsk s (sect (m + i))), s1)" "ok s1" "dsk s1 = dsk s" by blast
  have "add_oc oc (sect m) (of_nat i) = Ret (sect (m + i))"
    using b by (intro add_oc_sect) simp
  moreover have "scan_entries (dsk s (sect (m + i))) [0..<16] acc = acc @ dir_entries (dsk s (sect (m + i)))"
    unfolding scan_entries_eq dir_entries_sector [OF Cons.prems(1)] ..
  ultimately show ?case
    using Cons.IH [OF s1(2), of "acc @ dir_entries (dsk s (sect (m + i)))"] Cons.prems(2) s1
    by (simp add: io_bind_def del: upt_rec_numeral)
qed

lemma cluster_entries:
  assumes "ok s"
  shows "concat (map (\<lambda>i. dir_entries (dsk s (sect (m + i)))) js) = dir_entries (concat (map (\<lambda>i. dsk s (sect (m + i))) js))"
  by (subst dir_entries_concat) (auto simp: length_law [OF assms] o_def)

lemma cluster_data_length: "ok s \<Longrightarrow> length (cluster_data b (dsk s) c) = 512 * unat (sectors_per_cluster b)"
  by (simp add: cluster_data_def length_concat o_def length_law sum_list_triv)

lemma list_clusters_ok:
  assumes "ok s" and "list_all (cluster_ok b) cs"
  shows "\<exists>s'. list_clusters oc D b cs acc s = (Ret (acc @ dir_entries (chain_data b (dsk s) cs)), s') \<and> ok s' \<and> dsk s' = dsk s"
  using assms
proof (induction cs arbitrary: acc s)
  case Nil
  then show ?case by (simp add: chain_data_def dir_entries_def)
next
  case (Cons c cs)
  then have ok: "cluster_ok b c" by simp
  let ?d = "cluster_data b (dsk s) c"
  obtain s1 where s1: "list_sector_run oc D (sect (cluster_start b c)) [0..<unat (sectors_per_cluster b)] acc s =
      (Ret (acc @ dir_entries ?d), s1)" "ok s1" "dsk s1 = dsk s"
    using list_sector_run_ok [OF Cons.prems(1) cluster_sectors [OF ok], of oc acc]
    unfolding cluster_entries [OF Cons.prems(1)] cluster_data_def by blast
  have "dir_entries (chain_data b (dsk s) (c # cs)) = dir_entries ?d @ dir_entries (chain_data b (dsk s) cs)"
    using cluster_data_length [OF Cons.prems(1), of b c] by (simp add: chain_data_def dir_entries_append)
  moreover have "list_all (cluster_ok b) cs" using Cons.prems by simp
  ultimately show ?case
    using Cons.IH [OF s1(2), of "acc @ dir_entries ?d"] s1 by (simp add: cluster_to_sector_ok [OF ok] io_bind_def)
qed

lemma list_directory_ok:
  assumes "ok s" and "fat_chain (fat_entry b (dsk s)) c cs" and "length cs \<le> MAX_ITERATIONS"
    and "list_all (cluster_ok b) cs"
  shows "\<exists>s'. list_directory oc D b c s = (Ret (Ok (dir_entries (chain_data b (dsk s) cs))), s') \<and> ok s' \<and> dsk s' = dsk s"
proof -
  obtain s1 where s1: "follow_cluster_chain oc D b c s = (Ret (Ok cs), s1)" "ok s1" "dsk s1 = dsk s"
    by (rule follow_chain [OF assms(1-3)])
  from list_clusters_ok [OF s1(2) assms(4), of oc "[]"] s1(3) obtain s2 where
    "list_clusters oc D b cs [] s1 = (Ret (dir_entries (chain_data b (dsk s) cs)), s2)" "ok s2" "dsk s2 = dsk s" by auto
  then show ?thesis using s1 by (simp add: list_directory_def io_try_def io_bind_def)
qed

end

section \<open>A small volume\<close>

text \<open>
  A disk with one FAT of one sector at sector 1 and the data from sector 2: cluster 2 is the root
  directory, and the file in clusters 3 and 5 is its only entry. It makes the hypotheses of the
  properties concrete.
\<close>

definition small_boot :: Fat32 where
  "small_boot = \<lparr>bytes_per_sector = 512, sectors_per_cluster = 1, reserved_sectors = 1, num_fats = 1,
     total_sectors_32 = 130, sectors_per_fat_32 = 1, root_cluster = 2\<rparr>"

definition small_fat :: "u8 list" where
  "small_fat = concat (map u32_to_le_bytes [0x0FFFFFF8, 0x0FFFFFFF, 0x0FFFFFF8, 5, 0, 0x0FFFFFF8]) @ replicate 488 0"

definition small_dir :: "u8 list" where
  "small_dir = create_dir_entry [0x41, 0x2E, 0x42] 3 600 @ replicate 480 0"

definition small_image :: "u32 \<Rightarrow> u8 list" where
  "small_image l = (if l = 1 then small_fat else if l = 2 then small_dir else replicate 512 (ucast l))"

definition small_disk :: "(disk_ctl, nat \<times> DiskRequest list, nat option, nat) ata_state" where
  "small_disk = idle_start\<lparr>ports := blank_drive\<lparr>c_image := small_image\<rparr>\<rparr>"

lemma length_small_fat: "length small_fat = 512"
  by (simp add: small_fat_def)

lemma length_create_dir_entry [simp]: "length (create_dir_entry name c n) = 32"
proof -
  have "length (pad_spaces e js) = length e" for e js
    unfolding pad_spaces_def by (induction js arbitrary: e) auto
  then show ?thesis by (simp add: create_dir_entry_def Let_def)
qed

lemma length_small_dir: "length small_dir = 512"
  by (simp add: small_dir_def)

lemma small_disk_idle: "ata_idle ctl_ready small_disk"
  by (simp add: ata_idle_def small_disk_def idle_start_def ata_start_def SECTOR_SIZE_def ctl_ready_def
      blank_drive_def small_image_def length_small_fat length_small_dir)

lemma small_disk_image: "c_image (ports small_disk) = small_image"
  by (simp add: small_disk_def)

lemma small_fat_entry:
  "fat_entry small_boot small_image 2 = 0x0FFFFFF8"
  "fat_entry small_boot small_image 3 = 5"
  "fat_entry small_boot small_image 5 = 0x0FFFFFF8"
  "fat_entry small_boot small_image 0 = 0x0FFFFFF8"
  by (simp_all add: fat_entry_def fat_sector_def fat_offset_def small_boot_def small_image_def sect_def
      small_fat_def get_u32_def u32_to_le_bytes_def u32_from_le_bytes_def)

lemma small_chain: "fat_chain (fat_entry small_boot small_image) 3 [3, 5]"
  by (simp add: fat_chain_Cons fat_chain_Nil small_fat_entry)

lemma small_root_chain: "fat_chain (fat_entry small_boot small_image) 2 [2]"
  by (simp add: fat_chain_Cons fat_chain_Nil small_fat_entry)

lemma small_clusters_ok: "list_all (cluster_ok small_boot) [3, 5]" "list_all (cluster_ok small_boot) [2]"
  by (simp_all add: cluster_ok_def cluster_start_def small_boot_def)

section \<open>Properties\<close>

text \<open>
  C38. Following a cluster chain always ends, changes nothing on the disk, and gives exactly the chain
  recorded in the FAT; a chain of more than 10000 clusters, in particular a circular one, is an error.
\<close>

theorem follow_cluster_chain_exact:
  assumes "sector_disk D ok dsk" and "ok s"
  shows "\<exists>r s'. follow_cluster_chain oc D b c s = (Ret r, s') \<and> ok s' \<and> dsk s' = dsk s \<and>
    (\<forall>cs. r = Ok cs \<longleftrightarrow> fat_chain (fat_entry b (dsk s)) c cs \<and> length cs \<le> 10000) \<and>
    (\<forall>e. r = Err e \<longleftrightarrow> (\<nexists>cs. fat_chain (fat_entry b (dsk s)) c cs \<and> length cs \<le> 10000) \<and>
       e = ''Cluster chain too long or infinite loop'')"
proof -
  obtain s' where s': "follow_cluster_chain oc D b c s = (Ret (case chain_from (fat_entry b (dsk s)) MAX_ITERATIONS c of
      Some cs \<Rightarrow> Ok cs | None \<Rightarrow> Err ''Cluster chain too long or infinite loop''), s')" "ok s'" "dsk s' = dsk s"
    using sector_disk.follow_ok [OF assms, of oc b c] by blast
  have "chain_from (fat_entry b (dsk s)) MAX_ITERATIONS c = Some cs \<longleftrightarrow>
      fat_chain (fat_entry b (dsk s)) c cs \<and> length cs \<le> 10000" for cs
    using chain_from_iff [of "fat_entry b (dsk s)" MAX_ITERATIONS c cs] by (simp add: MAX_ITERATIONS_def)
  then show ?thesis using s'
    by (cases "chain_from (fat_entry b (dsk s)) MAX_ITERATIONS c") auto
qed

theorem follow_cluster_chain_exact_witness:
  "\<exists>r s'. follow_cluster_chain True (ata_ops ctl_env (ctl_irq False) 7 (Suc (Suc 0))) small_boot 3 small_disk = (Ret r, s') \<and>
    ata_idle ctl_ready s' \<and> c_image (ports s') = c_image (ports small_disk) \<and>
    (\<forall>cs. r = Ok cs \<longleftrightarrow> fat_chain (fat_entry small_boot (c_image (ports small_disk))) 3 cs \<and> length cs \<le> 10000) \<and>
    (\<forall>e. r = Err e \<longleftrightarrow> (\<nexists>cs. fat_chain (fat_entry small_boot (c_image (ports small_disk))) 3 cs \<and> length cs \<le> 10000) \<and>
       e = ''Cluster chain too long or infinite loop'')"
  by (rule follow_cluster_chain_exact [OF ata_fs.sector_disk_axioms small_disk_idle])

text \<open>
  C36. \<open>read_file\<close> returns the content of the clusters of the file's chain, cut to the file size, and
  leaves the disk alone.
\<close>

theorem read_file_content:
  assumes "sector_disk D ok dsk" and "ok s"
    and "fat_chain (fat_entry b (dsk s)) (first_cluster e) cs" and "length cs \<le> 10000"
    and "list_all (cluster_ok b) cs"
  shows "\<exists>s'. read_file oc D b e s = (Ret (Ok (take (unat (file_size e)) (chain_data b (dsk s) cs))), s') \<and>
    ok s' \<and> dsk s' = dsk s"
  by (rule sector_disk.read_file_ok [OF assms(1-3) _ assms(5)]) (simp add: MAX_ITERATIONS_def assms(4))

theorem read_file_content_witness:
  "\<exists>s'. read_file True (ata_ops ctl_env (ctl_irq False) 7 (Suc (Suc 0))) small_boot
      \<lparr>de_name = replicate 11 0x41, attributes = 0x20, first_cluster = 3, file_size = 600\<rparr> small_disk =
      (Ret (Ok (take (unat (file_size \<lparr>de_name = replicate 11 0x41, attributes = 0x20, first_cluster = 3, file_size = 600\<rparr>))
         (chain_data small_boot (c_image (ports small_disk)) [3, 5]))), s') \<and>
    ata_idle ctl_ready s' \<and> c_image (ports s') = c_image (ports small_disk)"
  by (rule read_file_content [OF ata_fs.sector_disk_axioms small_disk_idle])
    (use small_chain small_clusters_ok in \<open>simp_all add: small_disk_image\<close>)

text \<open>
  C37. \<open>list_directory\<close> returns exactly the entries, in order, of the directory's bytes read as one
  array of 32-byte records across sectors and clusters, leaving out the free ones.
\<close>

theorem list_directory_entries:
  assumes "sector_disk D ok dsk" and "ok s"
    and "fat_chain (fat_entry b (dsk s)) c cs" and "length cs \<le> 10000" and "list_all (cluster_ok b) cs"
  shows "\<exists>s'. list_directory oc D b c s = (Ret (Ok (dir_entries (chain_data b (dsk s) cs))), s') \<and>
    ok s' \<and> dsk s' = dsk s"
  by (rule sector_disk.list_directory_ok [OF assms(1-3) _ assms(5)]) (simp add: MAX_ITERATIONS_def assms(4))

theorem list_directory_entries_witness:
  "\<exists>s'. list_directory True (ata_ops ctl_env (ctl_irq False) 7 (Suc (Suc 0))) small_boot 2 small_disk =
      (Ret (Ok (dir_entries (chain_data small_boot (c_image (ports small_disk)) [2]))), s') \<and>
    ata_idle ctl_ready s' \<and> c_image (ports s') = c_image (ports small_disk)"
  by (rule list_directory_entries [OF ata_fs.sector_disk_axioms small_disk_idle])
    (use small_root_chain small_clusters_ok in \<open>simp_all add: small_disk_image\<close>)

text \<open>A boot sector with the given values, over any other content.\<close>

definition put_boot :: "BootSector \<Rightarrow> u8 list \<Rightarrow> u8 list" where
  "put_boot v t =
     (copy_slice (copy_slice (copy_slice (copy_slice (copy_slice t
        0x0B (u16_to_le_bytes (bytes_per_sector v)))
        0x0E (u16_to_le_bytes (reserved_sectors v)))
        0x20 (u32_to_le_bytes (total_sectors_32 v)))
        0x24 (u32_to_le_bytes (sectors_per_fat_32 v)))
        0x2C (u32_to_le_bytes (root_cluster v)))
     [0x0D := sectors_per_cluster v, 0x10 := num_fats v, 510 := 0x55, 511 := 0xAA]"

lemma boot_sector_eta:
  "\<lparr>bytes_per_sector = bytes_per_sector v, sectors_per_cluster = sectors_per_cluster v, reserved_sectors = reserved_sectors v,
    num_fats = num_fats v, total_sectors_32 = total_sectors_32 v, sectors_per_fat_32 = sectors_per_fat_32 v,
    root_cluster = root_cluster v\<rparr> = v"
  by (cases v) simp

lemma println_lines_ok:
  assumes "sector_disk D ok dsk" and "ok s"
  shows "\<exists>s'. println_lines D ls s = (Ret (), s') \<and> ok s' \<and> dsk s' = dsk s"
  using assms(2)
proof (induction ls arbitrary: s)
  case Nil
  then show ?case by simp
next
  case (Cons l ls)
  then show ?case using sector_disk.println_law [OF assms(1) Cons.prems, of l] by (fastforce simp: io_bind_def)
qed

text \<open>
  C39. The boot sector is parsed correctly: whatever values are laid out at the offsets of the FAT32
  format are the values \<open>Fat32::new\<close> returns, and a sector without the signature 55 AA is refused.
\<close>

theorem boot_sector_parse:
  assumes "sector_disk D ok dsk" and "ok s"
  shows "(dsk s 0 = put_boot v t \<and> length t = 512 \<longrightarrow> (\<exists>s'. Fat32_new D s = (Ret (Ok v), s') \<and> dsk s' = dsk s)) \<and>
    (dsk s 0 ! 510 \<noteq> 0x55 \<or> dsk s 0 ! 511 \<noteq> 0xAA \<longrightarrow>
       (\<exists>s'. Fat32_new D s = (Ret (Err ''Invalid FAT32 boot signature''), s') \<and> dsk s' = dsk s))"
proof -
  obtain s' where s': "d_read D 0 s = (Ret (dsk s 0), s')" "ok s'" "dsk s' = dsk s"
    using sector_disk.rd_law [OF assms, of 0] by auto
  moreover obtain s'' where "println_lines D (boot_lines v) s' = (Ret (), s'')" "dsk s'' = dsk s"
    using println_lines_ok [OF assms(1) s'(2)] s'(3) by metis
  moreover have "get_u16 (put_boot v t) 0x0B = bytes_per_sector v" "put_boot v t ! 0x0D = sectors_per_cluster v"
    "get_u16 (put_boot v t) 0x0E = reserved_sectors v" "put_boot v t ! 0x10 = num_fats v"
    "get_u32 (put_boot v t) 0x20 = total_sectors_32 v" "get_u32 (put_boot v t) 0x24 = sectors_per_fat_32 v"
    "get_u32 (put_boot v t) 0x2C = root_cluster v" "put_boot v t ! 510 = 0x55" "put_boot v t ! 511 = 0xAA"
    if "length t = 512"
    using that by (simp_all add: put_boot_def get_u16_def get_u32_def nth_copy_slice u16_to_le_bytes_def u32_to_le_bytes_def)
  ultimately show ?thesis
    by (auto simp: Fat32_new_def BootSector_read_def io_try_def io_bind_def Let_def boot_sector_eta)
qed

theorem boot_sector_parse_witness:
  "(\<exists>s'. Fat32_new (ata_ops ctl_env (ctl_irq False) 7 (Suc (Suc 0)))
      (idle_start\<lparr>ports := blank_drive\<lparr>c_image := (\<lambda>_. put_boot small_boot (replicate 512 0))\<rparr>\<rparr>) = (Ret (Ok small_boot), s')) \<and>
   (\<exists>s'. Fat32_new (ata_ops ctl_env (ctl_irq False) 7 (Suc (Suc 0))) small_disk =
      (Ret (Err ''Invalid FAT32 boot signature''), s'))"
proof
  let ?s = "idle_start\<lparr>ports := blank_drive\<lparr>c_image := (\<lambda>_. put_boot small_boot (replicate 512 0))\<rparr>\<rparr>"
  have "ata_idle ctl_ready ?s"
    by (simp add: ata_idle_def idle_start_def ata_start_def SECTOR_SIZE_def ctl_ready_def blank_drive_def put_boot_def)
  from boot_sector_parse [OF ata_fs.sector_disk_axioms [of False 7 0] this, of small_boot "replicate 512 0"]
  show "\<exists>s'. Fat32_new (ata_ops ctl_env (ctl_irq False) 7 (Suc (Suc 0))) ?s = (Ret (Ok small_boot), s')" by auto
  from boot_sector_parse [OF ata_fs.sector_disk_axioms [of False 7 0] small_disk_idle, of small_boot "replicate 512 0"]
  show "\<exists>s'. Fat32_new (ata_ops ctl_env (ctl_irq False) 7 (Suc (Suc 0))) small_disk =
      (Ret (Err ''Invalid FAT32 boot signature''), s')" by (auto simp: small_disk_image small_image_def)
qed

text \<open>
  C40. An entry without clusters, as \<open>create_file\<close> writes for an empty file, makes \<open>read_file\<close> panic
  under overflow checks: the first cluster 0 is looked up in the FAT, and its sector is computed from
  \<open>0 - 2\<close>.
\<close>

theorem read_empty_file_panics:
  assumes "sector_disk D ok dsk" and "ok s" and "first_cluster e = 0"
    and "fat_chain (fat_entry b (dsk s)) 0 (0 # cs)" and "length cs < 10000"
    and "data_start_sector True b = Ret d"
  shows "\<exists>s'. read_file True D b e s = (Panic ''attempt to subtract with overflow'', s')"
proof -
  obtain s1 where "follow_cluster_chain True D b (first_cluster e) s = (Ret (Ok (0 # cs)), s1)"
    by (rule sector_disk.follow_chain [OF assms(1,2), of b "first_cluster e" "0 # cs"])
      (use assms(3-5) in \<open>simp_all add: MAX_ITERATIONS_def\<close>)
  moreover have "cluster_to_sector True b 0 = Panic ''attempt to subtract with overflow''"
    using assms(6) by (simp add: cluster_to_sector_def sub_oc_def)
  ultimately show ?thesis by (simp add: read_file_def io_try_def io_bind_def)
qed

theorem read_empty_file_panics_witness:
  "\<exists>s'. read_file True (ata_ops ctl_env (ctl_irq False) 7 (Suc (Suc 0))) small_boot
      \<lparr>de_name = replicate 11 0x41, attributes = 0x20, first_cluster = 0, file_size = 0\<rparr> small_disk =
      (Panic ''attempt to subtract with overflow'', s')"
proof (rule read_empty_file_panics [OF ata_fs.sector_disk_axioms small_disk_idle])
  show "fat_chain (fat_entry small_boot (c_image (ports small_disk))) 0 [0]"
    by (simp add: small_disk_image fat_chain_Cons fat_chain_Nil small_fat_entry)
  show "data_start_sector True small_boot = Ret 2"
    by (simp add: data_start_sector_def mul_oc_def add_oc_def small_boot_def)
qed simp_all

end
