(* ===== verification/Fat32_Write.thy ===== *)
theory Fat32_Write
  imports Fat32_Read
begin

text \<open>
  Correctness of the writing half of \<open>src/fs/fat32.rs\<close>: finding and linking clusters, directory
  entries, and the round trip from \<open>create_file\<close> to \<open>list_directory\<close> and \<open>read_file\<close>. The contract of
  the device now includes writing; it is interpreted on the ATA driver with a drive on which its
  write path completes.
\<close>

section \<open>The contract of the device\<close>

locale sector_store = sector_disk +
  assumes wr_law: "ok s \<Longrightarrow> unat l < 2 ^ 28 \<Longrightarrow> length data = 512 \<Longrightarrow>
    \<exists>s'. d_write D l data s = (Ret (Ok ()), s') \<and> ok s' \<and> dsk s' = (dsk s)(l := data)"

lemma ata_sector_store:
  assumes "level_disk E irq ready img registered" and "3 \<le> n"
  shows "sector_store (ata_ops E irq w n) (ata_idle ready) (\<lambda>s. img (ports s))"
proof (intro sector_store.intro sector_store_axioms.intro)
  have "ata_disk E irq ready img registered" using assms(1) by (simp add: level_disk_def)
  then show "sector_disk (ata_ops E irq w n) (ata_idle ready) (\<lambda>s. img (ports s))"
    by (rule ata_sector_disk) (use assms(2) in simp)
  fix s :: "('a, 'b, 'c, 'd) ata_state" and l :: u32 and data :: "u8 list"
  assume "ata_idle ready s" "unat l < 2 ^ 28" "length data = 512"
  then show "\<exists>s'. d_write (ata_ops E irq w n) l data s = (Ret (Ok ()), s') \<and> ata_idle ready s' \<and>
      img (ports s') = (img (ports s))(l := data)"
    using level_disk.write_sector_async_ok [OF assms(1) _ _ assms(2), of s data w l] by (simp add: ata_ops_def take_bit_28)
qed

interpretation level_fs: sector_store "ata_ops ctl_env (ctl_irq True) w (Suc (Suc (Suc n)))" "ata_idle ctl_ready"
    "\<lambda>s. c_image (ports s)"
  for w n
  by (rule ata_sector_store [OF level_ctl_disk.level_disk_axioms]) simp

section \<open>Volumes\<close>

text \<open>
  A volume whose FAT describes addressable clusters: every cluster that has an entry lies below the
  28-bit limit of the driver.
\<close>

definition fat_entries :: "Fat32 \<Rightarrow> nat" where
  "fat_entries b = 128 * unat (sectors_per_fat_32 b)"

definition data_start :: "Fat32 \<Rightarrow> nat" where
  "data_start b = unat (reserved_sectors b) + unat (num_fats b) * unat (sectors_per_fat_32 b)"

definition volume_ok :: "Fat32 \<Rightarrow> bool" where
  "volume_ok b \<longleftrightarrow> 1 \<le> unat (num_fats b) \<and> 1 \<le> unat (sectors_per_fat_32 b) \<and> 1 \<le> unat (sectors_per_cluster b) \<and>
     data_start b + (fat_entries b - 2) * unat (sectors_per_cluster b) \<le> 2 ^ 28"

definition is_cluster :: "Fat32 \<Rightarrow> u32 \<Rightarrow> bool" where
  "is_cluster b c \<longleftrightarrow> 2 \<le> unat c \<and> unat c < fat_entries b"

lemma volume_bounds:
  assumes "volume_ok b"
  shows "unat (sectors_per_fat_32 b) \<le> unat (num_fats b) * unat (sectors_per_fat_32 b)"
    and "data_start b \<le> 2 ^ 28" and "fat_entries b < 0x0FFFFFF8" and "unat (sectors_per_fat_32 b) < 2 ^ 21"
proof -
  let ?f = "unat (sectors_per_fat_32 b)"
  show f: "?f \<le> unat (num_fats b) * ?f" using assms by (simp add: volume_ok_def)
  show "data_start b \<le> 2 ^ 28" using assms by (simp add: volume_ok_def)
  have "(fat_entries b - 2) * 1 \<le> (fat_entries b - 2) * unat (sectors_per_cluster b)"
    using assms unfolding volume_ok_def by (intro mult_le_mono2) simp
  then have "?f + (128 * ?f - 2) \<le> 2 ^ 28" using assms f unfolding volume_ok_def data_start_def fat_entries_def by linarith
  then show "fat_entries b < 0x0FFFFFF8" "?f < 2 ^ 21" by (simp_all add: fat_entries_def)
qed

lemma cluster_start_data: "2 \<le> unat c \<Longrightarrow> cluster_start b c = data_start b + (unat c - 2) * unat (sectors_per_cluster b)"
  by (simp add: cluster_start_def data_start_def)

lemma is_cluster_ok: "volume_ok b \<Longrightarrow> is_cluster b c \<Longrightarrow> cluster_ok b c"
proof -
  assume v: "volume_ok b" and c: "is_cluster b c"
  have "(unat c - 2 + 1) * unat (sectors_per_cluster b) \<le> (fat_entries b - 2) * unat (sectors_per_cluster b)"
    using c by (intro mult_le_mono1) (auto simp: is_cluster_def)
  then show ?thesis
    using v c by (simp add: cluster_ok_def cluster_start_data is_cluster_def volume_ok_def)
qed

text \<open>The sectors of different clusters are different.\<close>

lemma cluster_sector_inj:
  assumes "2 \<le> unat c" and "2 \<le> unat c'" and "i < unat (sectors_per_cluster b)" and "j < unat (sectors_per_cluster b)"
    and "cluster_start b c + i = cluster_start b c' + j"
  shows "c = c' \<and> i = j"
proof -
  let ?k = "unat (sectors_per_cluster b)"
  have e: "(unat c - 2) * ?k + i = (unat c' - 2) * ?k + j"
    using assms(5) by (simp add: cluster_start_data assms(1,2))
  have "(unat c - 2) = ((unat c - 2) * ?k + i) div ?k" using assms(3) by simp
  also have "\<dots> = unat c' - 2" unfolding e using assms(4) by simp
  finally have "unat c = unat c'" using assms(1,2) by simp
  then show ?thesis using e by (simp add: word_unat_eq_iff)
qed

section \<open>Writing a FAT entry\<close>

text \<open>The effect of \<open>set_fat_entry\<close> on the disk: the entry in the FAT and in its first copy.\<close>

definition fat_write :: "Fat32 \<Rightarrow> u32 \<Rightarrow> u32 \<Rightarrow> (u32 \<Rightarrow> u8 list) \<Rightarrow> u32 \<Rightarrow> u8 list" where
  "fat_write b c v d =
     (let sector = copy_slice (d (sect (fat_sector b c))) (fat_offset c) (u32_to_le_bytes v);
          d = d(sect (fat_sector b c) := sector)
      in if 1 < num_fats b then d(sect (fat_sector b c + unat (sectors_per_fat_32 b)) := sector) else d)"

lemma get_u32_copy_slice:
  assumes "length xs = 512" and "off + 4 \<le> 512"
  shows "get_u32 (copy_slice xs off (u32_to_le_bytes v)) off = v"
  using assms u32_from_to_le_bytes [of v] by (simp add: get_u32_def nth_copy_slice numeral_2_eq_2 numeral_3_eq_3)

lemma get_u32_copy_other:
  assumes "length xs = 512" and "off + 4 \<le> 512" and "off' + 4 \<le> 512" and "off' + 4 \<le> off \<or> off + 4 \<le> off'"
  shows "get_u32 (copy_slice xs off (u32_to_le_bytes v)) off' = get_u32 xs off'"
  using assms by (auto simp: get_u32_def nth_copy_slice)

lemma fat_place:
  assumes "unat c < fat_entries b"
  shows "fat_sector b c < unat (reserved_sectors b) + unat (sectors_per_fat_32 b)"
  using assms by (simp add: fat_sector_def fat_entries_def)

lemma fat_place_inj:
  "fat_sector b c = fat_sector b c' \<Longrightarrow> c \<noteq> c' \<Longrightarrow> fat_offset c' + 4 \<le> fat_offset c \<or> fat_offset c + 4 \<le> fat_offset c'"
proof -
  assume "fat_sector b c = fat_sector b c'" and "c \<noteq> c'"
  then have q: "unat c * 4 div 512 = unat c' * 4 div 512" "unat c \<noteq> unat c'"
    by (simp_all add: fat_sector_def word_unat_eq_iff)
  have "unat c * 4 = 512 * (unat c * 4 div 512) + fat_offset c" "unat c' * 4 = 512 * (unat c' * 4 div 512) + fat_offset c'"
    unfolding fat_offset_def by (simp_all only: mult_div_mod_eq)
  then show ?thesis using q by linarith
qed

lemma fat_write_entry:
  assumes "volume_ok b" and "\<forall>l. length (d l) = 512" and "unat c < fat_entries b" and "unat c' < fat_entries b"
  shows "fat_entry b (fat_write b c v d) c' = (if c' = c then v else fat_entry b d c')"
proof -
  note p = fat_place [OF assms(3)] fat_place [OF assms(4)] volume_bounds(2,4) [OF assms(1)]
  have b: "fat_sector b c < 2 ^ 32" "fat_sector b c' < 2 ^ 32" "fat_sector b c + unat (sectors_per_fat_32 b) < 2 ^ 32"
    using fat_sector_bound [of b c] fat_sector_bound [of b c'] p by simp_all
  have "fat_sector b c' \<noteq> fat_sector b c + unat (sectors_per_fat_32 b)"
    using p(2) by (simp add: fat_sector_def)
  then have "fat_write b c v d (sect (fat_sector b c')) =
      (if fat_sector b c' = fat_sector b c then copy_slice (d (sect (fat_sector b c))) (fat_offset c) (u32_to_le_bytes v)
       else d (sect (fat_sector b c')))"
    using b by (simp add: fat_write_def Let_def sect_inj)
  then show ?thesis
    using assms(2) fat_offset_bound [of c] fat_offset_bound [of c'] fat_place_inj [of b c c']
    by (auto simp: fat_entry_def get_u32_copy_slice get_u32_copy_other)
qed

lemma fat_write_data:
  assumes "volume_ok b" and "unat c < fat_entries b" and "data_start b \<le> n" and "n < 2 ^ 32"
  shows "fat_write b c v d (sect n) = d (sect n)"
proof -
  have f: "fat_sector b c < unat (reserved_sectors b) + unat (sectors_per_fat_32 b)" by (rule fat_place [OF assms(2)])
  have "1 < num_fats b \<Longrightarrow> 2 \<le> unat (num_fats b)" by (simp add: word_less_nat_alt)
  then have "1 < num_fats b \<Longrightarrow> 2 * unat (sectors_per_fat_32 b) \<le> unat (num_fats b) * unat (sectors_per_fat_32 b)"
    by (intro mult_le_mono1)
  then have "n \<noteq> fat_sector b c" "1 < num_fats b \<Longrightarrow> n \<noteq> fat_sector b c + unat (sectors_per_fat_32 b)"
    using f assms(3) volume_bounds(1) [OF assms(1)] unfolding data_start_def by linarith+
  moreover have "fat_sector b c < 2 ^ 32" "fat_sector b c + unat (sectors_per_fat_32 b) < 2 ^ 32"
    using fat_sector_bound [of b c] volume_bounds(4) [OF assms(1)] by simp_all
  ultimately show ?thesis using assms(4) by (simp add: fat_write_def Let_def sect_inj)
qed

lemma fat_write_length: "\<forall>l. length (d l) = 512 \<Longrightarrow> length (fat_write b c v d l) = 512"
  using fat_offset_bound [of c] by (simp add: fat_write_def Let_def)

lemma copy_slice_le_bytes:
  assumes "off + 4 \<le> length xs"
  shows "xs[off := u32_to_le_bytes v ! 0, off + 1 := u32_to_le_bytes v ! 1, off + 2 := u32_to_le_bytes v ! 2,
    off + 3 := u32_to_le_bytes v ! 3] = copy_slice xs off (u32_to_le_bytes v)"
proof (rule nth_equalityI)
  fix i assume "i < length (xs[off := u32_to_le_bytes v ! 0, off + 1 := u32_to_le_bytes v ! 1,
      off + 2 := u32_to_le_bytes v ! 2, off + 3 := u32_to_le_bytes v ! 3])"
  then have i: "i < length xs" by simp
  consider "i < off" | "i = off" | "i = off + 1" | "i = off + 2" | "i = off + 3" | "off + 4 \<le> i" by linarith
  then show "xs[off := u32_to_le_bytes v ! 0, off + 1 := u32_to_le_bytes v ! 1, off + 2 := u32_to_le_bytes v ! 2,
      off + 3 := u32_to_le_bytes v ! 3] ! i = copy_slice xs off (u32_to_le_bytes v) ! i"
    by cases (use assms i in \<open>simp_all add: nth_copy_slice nth_list_update\<close>)
qed (use assms in simp)

context sector_store
begin

lemma wr_sectE:
  assumes "ok s" and "n < 2 ^ 28" and "length data = 512"
  obtains s' where "d_write D (sect n) data s = (Ret (Ok ()), s')" and "ok s'" and "dsk s' = (dsk s)(sect n := data)"
  using wr_law [OF assms(1) _ assms(3), of "sect n"] assms(2) by (auto simp: unat_sect)

lemma lengths: "ok s \<Longrightarrow> \<forall>l. length (dsk s l) = 512"
  by (simp add: length_law)

lemma set_fat_entry_ok:
  assumes "ok s" and "volume_ok b" and "unat c < fat_entries b"
  obtains s' where "set_fat_entry oc D b c v s = (Ret (Ok ()), s')" and "ok s'" and "dsk s' = fat_write b c v (dsk s)"
proof -
  let ?f = "fat_sector b c" and ?k = "unat (sectors_per_fat_32 b)"
  let ?sec = "copy_slice (dsk s (sect ?f)) (fat_offset c) (u32_to_le_bytes v)"
  obtain s1 where s1: "d_read D (sect ?f) s = (Ret (dsk s (sect ?f)), s1)" "ok s1" "dsk s1 = dsk s"
    by (rule rd_sectE [OF assms(1) fat_sector_bound])
  have len: "length ?sec = 512" using fat_offset_bound [of c] length_law [OF assms(1)] by simp
  obtain s2 where s2: "d_write D (sect ?f) ?sec s1 = (Ret (Ok ()), s2)" "ok s2" "dsk s2 = (dsk s1)(sect ?f := ?sec)"
    by (rule wr_sectE [OF s1(2) fat_sector_bound len])
  have up: "(dsk s (sect ?f))[fat_offset c := u32_to_le_bytes v ! 0, fat_offset c + 1 := u32_to_le_bytes v ! 1,
      fat_offset c + 2 := u32_to_le_bytes v ! 2, fat_offset c + 3 := u32_to_le_bytes v ! 3] = ?sec"
    by (rule copy_slice_le_bytes) (use fat_offset_bound [of c] length_law [OF assms(1)] in simp)
  have step: "set_fat_entry oc D b c v s = (if 1 < num_fats b then
      io_bind (io_lift (add_oc oc (sect ?f) (sectors_per_fat_32 b))) (\<lambda>backup_fat_sector.
        io_try (d_write D backup_fat_sector ?sec) (\<lambda>_. io_ret (Ok ()))) s2 else (Ret (Ok ()), s2))"
    using s1 s2 unfolding set_fat_entry_def Let_def fat_sector_add fat_offset_def [symmetric]
    by (simp add: io_bind_def io_try_def up up [simplified])
  show ?thesis
  proof (cases "1 < num_fats b")
    case False
    then show ?thesis using step s1 s2 that by (simp add: fat_write_def Let_def)
  next
    case True
    then have "2 * ?k \<le> unat (num_fats b) * ?k" by (intro mult_le_mono1) (simp add: word_less_nat_alt)
    then have n: "?f + ?k < 2 ^ 28"
      using fat_place [OF assms(3)] volume_bounds(2) [OF assms(2)] unfolding data_start_def by linarith
    obtain s3 where s3: "d_write D (sect (?f + ?k)) ?sec s2 = (Ret (Ok ()), s3)" "ok s3"
      "dsk s3 = (dsk s2)(sect (?f + ?k) := ?sec)"
      by (rule wr_sectE [OF s2(2) n len])
    have "add_oc oc (sect ?f) (sectors_per_fat_32 b) = Ret (sect (?f + ?k))"
      using add_oc_sect [of ?f ?k oc] n by simp
    then show ?thesis using step True s1 s2 s3 that [of s3] by (simp add: fat_write_def Let_def io_try_def io_bind_def)
  qed
qed

end

section \<open>Finding a free cluster\<close>

text \<open>The free clusters, in increasing order.\<close>

definition free_list :: "Fat32 \<Rightarrow> (u32 \<Rightarrow> u8 list) \<Rightarrow> nat list" where
  "free_list b d = filter (\<lambda>n. fat_entry b d (of_nat n) = 0) [2..<fat_entries b]"

definition first_free :: "Fat32 \<Rightarrow> (u32 \<Rightarrow> u8 list) \<Rightarrow> nat \<Rightarrow> nat \<Rightarrow> nat option" where
  "first_free b d lo hi = find (\<lambda>n. fat_entry b d (of_nat n) = 0 \<and> 2 \<le> n) [lo..<hi]"

lemma find_append: "find P (xs @ ys) = (case find P xs of None \<Rightarrow> find P ys | Some x \<Rightarrow> Some x)"
  by (induction xs) auto

lemma find_map: "find P (map f xs) = map_option f (find (\<lambda>x. P (f x)) xs)"
  by (induction xs) auto

lemma find_filter: "find P xs = (case filter P xs of [] \<Rightarrow> None | x # _ \<Rightarrow> Some x)"
  by (induction xs) auto

lemma find_cong_set: "(\<forall>x \<in> set xs. P x = Q x) \<Longrightarrow> find P xs = find Q xs"
  by (induction xs) auto

lemma first_free_list: "2 \<le> fat_entries b \<Longrightarrow>
  first_free b d 0 (fat_entries b) = (case free_list b d of [] \<Rightarrow> None | n # _ \<Rightarrow> Some n)"
proof -
  assume "2 \<le> fat_entries b"
  then have "[0..<fat_entries b] = [0..<2] @ [2..<fat_entries b]" by (metis le_iff_add plus_nat.add_0 upt_add_eq_append zero_le)
  moreover have "filter (\<lambda>n. fat_entry b d (of_nat n) = 0 \<and> 2 \<le> n) [2..<fat_entries b] = free_list b d"
    unfolding free_list_def by (rule filter_cong) auto
  ultimately show ?thesis by (simp add: first_free_def find_filter)
qed

lemma scan_free_eq:
  assumes "idx < 2 ^ 23" and "\<forall>j \<in> set js. j < 128"
  shows "scan_free oc (of_nat idx) data (map ((*) 4) js) =
    Ret (map_option (\<lambda>j. of_nat (128 * idx + j)) (find (\<lambda>j. get_u32 data (4 * j) = 0 \<and> 2 \<le> 128 * idx + j) js))"
  using assms(2)
proof (induction js)
  case Nil
  then show ?case by simp
next
  case (Cons j js)
  have m: "unat (of_nat idx :: u32) = idx" using assms(1) by (simp add: unat_of_nat)
  have a: "mul_oc oc (of_nat idx :: u32) 512 = Ret (of_nat (512 * idx))"
    using assms(1) m by (simp add: mul_oc_def mult.commute)
  have b: "add_oc oc (of_nat (512 * idx) :: u32) (of_nat (4 * j)) = Ret (of_nat (512 * idx + 4 * j))"
    using assms(1) Cons.prems add_oc_sect [of "512 * idx" "4 * j" oc] unfolding sect_def by simp
  have "unat (of_nat (512 * idx + 4 * j) div 4 :: u32) = 128 * idx + j"
    using assms(1) Cons.prems by (simp add: unat_div unat_of_nat del: of_nat_add)
  then have c: "(of_nat (512 * idx + 4 * j) div 4 :: u32) = of_nat (128 * idx + j)"
    by (metis of_nat_unat ucast_id)
  have d: "(2 :: u32) \<le> of_nat (128 * idx + j) \<longleftrightarrow> 2 \<le> 128 * idx + j"
    using assms(1) Cons.prems by (simp add: word_le_nat_alt unat_of_nat del: of_nat_add)
  show ?case
    using Cons unfolding list.map scan_free.simps a obind_simps b c Let_def d by simp
qed

lemma fat_entry_at:
  assumes "idx < 2 ^ 21" and "j < 128"
  shows "fat_entry b d (of_nat (128 * idx + j)) = get_u32 (d (sect (unat (reserved_sectors b) + idx))) (4 * j)"
proof -
  have u: "unat (of_nat (128 * idx + j) :: u32) = 128 * idx + j"
    using assms by (simp add: unat_of_nat del: of_nat_add)
  have "(128 * idx + j) * 4 div 512 = idx" "(128 * idx + j) * 4 mod 512 = 4 * j" using assms by auto
  then show ?thesis by (simp only: fat_entry_def fat_sector_def fat_offset_def u)
qed

lemma first_free_step:
  assumes "idx < 2 ^ 21"
  shows "first_free b d (128 * idx) (128 * (idx + Suc n)) =
    (case find (\<lambda>j. get_u32 (d (sect (unat (reserved_sectors b) + idx))) (4 * j) = 0 \<and> 2 \<le> 128 * idx + j) [0..<128] of
       Some j \<Rightarrow> Some (128 * idx + j) | None \<Rightarrow> first_free b d (128 * Suc idx) (128 * (Suc idx + n)))"
proof -
  let ?P = "\<lambda>n. fat_entry b d (of_nat n) = 0 \<and> 2 \<le> n"
  have "[128 * idx..<128 * (idx + Suc n)] = [128 * idx..<128 * idx + 128] @ [128 * Suc idx..<128 * (Suc idx + n)]"
    using upt_add_eq_append [of "128 * idx" "128 * idx + 128" "128 * n"] by (simp add: algebra_simps)
  moreover have "[128 * idx..<128 * idx + 128] = map (\<lambda>j. 128 * idx + j) [0..<128]"
    using map_add_upt [of "128 * idx" 128] by (simp add: add.commute del: upt_rec_numeral)
  moreover have "find (\<lambda>j. ?P (128 * idx + j)) [0..<128] =
      find (\<lambda>j. get_u32 (d (sect (unat (reserved_sectors b) + idx))) (4 * j) = 0 \<and> 2 \<le> 128 * idx + j) [0..<128]"
    by (rule find_cong_set) (simp add: fat_entry_at [OF assms] del: of_nat_add)
  ultimately show ?thesis
    by (simp add: first_free_def find_append find_map del: upt_rec_numeral of_nat_add split: option.splits)
qed

context sector_store
begin

lemma find_free_loop_ok:
  assumes "ok s" and "volume_ok b" and "idx + n \<le> unat (sectors_per_fat_32 b)"
  shows "\<exists>s'. find_free_loop oc D b idx n s = (Ret (case first_free b (dsk s) (128 * idx) (128 * (idx + n)) of
      Some m \<Rightarrow> Ok (of_nat m) | None \<Rightarrow> Err ''No free clusters available''), s') \<and> ok s' \<and> dsk s' = dsk s"
  using assms(1,3)
proof (induction n arbitrary: idx s)
  case 0
  then show ?case by (simp add: first_free_def)
next
  case (Suc n)
  let ?n = "unat (reserved_sectors b) + idx"
  have idx: "idx < 2 ^ 21" using Suc.prems(2) volume_bounds(4) [OF assms(2)] by simp
  have "unat (reserved_sectors b) < 2 ^ 16"
    using unsigned_less [of "reserved_sectors b", where 'a = nat] by simp
  then have n: "?n < 2 ^ 28" using idx by simp
  obtain s1 where s1: "d_read D (sect ?n) s = (Ret (dsk s (sect ?n)), s1)" "ok s1" "dsk s1 = dsk s"
    by (rule rd_sectE [OF Suc.prems(1) n])
  have a: "add_oc oc (fat_start_sector b) (of_nat idx) = Ret (sect ?n)"
    unfolding fat_start_sect using n by (intro add_oc_sect) simp
  have sc: "scan_free oc (of_nat idx) data (map ((*) 4) [0..<128]) = Ret (map_option (\<lambda>j. of_nat (128 * idx + j))
      (find (\<lambda>j. get_u32 data (4 * j) = 0 \<and> 2 \<le> 128 * idx + j) [0..<128]))" for data
    by (rule scan_free_eq) (use idx in auto)
  have "find_free_loop oc D b idx (Suc n) s =
      (case find (\<lambda>j. get_u32 (dsk s (sect ?n)) (4 * j) = 0 \<and> 2 \<le> 128 * idx + j) [0..<128] of
         Some j \<Rightarrow> (Ret (Ok (of_nat (128 * idx + j))), s1) | None \<Rightarrow> find_free_loop oc D b (Suc idx) n s1)"
    unfolding find_free_loop.simps a sc using s1
    by (simp add: io_bind_def del: upt_rec_numeral of_nat_add split: option.splits)
  moreover have "Suc idx + n \<le> unat (sectors_per_fat_32 b)" using Suc.prems(2) by simp
  ultimately show ?case
    using Suc.IH [OF s1(2), of "Suc idx"] s1(2,3) unfolding first_free_step [OF idx]
    by (auto simp del: upt_rec_numeral of_nat_add simp: algebra_simps split: option.splits)
qed

lemma find_free_ok:
  assumes "ok s" and "volume_ok b"
  obtains s' where "find_free_cluster oc D b s = (Ret (case free_list b (dsk s) of
      n # _ \<Rightarrow> Ok (of_nat n) | [] \<Rightarrow> Err ''No free clusters available''), s')" and "ok s'" and "dsk s' = dsk s"
proof -
  have "2 \<le> fat_entries b" using assms(2) by (simp add: volume_ok_def fat_entries_def)
  from first_free_list [OF this, of "dsk s"] find_free_loop_ok [OF assms, of 0 "unat (sectors_per_fat_32 b)" oc] that
  show ?thesis by (auto simp: find_free_cluster_def fat_entries_def split: list.splits)
qed

text \<open>\<open>allocate_cluster\<close> takes the first free cluster, links it behind \<open>prev\<close>, and sets its own entry.\<close>

lemma allocate_cluster_ok:
  assumes "ok s" and "volume_ok b" and "\<forall>p. prev = Some p \<longrightarrow> unat p < fat_entries b"
    and "free_list b (dsk s) = n # ns"
  obtains s' where "allocate_cluster oc D b prev nxt s = (Ret (Ok (of_nat n)), s')" and "ok s'"
    and "dsk s' = fat_write b (of_nat n) (case nxt of None \<Rightarrow> 0x0FFFFFF8 | Some x \<Rightarrow> x)
      (case prev of None \<Rightarrow> dsk s | Some p \<Rightarrow> fat_write b p (of_nat n) (dsk s))"
proof -
  let ?v = "case nxt of None \<Rightarrow> 0x0FFFFFF8 | Some x \<Rightarrow> x"
  obtain s1 where s1: "find_free_cluster oc D b s = (Ret (Ok (of_nat n)), s1)" "ok s1" "dsk s1 = dsk s"
    by (rule find_free_ok [OF assms(1,2), of oc]) (use assms(4) in auto)
  have "n \<in> set (free_list b (dsk s))" using assms(4) by simp
  then have "n < fat_entries b" by (simp add: free_list_def)
  then have n: "unat (of_nat n :: u32) < fat_entries b"
    using volume_bounds(3) [OF assms(2)] by (simp add: unat_of_nat)
  obtain s2 where s2: "(case prev of Some p \<Rightarrow> set_fat_entry oc D b p (of_nat n) | None \<Rightarrow> io_ret (Ok ())) s1 = (Ret (Ok ()), s2)"
    "ok s2" "dsk s2 = (case prev of None \<Rightarrow> dsk s | Some p \<Rightarrow> fat_write b p (of_nat n) (dsk s))"
  proof (cases prev)
    case None
    then show ?thesis using that [of s1] s1 by simp
  next
    case (Some p)
    obtain s2 where "set_fat_entry oc D b p (of_nat n) s1 = (Ret (Ok ()), s2)" "ok s2"
      "dsk s2 = fat_write b p (of_nat n) (dsk s1)"
      by (rule set_fat_entry_ok [OF s1(2) assms(2)]) (use assms(3) Some in auto)
    then show ?thesis using that [of s2] Some s1(3) by simp
  qed
  obtain s3 where s3: "set_fat_entry oc D b (of_nat n) ?v s2 = (Ret (Ok ()), s3)" "ok s3"
    "dsk s3 = fat_write b (of_nat n) ?v (dsk s2)"
    by (rule set_fat_entry_ok [OF s2(2) assms(2) n])
  have "allocate_cluster oc D b prev nxt s = (Ret (Ok (of_nat n)), s3)"
    using s1 s2 s3 by (cases nxt) (simp_all add: allocate_cluster_def io_try_def io_bind_def)
  then show ?thesis using that [of s3] s2 s3 by simp
qed

end

section \<open>Writing the clusters of a file\<close>

definition pad_sector :: "u8 list \<Rightarrow> u8 list" where
  "pad_sector chunk = copy_slice (replicate 512 0) 0 (take 512 chunk)"

lemma length_pad_sector [simp]: "length (pad_sector chunk) = 512"
  by (simp add: pad_sector_def)

lemma data_sector_entry:
  assumes "volume_ok b" and "unat c < fat_entries b" and "data_start b \<le> n" and "n < 2 ^ 32"
  shows "fat_entry b (d(sect n := x)) c = fat_entry b d c"
proof -
  have "fat_sector b c < data_start b"
    using fat_place [OF assms(2)] volume_bounds(1) [OF assms(1)] unfolding data_start_def by linarith
  then have "sect n \<noteq> sect (fat_sector b c)"
    using assms(3,4) fat_sector_bound [of b c] by (simp add: sect_inj)
  then show ?thesis by (simp add: fat_entry_def)
qed

lemma cluster_start_bounds:
  assumes "volume_ok b" and "is_cluster b c"
  shows "data_start b \<le> cluster_start b c" and "cluster_start b c + unat (sectors_per_cluster b) \<le> 2 ^ 28"
    and "i < unat (sectors_per_cluster b) \<Longrightarrow> cluster_start b c + i < 2 ^ 28"
  using is_cluster_ok [OF assms] cluster_start_data [of c b] by (auto simp: cluster_ok_def)

text \<open>
  The disk after one step of the loop in \<open>create_file\<close>: cluster \<open>c\<close> is taken, linked behind \<open>cur\<close>, and
  its first sector filled.
\<close>

definition take_cluster :: "Fat32 \<Rightarrow> u32 option \<Rightarrow> u32 \<Rightarrow> u8 list \<Rightarrow> (u32 \<Rightarrow> u8 list) \<Rightarrow> u32 \<Rightarrow> u8 list" where
  "take_cluster b cur c chunk d =
     (fat_write b c 0x0FFFFFF8 (case cur of None \<Rightarrow> d | Some p \<Rightarrow> fat_write b p c d))
     (sect (cluster_start b c) := pad_sector chunk)"

definition cur_ok :: "Fat32 \<Rightarrow> u32 option \<Rightarrow> (u32 \<Rightarrow> u8 list) \<Rightarrow> bool" where
  "cur_ok b cur d \<longleftrightarrow> (\<forall>p. cur = Some p \<longrightarrow> is_cluster b p \<and> fat_entry b d p \<noteq> 0)"

lemma take_cluster_entry:
  assumes "volume_ok b" and "\<forall>l. length (d l) = 512" and "is_cluster b c" and "cur_ok b cur d" and "unat x < fat_entries b"
  shows "fat_entry b (take_cluster b cur c chunk d) x =
    (if x = c then 0x0FFFFFF8 else if cur = Some x then c else fat_entry b d x)"
proof -
  have c: "unat c < fat_entries b" using assms(3) by (simp add: is_cluster_def)
  have "cluster_start b c < 2 ^ 32" "data_start b \<le> cluster_start b c"
    using cluster_start_bounds [OF assms(1,3)] by simp_all
  then show ?thesis
    using data_sector_entry [OF assms(1,5)] fat_write_entry [OF assms(1) _ c assms(5)] assms(2,4,5)
      fat_write_entry [OF assms(1,2) _ assms(5)]
    by (cases cur) (auto simp: take_cluster_def fat_write_length cur_ok_def is_cluster_def)
qed

lemma take_cluster_data:
  assumes "volume_ok b" and "is_cluster b c" and "cur_ok b cur d" and "data_start b \<le> n" and "n < 2 ^ 28"
  shows "take_cluster b cur c chunk d (sect n) = (if n = cluster_start b c then pad_sector chunk else d (sect n))"
proof -
  have c: "unat c < fat_entries b" using assms(2) by (simp add: is_cluster_def)
  have "cluster_start b c < 2 ^ 32" using cluster_start_bounds(2) [OF assms(1,2)] by simp
  then show ?thesis
    using fat_write_data [OF assms(1) _ assms(4)] assms(3,5) c
    by (cases cur) (auto simp: take_cluster_def sect_inj cur_ok_def is_cluster_def)
qed

lemma take_cluster_length: "\<forall>l. length (d l) = 512 \<Longrightarrow> length (take_cluster b cur c chunk d l) = 512"
  by (cases cur) (simp_all add: take_cluster_def fat_write_length)

lemma free_listD:
  assumes "volume_ok b" and "n \<in> set (free_list b d)"
  shows "is_cluster b (of_nat n)" and "fat_entry b d (of_nat n) = 0" and "unat (of_nat n :: u32) = n"
  using assms volume_bounds(3) [OF assms(1)] by (auto simp: free_list_def is_cluster_def unat_of_nat)

lemma free_list_take:
  assumes "volume_ok b" and "\<forall>l. length (d l) = 512" and "free_list b d = n # ns" and "cur_ok b cur d"
  shows "free_list b (take_cluster b cur (of_nat n) chunk d) = ns"
proof -
  have n: "n \<in> set (free_list b d)" using assms(3) by simp
  note c = free_listD [OF assms(1) n]
  have "fat_entry b (take_cluster b cur (of_nat n) chunk d) (of_nat m) = 0 \<longleftrightarrow> m \<noteq> n \<and> fat_entry b d (of_nat m) = 0"
    if "m \<in> set [2..<fat_entries b]" for m
  proof -
    have m: "unat (of_nat m :: u32) = m" "m < fat_entries b"
      using that volume_bounds(3) [OF assms(1)] by (simp_all add: unat_of_nat)
    have "(of_nat m :: u32) = of_nat n \<longleftrightarrow> m = n" using m(1) c(3) by (metis)
    moreover have "(of_nat n :: u32) \<noteq> 0" using c(1) by (auto simp: is_cluster_def)
    ultimately show ?thesis
      using take_cluster_entry [OF assms(1,2) c(1) assms(4), of "of_nat m" chunk] m assms(4) by (auto simp: cur_ok_def)
  qed
  then have "free_list b (take_cluster b cur (of_nat n) chunk d) =
      filter (\<lambda>m. m \<noteq> n) (free_list b d)"
    unfolding free_list_def filter_filter by (intro filter_cong) auto
  moreover have "distinct (free_list b d)" by (simp add: free_list_def)
  ultimately show ?thesis using assms(3) by (auto simp: filter_id_conv)
qed

text \<open>
  What the loop leaves behind when it stores the chunks \<open>ks\<close> in the clusters \<open>cs\<close> behind \<open>cur\<close>: the clusters
  form a chain, each starts with its chunk, and nothing else of the FAT or of the data changed.
\<close>

definition chunks_stored ::
  "Fat32 \<Rightarrow> u8 list list \<Rightarrow> u32 list \<Rightarrow> u32 option \<Rightarrow> (u32 \<Rightarrow> u8 list) \<Rightarrow> (u32 \<Rightarrow> u8 list) \<Rightarrow> bool" where
  "chunks_stored b ks cs cur d d' \<longleftrightarrow>
     length cs = length ks \<and>
     (cs = [] \<longrightarrow> d' = d) \<and>
     (cs \<noteq> [] \<longrightarrow> fat_chain (fat_entry b d') (hd cs) cs \<and> (\<forall>p. cur = Some p \<longrightarrow> fat_entry b d' p = hd cs)) \<and>
     (\<forall>x. unat x < fat_entries b \<longrightarrow> x \<notin> set cs \<longrightarrow> cur \<noteq> Some x \<longrightarrow> fat_entry b d' x = fat_entry b d x) \<and>
     (\<forall>i < length cs. d' (sect (cluster_start b (cs ! i))) = pad_sector (ks ! i)) \<and>
     (\<forall>n. data_start b \<le> n \<longrightarrow> n < 2 ^ 28 \<longrightarrow> (\<forall>c \<in> set cs. n \<noteq> cluster_start b c) \<longrightarrow> d' (sect n) = d (sect n))"

lemma chunks_stored_Nil: "chunks_stored b [] [] cur d d"
  by (simp add: chunks_stored_def)

lemma is_cluster_less_end: "volume_ok b \<Longrightarrow> is_cluster b c \<Longrightarrow> c < 0x0FFFFFF8"
  using volume_bounds(3) [of b] by (simp add: word_less_nat_alt is_cluster_def)

lemma chunks_stored_Cons:
  assumes "volume_ok b" and "\<forall>l. length (d l) = 512" and "is_cluster b c" and "cur_ok b cur d" and "fat_entry b d c = 0"
    and "c \<notin> set cs" and "\<forall>x \<in> set cs. is_cluster b x" and "\<forall>p. cur = Some p \<longrightarrow> p \<notin> set cs"
    and st: "chunks_stored b ks cs (Some c) (take_cluster b cur c chunk d) d'"
  shows "chunks_stored b (chunk # ks) (c # cs) cur d d'"
proof -
  let ?d = "take_cluster b cur c chunk d"
  note e = take_cluster_entry [OF assms(1-4)]
  have start: "cluster_start b c \<noteq> cluster_start b x" if "x \<in> set cs" for x
    using cluster_sector_inj [of c x 0 b 0] that assms(1,3,6,7) by (auto simp: is_cluster_def volume_ok_def)
  have ce: "unat c < fat_entries b" using assms(3) by (simp add: is_cluster_def)
  have "fat_chain (fat_entry b d') c (c # cs)"
  proof (cases cs)
    case Nil
    then have "d' = ?d" using st by (simp add: chunks_stored_def)
    then show ?thesis using Nil e [OF ce] by (simp add: fat_chain_Cons fat_chain_Nil)
  next
    case (Cons y ys)
    then have "fat_chain (fat_entry b d') y cs" "fat_entry b d' c = y" using st by (simp_all add: chunks_stored_def)
    moreover have "y < 0x0FFFFFF8" using is_cluster_less_end [OF assms(1)] assms(7) Cons by simp
    ultimately show ?thesis by (simp add: fat_chain_Cons)
  qed
  moreover have "fat_entry b d' p = c" if p: "cur = Some p" for p
  proof -
    have "p \<noteq> c" "unat p < fat_entries b" using p assms(4,5) by (auto simp: cur_ok_def is_cluster_def)
    then show ?thesis using st p assms(8) e [of p] by (simp add: chunks_stored_def)
  qed
  moreover have "fat_entry b d' x = fat_entry b d x"
    if "unat x < fat_entries b" "x \<notin> set (c # cs)" "cur \<noteq> Some x" for x
    using that st e [of x] by (auto simp: chunks_stored_def)
  moreover have "d' (sect n) = d (sect n)"
    if "data_start b \<le> n" "n < 2 ^ 28" "\<forall>x \<in> set (c # cs). n \<noteq> cluster_start b x" for n
    using that st take_cluster_data [OF assms(1,3,4)] by (auto simp: chunks_stored_def)
  moreover have "d' (sect (cluster_start b c)) = pad_sector chunk"
    using st start cluster_start_bounds(1) [OF assms(1,3)] cluster_start_bounds(3) [OF assms(1,3), of 0] assms(1)
      take_cluster_data [OF assms(1,3,4), of "cluster_start b c"] by (auto simp: chunks_stored_def volume_ok_def)
  ultimately show ?thesis
    using st by (auto simp: chunks_stored_def nth_Cons split: nat.split)
qed

text \<open>The clusters the loop takes for \<open>k\<close> chunks.\<close>

definition new_clusters :: "Fat32 \<Rightarrow> (u32 \<Rightarrow> u8 list) \<Rightarrow> nat \<Rightarrow> u32 list" where
  "new_clusters b d k = map of_nat (take k (free_list b d))"

lemma new_clusters_free:
  assumes "volume_ok b" and "c \<in> set (new_clusters b d k)"
  shows "is_cluster b c" and "fat_entry b d c = 0"
  using assms free_listD [OF assms(1)] by (auto simp: new_clusters_def dest!: in_set_takeD)

lemma new_clusters_Cons:
  assumes "volume_ok b" and "free_list b d = n # ns" and "x \<in> set (map of_nat (take k ns))"
  shows "is_cluster b x" and "fat_entry b d x = 0" and "x \<noteq> of_nat n"
proof -
  obtain m where m: "m \<in> set ns" "x = of_nat m" using assms(3) by (auto dest: in_set_takeD)
  have "distinct (free_list b d)" by (simp add: free_list_def)
  then have "m \<noteq> n" using m assms(2) by auto
  have f: "m \<in> set (free_list b d)" "n \<in> set (free_list b d)" using m assms(2) by auto
  from free_listD [OF assms(1) f(1)] free_listD(3) [OF assms(1) f(2)] m(2) \<open>m \<noteq> n\<close>
  show "is_cluster b x" "fat_entry b d x = 0" "x \<noteq> of_nat n" by auto
qed

context sector_store
begin

lemma write_chunk_step:
  assumes "ok s" and "volume_ok b" and "cur_ok b cur (dsk s)" and "free_list b (dsk s) = n # ns"
  obtains s' where "write_chunks oc D b (chunk # ks) cur first s =
      write_chunks oc D b ks (Some (of_nat n)) (if first = None then Some (of_nat n) else first) s'"
    and "ok s'" and "dsk s' = take_cluster b cur (of_nat n) chunk (dsk s)"
proof -
  let ?c = "of_nat n :: u32"
  have "n \<in> set (free_list b (dsk s))" using assms(4) by simp
  note c = free_listD [OF assms(2) this]
  have "\<forall>p. cur = Some p \<longrightarrow> unat p < fat_entries b" using assms(3) by (simp add: cur_ok_def is_cluster_def)
  then obtain s1 where s1: "allocate_cluster oc D b cur None s = (Ret (Ok ?c), s1)" "ok s1"
    "dsk s1 = fat_write b ?c (case None of None \<Rightarrow> 0x0FFFFFF8 | Some x \<Rightarrow> x)
      (case cur of None \<Rightarrow> dsk s | Some p \<Rightarrow> fat_write b p ?c (dsk s))"
    by (rule allocate_cluster_ok [OF assms(1,2) _ assms(4)])
  have "cluster_start b ?c < 2 ^ 28"
    using cluster_start_bounds(3) [OF assms(2) c(1), of 0] assms(2) by (simp add: volume_ok_def)
  then obtain s2 where s2: "d_write D (sect (cluster_start b ?c)) (pad_sector chunk) s1 = (Ret (Ok ()), s2)" "ok s2"
    "dsk s2 = (dsk s1)(sect (cluster_start b ?c) := pad_sector chunk)"
    by (rule wr_sectE [OF s1(2) _ length_pad_sector])
  have "write_chunks oc D b (chunk # ks) cur first s =
      write_chunks oc D b ks (Some ?c) (if first = None then Some ?c else first) s2"
    using s1(1) s2(1) cluster_to_sector_ok [OF is_cluster_ok [OF assms(2) c(1)], of oc]
    by (simp add: io_try_def io_bind_def Let_def pad_sector_def)
  moreover have "dsk s2 = take_cluster b cur ?c chunk (dsk s)" using s2(3) s1(3) by (simp add: take_cluster_def)
  ultimately show ?thesis using that s2(2) by blast
qed

lemma write_chunks_ok:
  assumes "ok s" and "volume_ok b" and "cur_ok b cur (dsk s)" and "length ks \<le> length (free_list b (dsk s))"
  shows "\<exists>s'. write_chunks oc D b ks cur first s =
      (Ret (Ok (case first of Some c \<Rightarrow> Some c | None \<Rightarrow>
         (case new_clusters b (dsk s) (length ks) of c # _ \<Rightarrow> Some c | [] \<Rightarrow> None))), s') \<and>
    ok s' \<and> chunks_stored b ks (new_clusters b (dsk s) (length ks)) cur (dsk s) (dsk s')"
  using assms(1,3,4)
proof (induction ks arbitrary: cur first s)
  case Nil
  then show ?case by (simp add: chunks_stored_Nil new_clusters_def split: option.splits)
next
  case (Cons chunk ks)
  then obtain n ns where f: "free_list b (dsk s) = n # ns" by (cases "free_list b (dsk s)") auto
  let ?c = "of_nat n :: u32" and ?first = "if first = None then Some (of_nat n :: u32) else first"
  let ?cs = "map of_nat (take (length ks) ns) :: u32 list"
  have "n \<in> set (free_list b (dsk s))" using f by simp
  note c = free_listD(1,2) [OF assms(2) this] and len = lengths [OF Cons.prems(1)]
  obtain s2 where s2: "write_chunks oc D b (chunk # ks) cur first s = write_chunks oc D b ks (Some ?c) ?first s2"
    "ok s2" "dsk s2 = take_cluster b cur ?c chunk (dsk s)"
    by (rule write_chunk_step [OF Cons.prems(1) assms(2) Cons.prems(2) f])
  have f2: "free_list b (dsk s2) = ns"
    unfolding s2(3) by (rule free_list_take [OF assms(2) len f Cons.prems(2)])
  have "cur_ok b (Some ?c) (dsk s2)"
    using c take_cluster_entry [OF assms(2) len c(1) Cons.prems(2), of ?c] by (simp add: cur_ok_def s2(3) is_cluster_def)
  moreover have "length ks \<le> length (free_list b (dsk s2))" using Cons.prems(3) f f2 by simp
  ultimately obtain s3 where s3: "write_chunks oc D b ks (Some ?c) ?first s2 = (Ret (Ok ?first), s3)" "ok s3"
    "chunks_stored b ks ?cs (Some ?c) (dsk s2) (dsk s3)"
    using Cons.IH [OF s2(2), of "Some ?c" ?first] f2 by (auto simp: new_clusters_def split: option.splits if_splits)
  have "chunks_stored b (chunk # ks) (?c # ?cs) cur (dsk s) (dsk s3)"
    using s3(3) Cons.prems(2) new_clusters_Cons [OF assms(2) f, where k = "length ks"] unfolding s2(3)
    by (intro chunks_stored_Cons [OF assms(2) len c(1) Cons.prems(2) c(2)]) (auto simp: cur_ok_def simp del: set_map)
  then show ?case
    using s2(1) s3 by (cases first) (simp_all add: new_clusters_def f del: write_chunks.simps)
qed

end

section \<open>Directory entries\<close>

text \<open>The 8.3 form of a name: base and extension cut and padded with spaces.\<close>

definition pad_to :: "nat \<Rightarrow> u8 list \<Rightarrow> u8 list" where
  "pad_to n xs = take n xs @ replicate (n - length xs) 0x20"

definition name83 :: "u8 list \<Rightarrow> u8 list" where
  "name83 name = (let parts = split_on 0x2E name
     in pad_to 8 (parts ! 0) @ pad_to 3 (if 1 < length parts then parts ! 1 else []))"

lemma length_pad_to [simp]: "length (pad_to n xs) = n"
  by (simp add: pad_to_def)

lemma length_name83 [simp]: "length (name83 name) = 11"
  by (simp add: name83_def Let_def)

lemma split_on_nonempty [simp]: "split_on c xs \<noteq> []"
  by (cases xs) (auto split: list.splits)

lemma length_pad_spaces [simp]: "length (pad_spaces e js) = length e"
  unfolding pad_spaces_def by (induction js arbitrary: e) auto

lemma nth_pad_spaces:
  "i < length e \<Longrightarrow> pad_spaces e js ! i = (if i \<in> set js then 0x20 else e ! i)"
proof (induction js arbitrary: e)
  case Nil
  then show ?case by (simp add: pad_spaces_def)
next
  case (Cons j js)
  have "pad_spaces e (j # js) = pad_spaces (e[j := 0x20]) js" by (simp add: pad_spaces_def)
  then show ?case using Cons by (auto simp: nth_list_update)
qed

lemma entry_name_bytes:
  assumes "i < 11"
  shows "create_dir_entry name c n ! i = name83 name ! i"
proof -
  let ?parts = "split_on 0x2E name"
  let ?base = "?parts ! 0" and ?ext = "if 1 < length ?parts then ?parts ! 1 else []"
  have "name83 name ! i = (if i < 8 then pad_to 8 ?base ! i else pad_to 3 ?ext ! (i - 8))"
    by (simp add: name83_def Let_def nth_append)
  moreover have "i - 8 < 3" using assms by simp
  ultimately show ?thesis
    using assms by (auto simp: create_dir_entry_def Let_def nth_copy_slice nth_pad_spaces pad_to_def nth_append
        nth_list_update)
qed

lemma entry_fields:
  "create_dir_entry name c n ! 11 = 0x20"
  "get_u16 (create_dir_entry name c n) 20 = ucast (drop_bit 16 c)"
  "get_u16 (create_dir_entry name c n) 26 = ucast c"
  "get_u32 (create_dir_entry name c n) 28 = n"
proof -
  have h: "(ucast (take_bit 16 w) :: u16) = ucast w" for w :: u32
    by (rule bit_word_eqI) (auto simp: bit_simps)
  show "create_dir_entry name c n ! 11 = 0x20"
    "get_u16 (create_dir_entry name c n) 20 = ucast (drop_bit 16 c)"
    "get_u16 (create_dir_entry name c n) 26 = ucast c"
    "get_u32 (create_dir_entry name c n) 28 = n"
    by (simp_all add: create_dir_entry_def Let_def get_u16_def get_u32_def nth_copy_slice u16_to_le_bytes_def
        u32_to_le_bytes_def h)
qed

lemma cluster_halves: "push_bit 16 (ucast (ucast (drop_bit 16 c) :: u16)) OR ucast (ucast c :: u16) = (c :: u32)"
  by (rule bit_word_eqI) (auto simp: bit_simps not_less)

lemma parse_created:
  "parse_entry (create_dir_entry name c n) 0 =
     \<lparr>de_name = name83 name, attributes = 0x20, first_cluster = c, file_size = n\<rparr>"
proof -
  have "copy_slice (replicate 11 0) 0 (take 11 (create_dir_entry name c n)) = name83 name"
    by (rule nth_equalityI) (simp_all add: nth_copy_slice entry_name_bytes)
  then show ?thesis
    using entry_fields [of name c n] cluster_halves [of c] by (simp add: parse_entry_def Let_def)
qed

text \<open>Splitting a name that has one dot.\<close>

lemma split_on_absent: "c \<notin> set xs \<Longrightarrow> split_on c xs = [xs]"
  by (induction xs) auto

lemma split_on_once: "c \<notin> set xs \<Longrightarrow> split_on c (xs @ c # ys) = xs # split_on c ys"
  by (induction xs) auto

lemma push_name_eq: "push_name bs name = name @ map (\<lambda>b. char_of (unat b)) (filter (\<lambda>b. b \<noteq> 0x20 \<and> b \<noteq> 0) bs)"
  by (induction bs arbitrary: name) auto

section \<open>Adding an entry to a directory\<close>

text \<open>The sectors of a chain, in order, and the first free slot in a list of sectors.\<close>

definition chain_sectors :: "Fat32 \<Rightarrow> u32 list \<Rightarrow> nat list" where
  "chain_sectors b cs = concat (map (\<lambda>c. map ((+) (cluster_start b c)) [0..<unat (sectors_per_cluster b)]) cs)"

definition sectors_data :: "(u32 \<Rightarrow> u8 list) \<Rightarrow> nat list \<Rightarrow> u8 list" where
  "sectors_data d ns = concat (map (\<lambda>n. d (sect n)) ns)"

fun slot_in :: "(u32 \<Rightarrow> u8 list) \<Rightarrow> nat list \<Rightarrow> (nat \<times> nat) option" where
  "slot_in d [] = None"
| "slot_in d (n # ns) = (case free_slot (d (sect n)) [0..<16] of Some i \<Rightarrow> Some (n, i) | None \<Rightarrow> slot_in d ns)"

lemma slot_in_append: "slot_in d (ms @ ns) = (case slot_in d ms of Some p \<Rightarrow> Some p | None \<Rightarrow> slot_in d ns)"
  by (induction ms) (auto split: option.splits)

lemma chain_data_sectors: "chain_data b d cs = sectors_data d (chain_sectors b cs)"
  by (induction cs) (auto simp: chain_data_def sectors_data_def chain_sectors_def cluster_data_def o_def)

lemma free_slot_Some: "free_slot sector js = Some i \<Longrightarrow> i \<in> set js \<and> (sector ! (i * 32) = 0 \<or> sector ! (i * 32) = 0xE5)"
  by (induction js) (auto split: if_splits)

lemma slot_in_Some:
  "slot_in d ns = Some (n, i) \<Longrightarrow> n \<in> set ns \<and> i < 16 \<and> (d (sect n) ! (i * 32) = 0 \<or> d (sect n) ! (i * 32) = 0xE5)"
  by (induction ns) (auto dest: free_slot_Some split: option.splits)

lemma chain_sectors_bound:
  assumes "volume_ok b" and "list_all (is_cluster b) cs" and "n \<in> set (chain_sectors b cs)"
  shows "data_start b \<le> n" and "n < 2 ^ 28"
  using assms cluster_start_bounds [OF assms(1)] by (fastforce simp: chain_sectors_def list_all_iff)+

lemma chain_sectors_cluster:
  assumes "n \<in> set (chain_sectors b cs)"
  obtains c j where "c \<in> set cs" and "j < unat (sectors_per_cluster b)" and "n = cluster_start b c + j"
proof -
  from assms obtain c where c: "c \<in> set cs" "cluster_start b c \<le> n" "n < cluster_start b c + unat (sectors_per_cluster b)"
    by (auto simp: chain_sectors_def)
  show ?thesis by (rule that [of c "n - cluster_start b c"]) (use c in auto)
qed

lemma fat_chain_tails: "fat_chain f c cs \<Longrightarrow> x \<in> set cs \<Longrightarrow> \<exists>ys. fat_chain f x ys \<and> length ys \<le> length cs"
proof (induction rule: fat_chain.induct)
  case (last c)
  then show ?case by (auto intro: fat_chain.last)
next
  case (link c cs)
  show ?case
  proof (cases "x = c")
    case True
    then show ?thesis using fat_chain.link [OF link.hyps] by auto
  next
    case False
    then show ?thesis using link.IH link.prems by (auto intro: le_SucI)
  qed
qed

lemma fat_chain_distinct: "fat_chain f c cs \<Longrightarrow> distinct cs"
proof (induction rule: fat_chain.induct)
  case (last c)
  then show ?case by simp
next
  case (link c cs)
  have "c \<notin> set cs"
  proof
    assume "c \<in> set cs"
    then obtain ys where "fat_chain f c ys" "length ys \<le> length cs" using fat_chain_tails [OF link.hyps(2)] by blast
    moreover have "fat_chain f c (c # cs)" using link.hyps by (rule fat_chain.link)
    ultimately show False using fat_chain_unique by fastforce
  qed
  then show ?case using link.IH by simp
qed

lemma distinct_chain_sectors:
  assumes "distinct cs" and "list_all (is_cluster b) cs"
  shows "distinct (chain_sectors b cs)"
  using assms
proof (induction cs)
  case Nil
  then show ?case by (simp add: chain_sectors_def)
next
  case (Cons c cs)
  have "chain_sectors b (c # cs) = map ((+) (cluster_start b c)) [0..<unat (sectors_per_cluster b)] @ chain_sectors b cs"
    by (simp add: chain_sectors_def)
  moreover have "distinct (map ((+) (cluster_start b c)) [0..<unat (sectors_per_cluster b)])"
    by (simp add: distinct_map)
  moreover have "cluster_start b c + j \<notin> set (chain_sectors b cs)" if j: "j < unat (sectors_per_cluster b)" for j
  proof
    assume n: "cluster_start b c + j \<in> set (chain_sectors b cs)"
    obtain c' j' where "c' \<in> set cs" "j' < unat (sectors_per_cluster b)" "cluster_start b c + j = cluster_start b c' + j'"
      by (rule chain_sectors_cluster [OF n])
    then show False using cluster_sector_inj [of c c' j b j'] j Cons.prems by (auto simp: is_cluster_def list_all_iff)
  qed
  ultimately show ?case using Cons by (auto simp del: set_upt simp: atLeast_upt [symmetric])
qed

text \<open>Storing a record in the first free slot puts it into the bytes of the whole directory.\<close>

lemma slot_in_data:
  assumes "slot_in d ns = Some (n, i)" and "distinct ns" and "\<forall>m \<in> set ns. m < 2 ^ 32" and "\<forall>l. length (d l) = 512"
    and "length entry = 32" and "d' = d(sect n := copy_slice (d (sect n)) (i * 32) entry)"
  shows "\<exists>as rec bs. sectors_data d ns = as @ rec @ bs \<and> sectors_data d' ns = as @ entry @ bs \<and>
    32 dvd length as \<and> length rec = 32 \<and> (rec ! 0 = 0 \<or> rec ! 0 = 0xE5)"
  using assms(1-3)
proof (induction ns)
  case Nil
  then show ?case by simp
next
  case (Cons m ns)
  show ?case
  proof (cases "free_slot (d (sect m)) [0..<16]")
    case (Some k)
    then have n: "n = m" "i = k" using Cons.prems(1) by simp_all
    from Some have i: "i < 16" "d (sect m) ! (i * 32) = 0 \<or> d (sect m) ! (i * 32) = 0xE5"
      using free_slot_Some [OF Some] n by auto
    let ?x = "d (sect m)"
    have "?x = take (i * 32) ?x @ take 32 (drop (i * 32) ?x) @ drop (i * 32 + 32) ?x"
      using append_take_drop_id [of "i * 32" ?x] append_take_drop_id [of 32 "drop (i * 32) ?x"]
      by (simp only: drop_drop add.commute [of 32])
    then have "sectors_data d (m # ns) = take (i * 32) ?x @ take 32 (drop (i * 32) ?x) @ drop (i * 32 + 32) ?x @ sectors_data d ns"
      unfolding sectors_data_def list.map concat.simps by (metis append_assoc)
    moreover have u: "map (\<lambda>n. d' (sect n)) ns = map (\<lambda>n. d (sect n)) ns"
    proof (rule map_cong [OF refl])
      fix k assume "k \<in> set ns"
      then have "sect k \<noteq> sect n" using Cons.prems(2,3) n sect_inj [of k n] by auto
      then show "d' (sect k) = d (sect k)" using assms(6) by simp
    qed
    moreover have "d' (sect m) = take (i * 32) ?x @ entry @ drop (i * 32 + 32) ?x"
      using n assms(5,6) by (simp add: copy_slice_def)
    then have "sectors_data d' (m # ns) = take (i * 32) ?x @ entry @ drop (i * 32 + 32) ?x @ sectors_data d ns"
      by (simp only: sectors_data_def list.map concat.simps u append_assoc)
    moreover have "32 dvd length (take (i * 32) ?x)" "length (take 32 (drop (i * 32) ?x)) = 32"
      "take 32 (drop (i * 32) ?x) ! 0 = ?x ! (i * 32)"
      using i assms(4) by (simp_all add: min_absorb2)
    ultimately show ?thesis using i(2)
      by (intro exI [of _ "take (i * 32) ?x"] exI [of _ "take 32 (drop (i * 32) ?x)"]
          exI [of _ "drop (i * 32 + 32) ?x @ sectors_data d ns"]) simp
  next
    case None
    then have s: "slot_in d ns = Some (n, i)" using Cons.prems(1) by simp
    then have "n \<in> set ns" by (simp add: slot_in_Some)
    then have "n \<noteq> m" using Cons.prems(2) by auto
    then have m: "d' (sect m) = d (sect m)" using Cons.prems(3) \<open>n \<in> set ns\<close> assms(6) by (simp add: sect_inj)
    obtain as rec bs where IH: "sectors_data d ns = as @ rec @ bs" "sectors_data d' ns = as @ entry @ bs"
      "32 dvd length as" "length rec = 32" "rec ! 0 = 0 \<or> rec ! 0 = 0xE5"
      using Cons.IH [OF s] Cons.prems(2,3) by auto
    have "32 dvd length (d (sect m) @ as)" using IH(3) assms(4) by simp
    then show ?thesis using IH m
      by (intro exI [of _ "d (sect m) @ as"] exI [of _ rec] exI [of _ bs]) (simp add: sectors_data_def)
  qed
qed

text \<open>The disk after an entry has been written to a slot.\<close>

definition put_slot :: "u8 list \<Rightarrow> nat \<times> nat \<Rightarrow> (u32 \<Rightarrow> u8 list) \<Rightarrow> u32 \<Rightarrow> u8 list" where
  "put_slot entry p d = d(sect (fst p) := copy_slice (d (sect (fst p))) (snd p * 32) entry)"

definition put_first :: "u8 list \<Rightarrow> (nat \<times> nat) option \<Rightarrow> (u32 \<Rightarrow> u8 list) \<Rightarrow> u32 \<Rightarrow> u8 list" where
  "put_first entry q d = (case q of None \<Rightarrow> d | Some p \<Rightarrow> put_slot entry p d)"

lemma put_first_simps [simp]:
  "put_first entry None d = d"
  "put_first entry (Some p) d = put_slot entry p d"
  by (simp_all add: put_first_def)

context sector_store
begin

lemma write_slot_run_ok:
  assumes "ok s" and "\<forall>j \<in> set js. m + j < 2 ^ 28" and "length entry = 32"
  shows "\<exists>s'. write_slot_run oc D entry (sect m) js s = (Ret (Ok (slot_in (dsk s) (map ((+) m) js) \<noteq> None)), s') \<and> ok s' \<and>
    dsk s' = put_first entry (slot_in (dsk s) (map ((+) m) js)) (dsk s)"
  using assms(1,2)
proof (induction js arbitrary: s)
  case Nil
  then show ?case by simp
next
  case (Cons j js)
  then have n: "m + j < 2 ^ 28" by simp
  obtain s1 where s1: "d_read D (sect (m + j)) s = (Ret (dsk s (sect (m + j))), s1)" "ok s1" "dsk s1 = dsk s"
    by (rule rd_sectE [OF Cons.prems(1) n])
  have a: "add_oc oc (sect m) (of_nat j) = Ret (sect (m + j))" using n by (intro add_oc_sect) simp
  show ?case
  proof (cases "free_slot (dsk s (sect (m + j))) [0..<16]")
    case None
    then show ?thesis
      using Cons.IH [OF s1(2)] Cons.prems(2) s1 a by (simp add: io_bind_def del: upt_rec_numeral)
  next
    case (Some i)
    then have "i < 16" using free_slot_Some [OF Some] by auto
    then have "length (copy_slice (dsk s (sect (m + j))) (i * 32) entry) = 512"
      using length_law [OF Cons.prems(1)] assms(3) by simp
    then obtain s2 where "d_write D (sect (m + j)) (copy_slice (dsk s (sect (m + j))) (i * 32) entry) s1 = (Ret (Ok ()), s2)"
      "ok s2" "dsk s2 = (dsk s1)(sect (m + j) := copy_slice (dsk s (sect (m + j))) (i * 32) entry)"
      by (rule wr_sectE [OF s1(2) n])
    then show ?thesis
      using Some s1 a by (simp add: io_bind_def io_try_def put_slot_def fun_upd_def del: upt_rec_numeral)
  qed
qed

lemma write_slot_clusters_ok:
  assumes "ok s" and "volume_ok b" and "list_all (is_cluster b) cs" and "length entry = 32"
  shows "\<exists>s'. write_slot_clusters oc D b entry cs s = (Ret (case slot_in (dsk s) (chain_sectors b cs) of
      None \<Rightarrow> Err ''No free directory entries available'' | Some p \<Rightarrow> Ok ()), s') \<and> ok s' \<and>
    dsk s' = put_first entry (slot_in (dsk s) (chain_sectors b cs)) (dsk s)"
  using assms(1,3)
proof (induction cs arbitrary: s)
  case Nil
  then show ?case by (simp add: chain_sectors_def)
next
  case (Cons c cs)
  then have c: "cluster_ok b c" using is_cluster_ok [OF assms(2)] by simp
  let ?ns = "map ((+) (cluster_start b c)) [0..<unat (sectors_per_cluster b)]"
  obtain s1 where s1: "write_slot_run oc D entry (sect (cluster_start b c)) [0..<unat (sectors_per_cluster b)] s =
      (Ret (Ok (slot_in (dsk s) ?ns \<noteq> None)), s1)" "ok s1"
    "dsk s1 = put_first entry (slot_in (dsk s) ?ns) (dsk s)"
    using write_slot_run_ok [OF Cons.prems(1) cluster_sectors [OF c] assms(4)] by blast
  have cs: "chain_sectors b (c # cs) = ?ns @ chain_sectors b cs" by (simp add: chain_sectors_def)
  show ?case
  proof (cases "slot_in (dsk s) ?ns")
    case None
    then show ?thesis
      using Cons.IH [OF s1(2)] Cons.prems(2) s1 cluster_to_sector_ok [OF c, of oc]
      by (simp add: cs slot_in_append io_bind_def io_try_def)
  next
    case (Some p)
    then show ?thesis
      using s1 cluster_to_sector_ok [OF c, of oc] by (simp add: cs slot_in_append io_bind_def io_try_def)
  qed
qed

lemma write_dir_entry_ok:
  assumes "ok s" and "volume_ok b" and "fat_chain (fat_entry b (dsk s)) dc cs" and "length cs \<le> MAX_ITERATIONS"
    and "list_all (is_cluster b) cs" and "length entry = 32"
  shows "\<exists>s'. write_dir_entry oc D b dc entry s = (Ret (case slot_in (dsk s) (chain_sectors b cs) of
      None \<Rightarrow> Err ''No free directory entries available'' | Some p \<Rightarrow> Ok ()), s') \<and> ok s' \<and>
    dsk s' = put_first entry (slot_in (dsk s) (chain_sectors b cs)) (dsk s)"
proof -
  obtain s1 where s1: "follow_cluster_chain oc D b dc s = (Ret (Ok cs), s1)" "ok s1" "dsk s1 = dsk s"
    by (rule follow_chain [OF assms(1,3,4)])
  then show ?thesis
    using write_slot_clusters_ok [OF s1(2) assms(2,5,6), of oc] by (simp add: write_dir_entry_def io_try_def io_bind_def)
qed

end

text \<open>The entries of the directory before and after.\<close>

lemma dir_entries_single:
  assumes "length xs = 32"
  shows "dir_entries xs = (if is_valid (parse_entry xs 0) then [parse_entry xs 0] else [])"
  using assms by (simp add: dir_entries_def)

lemma dir_entries_put:
  assumes "volume_ok b" and "\<forall>l. length (d l) = 512" and "list_all (is_cluster b) cs" and "distinct cs"
    and "slot_in d (chain_sectors b cs) = Some p" and "length entry = 32" and "is_valid (parse_entry entry 0)"
  shows "\<exists>xs ys. dir_entries (chain_data b d cs) = xs @ ys \<and>
    dir_entries (chain_data b (put_slot entry p d) cs) = xs @ parse_entry entry 0 # ys"
proof -
  obtain n i where p: "p = (n, i)" by fastforce
  have "\<forall>m \<in> set (chain_sectors b cs). m < 2 ^ 32" using chain_sectors_bound(2) [OF assms(1,3)] by fastforce
  then obtain as rec bs where r: "chain_data b d cs = as @ rec @ bs"
    "chain_data b (put_slot entry p d) cs = as @ entry @ bs"
    "32 dvd length as" "length rec = 32" "rec ! 0 = 0 \<or> rec ! 0 = 0xE5"
    using slot_in_data [of d "chain_sectors b cs" n i entry "put_slot entry p d"] assms(2,5,6) p
      distinct_chain_sectors [OF assms(4,3)] unfolding chain_data_sectors by (auto simp: put_slot_def)
  have "\<not> is_valid (parse_entry rec 0)"
    using r(4,5) by (auto simp: is_valid_def parse_entry_def Let_def nth_copy_slice)
  then have "dir_entries rec = []" using r(4) by (simp add: dir_entries_single)
  moreover have "dir_entries entry = [parse_entry entry 0]" using assms(6,7) by (simp add: dir_entries_single)
  ultimately show ?thesis
    using r assms(6) by (intro exI [of _ "dir_entries as"] exI [of _ "dir_entries bs"]) (simp add: dir_entries_append)
qed

section \<open>Creating a file\<close>

lemma chain_entry_nonzero: "fat_chain f c cs \<Longrightarrow> 0 \<notin> set cs \<Longrightarrow> x \<in> set cs \<Longrightarrow> f x \<noteq> 0"
proof (induction rule: fat_chain.induct)
  case (last c)
  then show ?case by auto
next
  case (link c cs)
  from link.hyps(2) have "f c \<in> set cs" by (cases rule: fat_chain.cases) auto
  then have "f c \<noteq> 0" using link.prems(1) by auto
  then show ?case using link by auto
qed

lemma fat_chain_cong: "fat_chain f c cs \<Longrightarrow> \<forall>x \<in> set cs. g x = f x \<Longrightarrow> fat_chain g c cs"
proof (induction rule: fat_chain.induct)
  case (last c)
  then show ?case by (intro fat_chain.last) simp
next
  case (link c cs)
  then have "fat_chain g (g c) cs" "g c < 0x0FFFFFF8" by simp_all
  then show ?case by (intro fat_chain.link)
qed

lemma chain_not_new:
  assumes "volume_ok b" and "fat_chain (fat_entry b d) dc dcs" and "list_all (is_cluster b) dcs" and "x \<in> set dcs"
  shows "x \<notin> set (new_clusters b d k)" and "unat x < fat_entries b"
proof -
  have "0 \<notin> set dcs" using assms(3) by (auto simp: list_all_iff is_cluster_def)
  from chain_entry_nonzero [OF assms(2) this assms(4)] show "x \<notin> set (new_clusters b d k)"
    using new_clusters_free(2) [OF assms(1)] by blast
  show "unat x < fat_entries b" using assms(3,4) by (simp add: list_all_iff is_cluster_def)
qed

text \<open>Storing the chunks of a new file leaves a directory as it is.\<close>

lemma stored_keeps_chain:
  assumes "volume_ok b" and "fat_chain (fat_entry b d) dc dcs" and "list_all (is_cluster b) dcs"
    and "chunks_stored b ks (new_clusters b d (length ks)) None d d1"
  shows "fat_chain (fat_entry b d1) dc dcs" and "n \<in> set (chain_sectors b dcs) \<Longrightarrow> d1 (sect n) = d (sect n)"
proof -
  note new = chain_not_new [OF assms(1-3)]
  show "fat_chain (fat_entry b d1) dc dcs"
    by (rule fat_chain_cong [OF assms(2)]) (use new assms(4) in \<open>auto simp: chunks_stored_def\<close>)
  assume n: "n \<in> set (chain_sectors b dcs)"
  obtain c j where c: "c \<in> set dcs" "j < unat (sectors_per_cluster b)" "n = cluster_start b c + j"
    by (rule chain_sectors_cluster [OF n])
  have "n \<noteq> cluster_start b x" if x: "x \<in> set (new_clusters b d (length ks))" for x
    using cluster_sector_inj [of c x j b 0] c x new(1) [OF c(1)] new_clusters_free(1) [OF assms(1) x] assms(1,3)
    by (auto simp: list_all_iff is_cluster_def volume_ok_def)
  then show "d1 (sect n) = d (sect n)"
    using assms(4) chain_sectors_bound [OF assms(1,3) n] unfolding chunks_stored_def by blast
qed

lemma slot_in_cong: "\<forall>n \<in> set ns. d1 (sect n) = d (sect n) \<Longrightarrow> slot_in d1 ns = slot_in d ns"
  by (induction ns) (auto split: option.splits)

lemma sectors_data_cong: "\<forall>n \<in> set ns. d1 (sect n) = d (sect n) \<Longrightarrow> sectors_data d1 ns = sectors_data d ns"
  unfolding sectors_data_def by (rule arg_cong [where f = concat]) simp

definition first_or_zero :: "u32 list \<Rightarrow> u32" where
  "first_or_zero cs = (case cs of c # _ \<Rightarrow> c | [] \<Rightarrow> 0)"

definition file_chunks :: "Fat32 \<Rightarrow> u8 list \<Rightarrow> u8 list list" where
  "file_chunks b data = chunks (512 * unat (sectors_per_cluster b)) data"

text \<open>The hypotheses under which a file can be created: room for the data, and a directory with a free slot.\<close>

definition can_create :: "Fat32 \<Rightarrow> (u32 \<Rightarrow> u8 list) \<Rightarrow> u32 \<Rightarrow> u32 list \<Rightarrow> u8 list \<Rightarrow> u8 list \<Rightarrow> bool" where
  "can_create b d dc dcs name data \<longleftrightarrow>
     volume_ok b \<and> length name \<le> 12 \<and> length (file_chunks b data) \<le> length (free_list b d) \<and>
     fat_chain (fat_entry b d) dc dcs \<and> length dcs \<le> 10000 \<and> list_all (is_cluster b) dcs \<and>
     slot_in d (chain_sectors b dcs) \<noteq> None"

text \<open>Reading the file back.\<close>

lemma put_slot_entry:
  assumes "volume_ok b" and "list_all (is_cluster b) dcs" and "slot_in d (chain_sectors b dcs) = Some p"
    and "unat x < fat_entries b"
  shows "fat_entry b (put_slot entry p d) x = fat_entry b d x"
proof -
  have "fst p \<in> set (chain_sectors b dcs)" using slot_in_Some [of d _ "fst p" "snd p"] assms(3) by simp
  from chain_sectors_bound [OF assms(1,2) this] show ?thesis
    unfolding put_slot_def by (intro data_sector_entry [OF assms(1,4)]) simp_all
qed

lemma put_slot_other:
  assumes "volume_ok b" and "list_all (is_cluster b) dcs" and "slot_in d (chain_sectors b dcs) = Some p"
    and "is_cluster b c" and "c \<notin> set dcs" and "j < unat (sectors_per_cluster b)"
  shows "put_slot entry p d (sect (cluster_start b c + j)) = d (sect (cluster_start b c + j))"
proof -
  have p: "fst p \<in> set (chain_sectors b dcs)" using slot_in_Some [of d _ "fst p" "snd p"] assms(3) by simp
  obtain x i where x: "x \<in> set dcs" "i < unat (sectors_per_cluster b)" "fst p = cluster_start b x + i"
    by (rule chain_sectors_cluster [OF p])
  have "2 \<le> unat c" "2 \<le> unat x" using x(1) assms(2,4) by (simp_all add: list_all_iff is_cluster_def)
  moreover have "c \<noteq> x" using x(1) assms(5) by blast
  ultimately have "fst p \<noteq> cluster_start b c + j"
    using cluster_sector_inj [of c x j b i] x(2,3) assms(6) by metis
  then have "sect (fst p) \<noteq> sect (cluster_start b c + j)"
    using chain_sectors_bound(2) [OF assms(1,2) p] cluster_start_bounds(3) [OF assms(1,4,6)] by (simp add: sect_inj)
  then show ?thesis by (simp add: put_slot_def)
qed

lemma take_chunks: "take (length xs) (concat (map pad_sector (chunks 512 xs))) = xs"
proof (induction "length xs" arbitrary: xs rule: less_induct)
  case less
  show ?case
  proof (cases "xs = []")
    case True
    then show ?thesis by simp
  next
    case False
    then have c: "chunks 512 xs = take 512 xs # chunks 512 (drop 512 xs)" by (subst chunks.simps) simp
    have "take (length (drop 512 xs)) (concat (map pad_sector (chunks 512 (drop 512 xs)))) = drop 512 xs"
      using less [of "drop 512 xs"] False by simp
    moreover have "pad_sector (take 512 xs) = take 512 xs @ replicate (512 - length xs) 0"
      by (simp add: pad_sector_def copy_slice_def min_def)
    ultimately show ?thesis by (cases "length xs \<le> 512") (simp_all add: c)
  qed
qed

lemma length_chunks: "0 < n \<Longrightarrow> length xs \<le> n * k \<Longrightarrow> length (chunks n xs) \<le> k"
proof (induction k arbitrary: xs)
  case 0
  then show ?case by (subst chunks.simps) simp
next
  case (Suc k)
  then have "length (chunks n (drop n xs)) \<le> k" by (intro Suc.IH) auto
  then show ?case by (subst chunks.simps) simp
qed

lemma chunks_nonempty: "0 < n \<Longrightarrow> xs \<noteq> [] \<Longrightarrow> chunks n xs \<noteq> []"
  by (subst chunks.simps) simp

lemma stored_read_back:
  assumes v: "volume_ok b" and spc: "unat (sectors_per_cluster b) = 1"
    and dcs: "list_all (is_cluster b) dcs" "fat_chain (fat_entry b d) dc dcs"
    and cs: "cs = new_clusters b d (length ks)" "cs \<noteq> []"
    and st: "chunks_stored b ks cs None d d1" and p: "slot_in d1 (chain_sectors b dcs) = Some p"
  shows "fat_chain (fat_entry b (put_slot entry p d1)) (hd cs) cs"
    and "chain_data b (put_slot entry p d1) cs = concat (map pad_sector ks)"
proof -
  have c: "is_cluster b x" "x \<notin> set dcs" if "x \<in> set cs" for x
    using new_clusters_free(1) [OF v] chain_not_new(1) [OF v dcs(2,1)] that cs(1) by blast+
  have "fat_chain (fat_entry b d1) (hd cs) cs" using st cs(2) by (simp add: chunks_stored_def)
  then show "fat_chain (fat_entry b (put_slot entry p d1)) (hd cs) cs"
    by (rule fat_chain_cong) (use c put_slot_entry [OF v dcs(1) p] in \<open>auto simp: is_cluster_def\<close>)
  have "cluster_data b (put_slot entry p d1) (cs ! i) = pad_sector (ks ! i)" if i: "i < length cs" for i
    using put_slot_other [OF v dcs(1) p c [OF nth_mem [OF i]], of 0] st i spc
    by (simp add: cluster_data_def chunks_stored_def)
  moreover have "length cs = length ks" using st by (simp add: chunks_stored_def)
  ultimately have "map (cluster_data b (put_slot entry p d1)) cs = map pad_sector ks"
    by (intro nth_equalityI) auto
  then show "chain_data b (put_slot entry p d1) cs = concat (map pad_sector ks)" by (simp add: chain_data_def)
qed

text \<open>The disk after a successful \<open>create_file\<close>, with the clusters of the new file.\<close>

definition new_entry :: "u8 list \<Rightarrow> u32 list \<Rightarrow> u8 list \<Rightarrow> DirEntry" where
  "new_entry name cs data =
     \<lparr>de_name = name83 name, attributes = 0x20, first_cluster = first_or_zero cs, file_size = of_nat (length data)\<rparr>"

definition created ::
  "Fat32 \<Rightarrow> (u32 \<Rightarrow> u8 list) \<Rightarrow> u32 list \<Rightarrow> u8 list \<Rightarrow> u8 list \<Rightarrow> u32 list \<Rightarrow> (u32 \<Rightarrow> u8 list) \<Rightarrow> bool" where
  "created b d dcs name data cs d' \<longleftrightarrow> (\<exists>d1 p. cs = new_clusters b d (length (file_chunks b data)) \<and>
     chunks_stored b (file_chunks b data) cs None d d1 \<and> (\<forall>l. length (d1 l) = 512) \<and>
     slot_in d1 (chain_sectors b dcs) = Some p \<and>
     d' = put_slot (create_dir_entry name (first_or_zero cs) (of_nat (length data))) p d1)"

context sector_store
begin

lemma create_file_ok:
  assumes "ok s" and "can_create b (dsk s) dc dcs name data"
  obtains s' cs where "create_file oc D b dc name data s = (Ret (Ok ()), s')" and "ok s'"
    and "created b (dsk s) dcs name data cs (dsk s')"
proof -
  let ?ks = "file_chunks b data" and ?cs = "new_clusters b (dsk s) (length (file_chunks b data))"
  let ?entry = "create_dir_entry name (first_or_zero ?cs) (of_nat (length data))"
  have v: "volume_ok b" and name: "length name \<le> 12" and k: "length ?ks \<le> length (free_list b (dsk s))"
    and dc: "fat_chain (fat_entry b (dsk s)) dc dcs" "length dcs \<le> MAX_ITERATIONS" "list_all (is_cluster b) dcs"
    and p: "slot_in (dsk s) (chain_sectors b dcs) \<noteq> None"
    using assms(2) by (simp_all add: can_create_def MAX_ITERATIONS_def)
  obtain s1 where s1: "write_chunks oc D b ?ks None None s =
      (Ret (Ok (case ?cs of c # _ \<Rightarrow> Some c | [] \<Rightarrow> None)), s1)" "ok s1" "chunks_stored b ?ks ?cs None (dsk s) (dsk s1)"
    using write_chunks_ok [OF assms(1) v _ k, of None oc None] by (auto simp: cur_ok_def)
  note keep = stored_keeps_chain [OF v dc(1,3) s1(3)]
  have slot: "slot_in (dsk s1) (chain_sectors b dcs) = slot_in (dsk s) (chain_sectors b dcs)"
    using keep(2) by (intro slot_in_cong) simp
  then obtain q where q: "slot_in (dsk s1) (chain_sectors b dcs) = Some q" using p by auto
  from write_dir_entry_ok [OF s1(2) v keep(1) dc(2,3), of ?entry oc] q obtain s2 where
    s2: "write_dir_entry oc D b dc ?entry s1 = (Ret (Ok ()), s2)" "ok s2" "dsk s2 = put_slot ?entry q (dsk s1)" by auto
  have "sectors_per_cluster b \<noteq> 0" using v by (auto simp: volume_ok_def)
  moreover have "(case (case ?cs of c # _ \<Rightarrow> Some c | [] \<Rightarrow> None) of Some c \<Rightarrow> c | None \<Rightarrow> 0) = first_or_zero ?cs"
    by (simp add: first_or_zero_def split: list.splits)
  ultimately have "create_file oc D b dc name data s = (Ret (Ok ()), s2)"
    using name s1(1) s2(1) by (simp add: create_file_def file_chunks_def io_try_def io_bind_def Let_def)
  moreover have "created b (dsk s) dcs name data ?cs (dsk s2)"
    unfolding created_def using s1(3) s2(3) q lengths [OF s1(2)] by blast
  ultimately show ?thesis using that s2(2) by blast
qed

end

lemma created_list:
  assumes "created b d dcs name data cs d'" and "can_create b d dc dcs name data" and "name83 name ! 0 \<notin> {0, 0xE5}"
  shows "fat_chain (fat_entry b d') dc dcs"
    and "\<exists>xs ys. dir_entries (chain_data b d dcs) = xs @ ys \<and> dir_entries (chain_data b d' dcs) = xs @ new_entry name cs data # ys"
proof -
  from assms(1) obtain d1 p where c: "chunks_stored b (file_chunks b data) (new_clusters b d (length (file_chunks b data))) None d d1"
    "\<forall>l. length (d1 l) = 512" "slot_in d1 (chain_sectors b dcs) = Some p"
    "d' = put_slot (create_dir_entry name (first_or_zero cs) (of_nat (length data))) p d1"
    by (auto simp: created_def)
  have v: "volume_ok b" and dcs: "fat_chain (fat_entry b d) dc dcs" "list_all (is_cluster b) dcs"
    using assms(2) by (simp_all add: can_create_def)
  note keep = stored_keeps_chain [OF v dcs c(1)]
  show "fat_chain (fat_entry b d') dc dcs"
    unfolding c(4) by (rule fat_chain_cong [OF keep(1)])
      (use put_slot_entry [OF v dcs(2) c(3)] dcs(2) in \<open>auto simp: list_all_iff is_cluster_def\<close>)
  have "chain_data b d1 dcs = chain_data b d dcs"
    unfolding chain_data_sectors by (rule sectors_data_cong) (use keep(2) in blast)
  moreover have "is_valid (new_entry name cs data)" using assms(3) by (simp add: is_valid_def new_entry_def)
  ultimately show "\<exists>xs ys. dir_entries (chain_data b d dcs) = xs @ ys \<and>
      dir_entries (chain_data b d' dcs) = xs @ new_entry name cs data # ys"
    using dir_entries_put [OF v c(2) dcs(2) fat_chain_distinct [OF dcs(1)] c(3),
        of "create_dir_entry name (first_or_zero cs) (of_nat (length data))"]
    unfolding c(4) parse_created new_entry_def by auto
qed

lemma created_read:
  assumes "created b d dcs name data cs d'" and "can_create b d dc dcs name data"
    and "unat (sectors_per_cluster b) = 1" and "data \<noteq> []"
  shows "fat_chain (fat_entry b d') (first_or_zero cs) cs" and "take (length data) (chain_data b d' cs) = data"
    and "list_all (cluster_ok b) cs" and "length cs = length (chunks 512 data)"
proof -
  have v: "volume_ok b" and dcs: "fat_chain (fat_entry b d) dc dcs" "list_all (is_cluster b) dcs"
    using assms(2) by (simp_all add: can_create_def)
  from assms(1) obtain d1 p where c: "cs = new_clusters b d (length (file_chunks b data))"
    "chunks_stored b (file_chunks b data) cs None d d1" "slot_in d1 (chain_sectors b dcs) = Some p"
    "d' = put_slot (create_dir_entry name (first_or_zero cs) (of_nat (length data))) p d1"
    by (auto simp: created_def)
  have k: "file_chunks b data = chunks 512 data" using assms(3) by (simp add: file_chunks_def)
  show len: "length cs = length (chunks 512 data)" using c(2) k by (simp add: chunks_stored_def)
  then have "cs \<noteq> []" using chunks_nonempty [of 512 data] assms(4) by auto
  note r = stored_read_back [OF v assms(3) dcs(2,1) c(1) this c(2,3)]
  have "first_or_zero cs = hd cs" using \<open>cs \<noteq> []\<close> by (cases cs) (simp_all add: first_or_zero_def)
  then show "fat_chain (fat_entry b d') (first_or_zero cs) cs" using r(1) unfolding c(4) by simp
  show "take (length data) (chain_data b d' cs) = data" unfolding c(4) r(2) k by (rule take_chunks)
  show "list_all (cluster_ok b) cs"
    using new_clusters_free(1) [OF v] is_cluster_ok [OF v] c(1) by (auto simp: list_all_iff)
qed

section \<open>Properties\<close>

text \<open>
  The volume of theory \<open>Fat32_Read\<close> on the drive whose write path works; its clusters 4 and 6
  are free.
\<close>

lemma small_volume_ok: "volume_ok small_boot"
  by (simp add: volume_ok_def small_boot_def data_start_def fat_entries_def)

lemma small_root_clusters: "list_all (is_cluster small_boot) [2]"
  by (simp add: is_cluster_def small_boot_def fat_entries_def)

lemma small_free_list: "2 \<le> length (free_list small_boot small_image)"
proof -
  have "fat_entry small_boot small_image 4 = 0" "fat_entry small_boot small_image 6 = 0"
    by (simp_all add: fat_entry_def fat_sector_def fat_offset_def small_boot_def small_image_def sect_def
        small_fat_def get_u32_def u32_to_le_bytes_def u32_from_le_bytes_def)
  then have "{4, 6} \<subseteq> set (free_list small_boot small_image)"
    by (simp add: free_list_def fat_entries_def small_boot_def del: upt_rec_numeral)
  then have "card {4 :: nat, 6} \<le> card (set (free_list small_boot small_image))" by (intro card_mono) auto
  also have "\<dots> \<le> length (free_list small_boot small_image)" by (rule card_length)
  finally show ?thesis by simp
qed

text \<open>
  \<open>find_free_cluster\<close> gives the least cluster number from 2 on whose FAT entry is zero, or the error
  when no entry of the FAT is free, and does not change the disk.
\<close>

theorem find_free_cluster_least:
  assumes "sector_store D ok dsk" and "ok s" and "volume_ok b"
  shows "\<exists>r s'. find_free_cluster oc D b s = (Ret r, s') \<and> ok s' \<and> dsk s' = dsk s \<and>
    (\<forall>c. r = Ok c \<longleftrightarrow> is_cluster b c \<and> fat_entry b (dsk s) c = 0 \<and>
       (\<forall>x. is_cluster b x \<longrightarrow> fat_entry b (dsk s) x = 0 \<longrightarrow> c \<le> x)) \<and>
    ((\<nexists>c. is_cluster b c \<and> fat_entry b (dsk s) c = 0) \<longrightarrow> r = Err ''No free clusters available'')"
proof -
  obtain s' where s': "find_free_cluster oc D b s = (Ret (case free_list b (dsk s) of
      n # _ \<Rightarrow> Ok (of_nat n) | [] \<Rightarrow> Err ''No free clusters available''), s')" "ok s'" "dsk s' = dsk s"
    by (rule sector_store.find_free_ok [OF assms])
  have mem: "is_cluster b x \<and> fat_entry b (dsk s) x = 0 \<longleftrightarrow> unat x \<in> set (free_list b (dsk s))" for x
    by (auto simp: is_cluster_def free_list_def)
  show ?thesis
  proof (cases "free_list b (dsk s)")
    case Nil
    then show ?thesis using s' mem by auto
  next
    case (Cons n ns)
    have "sorted (free_list b (dsk s))" by (simp add: free_list_def sorted_wrt_filter)
    then have n: "n \<le> m" if "m \<in> set (free_list b (dsk s))" for m using that Cons by auto
    have "n \<in> set (free_list b (dsk s))" using Cons by simp
    note f = free_listD [OF assms(3) this]
    have "(of_nat n = c) = (is_cluster b c \<and> fat_entry b (dsk s) c = 0 \<and>
        (\<forall>x. is_cluster b x \<longrightarrow> fat_entry b (dsk s) x = 0 \<longrightarrow> c \<le> x))" for c
      using f n mem by (metis order_antisym word_le_nat_alt)
    then show ?thesis using s' Cons f by auto
  qed
qed

theorem find_free_cluster_least_witness:
  "\<exists>r s'. find_free_cluster True (ata_ops ctl_env (ctl_irq True) 7 (Suc (Suc (Suc 0)))) small_boot small_disk = (Ret r, s') \<and>
    ata_idle ctl_ready s' \<and> c_image (ports s') = c_image (ports small_disk) \<and>
    (\<forall>c. r = Ok c \<longleftrightarrow> is_cluster small_boot c \<and> fat_entry small_boot (c_image (ports small_disk)) c = 0 \<and>
       (\<forall>x. is_cluster small_boot x \<longrightarrow> fat_entry small_boot (c_image (ports small_disk)) x = 0 \<longrightarrow> c \<le> x)) \<and>
    ((\<nexists>c. is_cluster small_boot c \<and> fat_entry small_boot (c_image (ports small_disk)) c = 0) \<longrightarrow>
       r = Err ''No free clusters available'')"
  by (rule find_free_cluster_least [OF level_fs.sector_store_axioms small_disk_idle small_volume_ok])

text \<open>
  \<open>set_fat_entry\<close> writes exactly one entry: afterwards the FAT gives the new value for that cluster
  and the old one for every other, the same sector is in the second FAT when there is one, and no
  sector of the data area has changed.
\<close>

theorem set_fat_entry_exact:
  assumes "sector_store D ok dsk" and "ok s" and "volume_ok b" and "unat c < fat_entries b"
  shows "\<exists>s'. set_fat_entry oc D b c v s = (Ret (Ok ()), s') \<and> ok s' \<and>
    (\<forall>x. unat x < fat_entries b \<longrightarrow> fat_entry b (dsk s') x = (if x = c then v else fat_entry b (dsk s) x)) \<and>
    (1 < num_fats b \<longrightarrow>
       dsk s' (sect (fat_sector b c + unat (sectors_per_fat_32 b))) = dsk s' (sect (fat_sector b c))) \<and>
    (\<forall>n. data_start b \<le> n \<longrightarrow> n < 2 ^ 28 \<longrightarrow> dsk s' (sect n) = dsk s (sect n))"
proof -
  obtain s' where s': "set_fat_entry oc D b c v s = (Ret (Ok ()), s')" "ok s'" "dsk s' = fat_write b c v (dsk s)"
    by (rule sector_store.set_fat_entry_ok [OF assms])
  have len: "\<forall>l. length (dsk s l) = 512" by (rule sector_store.lengths [OF assms(1,2)])
  have "1 < num_fats b \<longrightarrow> dsk s' (sect (fat_sector b c + unat (sectors_per_fat_32 b))) = dsk s' (sect (fat_sector b c))"
    by (simp add: s'(3) fat_write_def Let_def)
  then show ?thesis
    using s' fat_write_entry [OF assms(3) len assms(4)] fat_write_data [OF assms(3,4)] by auto
qed

theorem set_fat_entry_exact_witness:
  "\<exists>s'. set_fat_entry True (ata_ops ctl_env (ctl_irq True) 7 (Suc (Suc (Suc 0)))) small_boot 4 9 small_disk = (Ret (Ok ()), s') \<and>
    ata_idle ctl_ready s' \<and>
    (\<forall>x. unat x < fat_entries small_boot \<longrightarrow> fat_entry small_boot (c_image (ports s')) x =
       (if x = 4 then 9 else fat_entry small_boot (c_image (ports small_disk)) x)) \<and>
    (1 < num_fats small_boot \<longrightarrow>
       c_image (ports s') (sect (fat_sector small_boot 4 + unat (sectors_per_fat_32 small_boot))) =
       c_image (ports s') (sect (fat_sector small_boot 4))) \<and>
    (\<forall>n. data_start small_boot \<le> n \<longrightarrow> n < 2 ^ 28 \<longrightarrow>
       c_image (ports s') (sect n) = c_image (ports small_disk) (sect n))"
  by (rule set_fat_entry_exact [OF level_fs.sector_store_axioms small_disk_idle small_volume_ok])
    (simp add: fat_entries_def small_boot_def)

text \<open>
  \<open>allocate_cluster\<close> links a new cluster behind another: the cluster it returns was the least free
  one, its entry is the end mark or the given successor, the entry of the predecessor names it, and
  every other entry is as before.
\<close>

theorem allocate_cluster_links:
  assumes "sector_store D ok dsk" and "ok s" and "volume_ok b" and "prev \<noteq> None \<longrightarrow> is_cluster b (the prev)"
    and "free_list b (dsk s) = n # ns" and "prev \<noteq> Some (of_nat n)"
  shows "\<exists>s'. allocate_cluster oc D b prev nxt s = (Ret (Ok (of_nat n)), s') \<and> ok s' \<and>
    (\<forall>x. unat x < fat_entries b \<longrightarrow> fat_entry b (dsk s') x =
       (if x = of_nat n then (case nxt of None \<Rightarrow> 0x0FFFFFF8 | Some v \<Rightarrow> v)
        else if prev = Some x then of_nat n else fat_entry b (dsk s) x))"
proof -
  let ?v = "case nxt of None \<Rightarrow> 0x0FFFFFF8 | Some v \<Rightarrow> v"
  have "\<forall>p. prev = Some p \<longrightarrow> unat p < fat_entries b" using assms(4) by (auto simp: is_cluster_def)
  then obtain s' where s': "allocate_cluster oc D b prev nxt s = (Ret (Ok (of_nat n)), s')" "ok s'"
    "dsk s' = fat_write b (of_nat n) ?v (case prev of None \<Rightarrow> dsk s | Some p \<Rightarrow> fat_write b p (of_nat n) (dsk s))"
    by (rule sector_store.allocate_cluster_ok [OF assms(1-3) _ assms(5)])
  note len = sector_store.lengths [OF assms(1,2)]
  have "unat (of_nat n :: u32) < fat_entries b"
    using free_listD(1) [OF assms(3), of n "dsk s"] assms(5) by (simp add: is_cluster_def)
  then have "fat_entry b (dsk s') x = (if x = of_nat n then ?v else if prev = Some x then of_nat n else fat_entry b (dsk s) x)"
    if "unat x < fat_entries b" for x
    using that s'(3) len \<open>\<forall>p. prev = Some p \<longrightarrow> unat p < fat_entries b\<close>
    by (cases prev) (auto simp: fat_write_entry [OF assms(3)] fat_write_length)
  then show ?thesis using s'(1,2) by blast
qed

theorem allocate_cluster_links_witness:
  "\<exists>n s'. allocate_cluster True (ata_ops ctl_env (ctl_irq True) 7 (Suc (Suc (Suc 0)))) small_boot None None small_disk =
      (Ret (Ok (of_nat n)), s') \<and> ata_idle ctl_ready s' \<and>
    (\<forall>x. unat x < fat_entries small_boot \<longrightarrow> fat_entry small_boot (c_image (ports s')) x =
       (if x = of_nat n then (case None of None \<Rightarrow> 0x0FFFFFF8 | Some v \<Rightarrow> v)
        else if None = Some x then of_nat n else fat_entry small_boot (c_image (ports small_disk)) x))"
proof -
  obtain n ns where "free_list small_boot (c_image (ports small_disk)) = n # ns"
    using small_free_list by (cases "free_list small_boot small_image") (auto simp: small_disk_image)
  from allocate_cluster_links [OF level_fs.sector_store_axioms small_disk_idle small_volume_ok _ this, of None True 7 0 None]
  show ?thesis by blast
qed

lemma char_of_dot: "char_of (46 :: nat) = CHR ''.''"
  by code_simp

text \<open>
  A directory entry survives encoding and parsing: cluster, size, attribute and the 8.3 form of
  the name come back, and \<open>get_name\<close> of it is the original name whenever that has a base of at most
  eight and an extension of at most three characters, without spaces, NULs and further dots.
\<close>

theorem create_dir_entry_roundtrip:
  "parse_entry (create_dir_entry name c n) 0 =
     \<lparr>de_name = name83 name, attributes = 0x20, first_cluster = c, file_size = n\<rparr> \<and>
   (name = base @ 0x2E # ext \<and> length base \<le> 8 \<and> length ext \<le> 3 \<and> list_all (\<lambda>b. b \<notin> {0, 0x20, 0x2E}) (base @ ext) \<longrightarrow>
     get_name (parse_entry (create_dir_entry name c n) 0) = map (\<lambda>b. char_of (unat b)) name)"
proof (intro conjI impI)
  show p: "parse_entry (create_dir_entry name c n) 0 =
     \<lparr>de_name = name83 name, attributes = 0x20, first_cluster = c, file_size = n\<rparr>" by (rule parse_created)
  assume a: "name = base @ 0x2E # ext \<and> length base \<le> 8 \<and> length ext \<le> 3 \<and> list_all (\<lambda>b. b \<notin> {0, 0x20, 0x2E}) (base @ ext)"
  then have "0x2E \<notin> set base" "0x2E \<notin> set ext" by (auto simp: list_all_iff)
  then have "split_on 0x2E name = [base, ext]" using a by (simp add: split_on_once split_on_absent)
  then have n: "name83 name = pad_to 8 base @ pad_to 3 ext" by (simp add: name83_def)
  have f: "filter (\<lambda>b. b \<noteq> 0x20 \<and> b \<noteq> 0) (pad_to k xs) = xs" if "length xs \<le> k" "list_all (\<lambda>b. b \<notin> {0, 0x20, 0x2E}) xs" for k xs
    using that by (auto simp: pad_to_def list_all_iff filter_id_conv)
  have "drop 8 (take 11 (name83 name)) = pad_to 3 ext" "take 8 (name83 name) = pad_to 8 base"
    by (simp_all add: n)
  then show "get_name (parse_entry (create_dir_entry name c n) 0) = map (\<lambda>b. char_of (unat b)) name"
    using a f [of base 8] f [of ext 3] char_of_dot unfolding parse_created get_name_def push_name_eq by simp
qed

theorem create_dir_entry_roundtrip_witness:
  "get_name (parse_entry (create_dir_entry [0x41, 0x42, 0x2E, 0x43] 3 600) 0) = ''AB.C''"
proof -
  have "get_name (parse_entry (create_dir_entry [0x41, 0x42, 0x2E, 0x43] 3 600) 0) =
      map (\<lambda>b. char_of (unat b)) [0x41, 0x42, 0x2E, 0x43 :: u8]"
    by (rule mp [OF conjunct2 [OF create_dir_entry_roundtrip [where base = "[0x41, 0x42]" and ext = "[0x43]"]]]) simp
  also have "\<dots> = ''AB.C''" by code_simp
  finally show ?thesis .
qed

text \<open>
  \<open>write_dir_entry\<close> adds exactly its entry to the directory listing, at the place of the first free
  record, keeps the others and their order, and leaves the FAT alone; when no record of the
  directory is free it fails and changes nothing.
\<close>

theorem write_dir_entry_adds:
  assumes "sector_store D ok dsk" and "ok s" and "volume_ok b"
    and "fat_chain (fat_entry b (dsk s)) dc cs" and "length cs \<le> 10000" and "list_all (is_cluster b) cs"
    and "length entry = 32" and "is_valid (parse_entry entry 0)"
  shows "\<exists>r s'. write_dir_entry oc D b dc entry s = (Ret r, s') \<and> ok s' \<and>
    (case r of
       Ok _ \<Rightarrow> (\<forall>x. unat x < fat_entries b \<longrightarrow> fat_entry b (dsk s') x = fat_entry b (dsk s) x) \<and>
         (\<exists>xs ys. dir_entries (chain_data b (dsk s) cs) = xs @ ys \<and>
           dir_entries (chain_data b (dsk s') cs) = xs @ parse_entry entry 0 # ys)
     | Err e \<Rightarrow> e = ''No free directory entries available'' \<and> dsk s' = dsk s)"
proof -
  note len = sector_store.lengths [OF assms(1,2)]
  let ?q = "slot_in (dsk s) (chain_sectors b cs)"
  from sector_store.write_dir_entry_ok [OF assms(1-4) _ assms(6,7), of oc] assms(5)
  obtain s' where s': "write_dir_entry oc D b dc entry s = (Ret (case ?q of
      None \<Rightarrow> Err ''No free directory entries available'' | Some p \<Rightarrow> Ok ()), s')" "ok s'"
    "dsk s' = put_first entry ?q (dsk s)" by (auto simp: MAX_ITERATIONS_def)
  show ?thesis
  proof (cases ?q)
    case None
    then show ?thesis using s' by simp
  next
    case (Some p)
    then show ?thesis
      using s' put_slot_entry [OF assms(3,6) Some, of _ entry]
        dir_entries_put [OF assms(3) len assms(6) fat_chain_distinct [OF assms(4)] Some assms(7,8)] by simp
  qed
qed

theorem write_dir_entry_adds_witness:
  "\<exists>r s'. write_dir_entry True (ata_ops ctl_env (ctl_irq True) 7 (Suc (Suc (Suc 0)))) small_boot 2
      (create_dir_entry [0x43] 4 1) small_disk = (Ret r, s') \<and> ata_idle ctl_ready s' \<and>
    (case r of
       Ok _ \<Rightarrow> (\<forall>x. unat x < fat_entries small_boot \<longrightarrow> fat_entry small_boot (c_image (ports s')) x =
           fat_entry small_boot (c_image (ports small_disk)) x) \<and>
         (\<exists>xs ys. dir_entries (chain_data small_boot (c_image (ports small_disk)) [2]) = xs @ ys \<and>
           dir_entries (chain_data small_boot (c_image (ports s')) [2]) = xs @ parse_entry (create_dir_entry [0x43] 4 1) 0 # ys)
     | Err e \<Rightarrow> e = ''No free directory entries available'' \<and> c_image (ports s') = c_image (ports small_disk))"
  by (rule write_dir_entry_adds [OF level_fs.sector_store_axioms small_disk_idle small_volume_ok])
    (use small_root_chain small_root_clusters in \<open>simp_all add: small_disk_image parse_created is_valid_def name83_def pad_to_def\<close>)

text \<open>
  C34. Creating a file works when a cluster is one sector: if the name is short enough, there is room
  for the data and a free directory record, \<open>create_file\<close> succeeds, the directory lists one more entry
  with the 8.3 form of the name, and \<open>read_file\<close> of that entry returns the data.
\<close>

theorem create_file_read_back:
  assumes "sector_store D ok dsk" and "ok s" and "can_create b (dsk s) dc dcs name data"
    and "sectors_per_cluster b = 1" and "data \<noteq> []" and "length data \<le> 512 * 10000"
    and "name83 name ! 0 \<notin> {0, 0xE5}"
  shows "\<exists>s' e xs ys s1 s2. create_file oc D b dc name data s = (Ret (Ok ()), s') \<and>
    dir_entries (chain_data b (dsk s) dcs) = xs @ ys \<and>
    list_directory oc D b dc s' = (Ret (Ok (xs @ e # ys)), s1) \<and> de_name e = name83 name \<and>
    read_file oc D b e s' = (Ret (Ok data), s2)"
proof -
  obtain s' cs where c: "create_file oc D b dc name data s = (Ret (Ok ()), s')" "ok s'"
    "created b (dsk s) dcs name data cs (dsk s')"
    by (rule sector_store.create_file_ok [OF assms(1-3)])
  let ?e = "new_entry name cs data"
  have spc: "unat (sectors_per_cluster b) = 1" using assms(4) by simp
  note l = created_list [OF c(3) assms(3,7)] and r = created_read [OF c(3) assms(3) spc assms(5)]
  from l(2) obtain xs ys where e: "dir_entries (chain_data b (dsk s) dcs) = xs @ ys"
    "dir_entries (chain_data b (dsk s') dcs) = xs @ ?e # ys" by blast
  have disk: "sector_disk D ok dsk" using assms(1) by (simp add: sector_store_def)
  have dcs: "length dcs \<le> MAX_ITERATIONS" "list_all (cluster_ok b) dcs"
    using assms(3) is_cluster_ok by (auto simp: can_create_def MAX_ITERATIONS_def list_all_iff)
  obtain s1 where s1: "list_directory oc D b dc s' = (Ret (Ok (xs @ ?e # ys)), s1)"
    using sector_disk.list_directory_ok [OF disk c(2) l(1) dcs, of oc] e(2) by auto
  have "length cs \<le> MAX_ITERATIONS"
    using length_chunks [of 512 data 10000] assms(6) r(4) by (simp add: MAX_ITERATIONS_def)
  moreover have "fat_chain (fat_entry b (dsk s')) (first_cluster ?e) cs" using r(1) by (simp add: new_entry_def)
  moreover have "take (unat (file_size ?e)) (chain_data b (dsk s') cs) = data"
    using r(2) assms(6) by (simp add: new_entry_def unat_of_nat)
  ultimately obtain s2 where "read_file oc D b ?e s' = (Ret (Ok data), s2)"
    using sector_disk.read_file_ok [OF disk c(2) _ _ r(3), of ?e oc] by auto
  then show ?thesis using c(1) e(1) s1 by (intro exI [of _ s'] exI [of _ ?e] exI) (auto simp: new_entry_def)
qed

lemma small_can_create: "can_create small_boot small_image 2 [2] [0x43] [1, 2, 3]"
proof -
  have "file_chunks small_boot [1, 2, 3] = [[1, 2, 3]]"
    by (simp add: file_chunks_def small_boot_def chunks.simps)
  moreover have "chain_sectors small_boot [2] = [2]"
    by (simp add: chain_sectors_def cluster_start_def small_boot_def)
  moreover have "small_dir ! 32 = 0" by (simp add: small_dir_def nth_append)
  then have "slot_in small_image [2] \<noteq> None"
    by (auto simp: small_image_def sect_def upt_rec [of 0] upt_rec [of "Suc 0"] simp del: upt_rec_numeral split: option.splits)
  ultimately show ?thesis
    using small_volume_ok small_root_chain small_root_clusters small_free_list by (simp add: can_create_def)
qed

theorem create_file_read_back_witness:
  "\<exists>s' e xs ys s1 s2. create_file True (ata_ops ctl_env (ctl_irq True) 7 (Suc (Suc (Suc 0)))) small_boot 2 [0x43] [1, 2, 3] small_disk =
      (Ret (Ok ()), s') \<and>
    dir_entries (chain_data small_boot (c_image (ports small_disk)) [2]) = xs @ ys \<and>
    list_directory True (ata_ops ctl_env (ctl_irq True) 7 (Suc (Suc (Suc 0)))) small_boot 2 s' = (Ret (Ok (xs @ e # ys)), s1) \<and>
    de_name e = name83 [0x43] \<and>
    read_file True (ata_ops ctl_env (ctl_irq True) 7 (Suc (Suc (Suc 0)))) small_boot e s' = (Ret (Ok [1, 2, 3]), s2)"
proof (rule create_file_read_back [OF level_fs.sector_store_axioms small_disk_idle])
  show "can_create small_boot (c_image (ports small_disk)) 2 [2] [0x43] [1, 2, 3]"
    using small_can_create by (simp add: small_disk_image)
qed (simp_all add: small_boot_def name83_def pad_to_def)

text \<open>
  C35. With larger clusters \<open>create_file\<close> loses data: it reports success, but of every cluster it takes
  it writes only the first sector, so of each chunk of \<open>512 * sectors_per_cluster\<close> bytes only the first 512
  reach the disk and the other sectors keep their old content.
\<close>

theorem create_file_first_sectors_only:
  assumes "sector_store D ok dsk" and "ok s" and "can_create b (dsk s) dc dcs name data"
  shows "\<exists>s' cs. create_file oc D b dc name data s = (Ret (Ok ()), s') \<and>
    length cs = length (chunks (512 * unat (sectors_per_cluster b)) data) \<and>
    (\<forall>i < length cs. dsk s' (sect (cluster_start b (cs ! i))) =
       pad_sector (chunks (512 * unat (sectors_per_cluster b)) data ! i)) \<and>
    (\<forall>i < length cs. \<forall>j. 0 < j \<longrightarrow> j < unat (sectors_per_cluster b) \<longrightarrow>
       dsk s' (sect (cluster_start b (cs ! i) + j)) = dsk s (sect (cluster_start b (cs ! i) + j)))"
proof -
  obtain s' cs where c: "create_file oc D b dc name data s = (Ret (Ok ()), s')"
    "created b (dsk s) dcs name data cs (dsk s')"
    by (rule sector_store.create_file_ok [OF assms])
  have v: "volume_ok b" and dcs: "fat_chain (fat_entry b (dsk s)) dc dcs" "list_all (is_cluster b) dcs"
    using assms(3) by (simp_all add: can_create_def)
  from c(2) obtain d1 p where d: "cs = new_clusters b (dsk s) (length (file_chunks b data))"
    "chunks_stored b (file_chunks b data) cs None (dsk s) d1" "slot_in d1 (chain_sectors b dcs) = Some p"
    "dsk s' = put_slot (create_dir_entry name (first_or_zero cs) (of_nat (length data))) p d1"
    by (auto simp: created_def)
  have cs: "is_cluster b x" "x \<notin> set dcs" if "x \<in> set cs" for x
    using new_clusters_free(1) [OF v] chain_not_new(1) [OF v dcs] that d(1) by blast+
  have put: "dsk s' (sect (cluster_start b x + j)) = d1 (sect (cluster_start b x + j))"
    if "x \<in> set cs" "j < unat (sectors_per_cluster b)" for x j
    unfolding d(4) by (rule put_slot_other [OF v dcs(2) d(3) cs [OF that(1)] that(2)])
  have "d1 (sect (cluster_start b x + j)) = dsk s (sect (cluster_start b x + j))"
    if x: "x \<in> set cs" and j: "0 < j" "j < unat (sectors_per_cluster b)" for x j
  proof -
    have "cluster_start b x + j \<noteq> cluster_start b y" if "y \<in> set cs" for y
      using cluster_sector_inj [of x y j b 0] cs(1) [OF x] cs(1) [OF that] j by (auto simp: is_cluster_def)
    moreover have "data_start b \<le> cluster_start b x + j" "cluster_start b x + j < 2 ^ 28"
      using cluster_start_bounds(1,3) [OF v cs(1) [OF x]] j by (simp_all add: trans_le_add1)
    ultimately show ?thesis using d(2) unfolding chunks_stored_def by blast
  qed
  then show ?thesis
    using c(1) d(2) put [of _ 0] put v
    by (intro exI [of _ s'] exI [of _ cs]) (auto simp: chunks_stored_def file_chunks_def volume_ok_def)
qed

definition wide_boot :: Fat32 where
  "wide_boot = small_boot\<lparr>sectors_per_cluster := 2\<rparr>"

lemma wide_can_create: "can_create wide_boot small_image 2 [2] [0x43] (replicate 1000 7)"
proof -
  have fat: "fat_entry wide_boot = fat_entry small_boot" "fat_entries wide_boot = fat_entries small_boot"
    by (simp_all add: wide_boot_def fat_entry_def fat_sector_def fat_entries_def fun_eq_iff)
  have "volume_ok wide_boot" by (simp add: volume_ok_def wide_boot_def small_boot_def data_start_def fat_entries_def)
  moreover have "length (file_chunks wide_boot (replicate 1000 7)) \<le> 1"
    unfolding file_chunks_def by (rule length_chunks) (simp_all add: wide_boot_def)
  moreover have "chain_sectors wide_boot [2] = [2, 3]"
    by (simp add: chain_sectors_def cluster_start_def wide_boot_def small_boot_def upt_rec [of 0] upt_rec [of "Suc 0"])
  moreover have "small_dir ! 32 = 0" by (simp add: small_dir_def nth_append)
  then have "slot_in small_image [2, 3] \<noteq> None"
    by (auto simp: small_image_def sect_def upt_rec [of 0] upt_rec [of "Suc 0"] simp del: upt_rec_numeral split: option.splits)
  moreover have "free_list wide_boot small_image = free_list small_boot small_image"
    by (simp add: free_list_def fat)
  moreover have "list_all (is_cluster wide_boot) [2]" using small_root_clusters by (simp add: is_cluster_def fat)
  ultimately show ?thesis
    using small_root_chain small_free_list by (simp add: can_create_def fat)
qed

theorem create_file_first_sectors_only_witness:
  "\<exists>s' cs. create_file True (ata_ops ctl_env (ctl_irq True) 7 (Suc (Suc (Suc 0)))) wide_boot 2 [0x43] (replicate 1000 7) small_disk =
      (Ret (Ok ()), s') \<and>
    length cs = length (chunks (512 * unat (sectors_per_cluster wide_boot)) (replicate 1000 (7 :: u8))) \<and>
    (\<forall>i < length cs. c_image (ports s') (sect (cluster_start wide_boot (cs ! i))) =
       pad_sector (chunks (512 * unat (sectors_per_cluster wide_boot)) (replicate 1000 7) ! i)) \<and>
    (\<forall>i < length cs. \<forall>j. 0 < j \<longrightarrow> j < unat (sectors_per_cluster wide_boot) \<longrightarrow>
       c_image (ports s') (sect (cluster_start wide_boot (cs ! i) + j)) =
       c_image (ports small_disk) (sect (cluster_start wide_boot (cs ! i) + j)))"
  by (rule create_file_first_sectors_only [OF level_fs.sector_store_axioms small_disk_idle])
    (use wide_can_create in \<open>simp add: small_disk_image\<close>)

end
