(* ===== verification/Vga.thy ===== *)
theory Vga
  imports Crates
begin

text \<open>
  \<open>src/vga_buffer.rs\<close>: the text screen. The frame buffer at \<open>0xb8000\<close> is a matrix of 25 rows of 80
  cells; reads and writes of a cell carry the bounds check of the array, the loops that scroll the
  screen are the loops of the source, cell by cell. Strings are their UTF-8 bytes, so a call of
  \<open>print!\<close> is given the bytes its arguments format to.

  The global \<open>WRITER\<close> is behind a spin lock and is also used by the interrupt handlers. The second part
  models \<open>_print\<close> with that lock and the interrupt flag, as one call and as a sequence of steps that
  a handler can interrupt.
\<close>

section \<open>Colours and cells\<close>

datatype Colour = Black | Blue | Green | Cyan | Red | Magenta | Brown | LightGray | DarkGray
  | LightBlue | LightGreen | LightCyan | LightRed | Pink | Yellow | White

fun colour_u8 :: "Colour \<Rightarrow> u8" where
  "colour_u8 Black = 0" | "colour_u8 Blue = 1" | "colour_u8 Green = 2" | "colour_u8 Cyan = 3"
| "colour_u8 Red = 4" | "colour_u8 Magenta = 5" | "colour_u8 Brown = 6" | "colour_u8 LightGray = 7"
| "colour_u8 DarkGray = 8" | "colour_u8 LightBlue = 9" | "colour_u8 LightGreen = 10" | "colour_u8 LightCyan = 11"
| "colour_u8 LightRed = 12" | "colour_u8 Pink = 13" | "colour_u8 Yellow = 14" | "colour_u8 White = 15"

datatype ColourCode = ColourCode u8

definition ColourCode_new :: "Colour \<Rightarrow> Colour \<Rightarrow> ColourCode" where
  "ColourCode_new foreground background =
     ColourCode (push_bit 4 (colour_u8 background) OR colour_u8 foreground)"

record ScreenChar =
  ascii_char :: u8
  cell_colour :: ColourCode

definition BUFFER_HEIGHT :: nat where "BUFFER_HEIGHT = 25"

definition BUFFER_WIDTH :: nat where "BUFFER_WIDTH = 80"

type_synonym Buffer = "ScreenChar list list"

record Writer =
  column_position :: nat
  colour_code :: ColourCode
  buffer :: Buffer

section \<open>The writer\<close>

definition read_cell :: "Buffer \<Rightarrow> nat \<Rightarrow> nat \<Rightarrow> ScreenChar outcome" where
  "read_cell b row col =
     (if row < BUFFER_HEIGHT \<and> col < BUFFER_WIDTH then Ret (b ! row ! col) else Panic ''index out of bounds'')"

definition write_cell :: "Buffer \<Rightarrow> nat \<Rightarrow> nat \<Rightarrow> ScreenChar \<Rightarrow> Buffer outcome" where
  "write_cell b row col ch =
     (if row < BUFFER_HEIGHT \<and> col < BUFFER_WIDTH then Ret (b[row := (b ! row)[col := ch]])
      else Panic ''index out of bounds'')"

fun copy_cols :: "nat \<Rightarrow> nat list \<Rightarrow> Buffer \<Rightarrow> Buffer outcome" where
  "copy_cols row [] b = Ret b"
| "copy_cols row (col # cols) b =
     obind (read_cell b row col) (\<lambda>ch.
     obind (write_cell b (row - 1) col ch) (\<lambda>b.
     copy_cols row cols b))"

fun copy_rows :: "nat list \<Rightarrow> Buffer \<Rightarrow> Buffer outcome" where
  "copy_rows [] b = Ret b"
| "copy_rows (row # rows) b =
     obind (copy_cols row [0..<BUFFER_WIDTH] b) (\<lambda>b. copy_rows rows b)"

fun fill_cols :: "nat \<Rightarrow> ScreenChar \<Rightarrow> nat list \<Rightarrow> Buffer \<Rightarrow> Buffer outcome" where
  "fill_cols row blank [] b = Ret b"
| "fill_cols row blank (col # cols) b =
     obind (write_cell b row col blank) (\<lambda>b. fill_cols row blank cols b)"

definition clear_row :: "nat \<Rightarrow> Writer \<Rightarrow> Writer outcome" where
  "clear_row row w =
     (let blank = \<lparr>ascii_char = 0x20, cell_colour = colour_code w\<rparr>
      in obind (fill_cols row blank [0..<BUFFER_WIDTH] (buffer w)) (\<lambda>b. Ret (w\<lparr>buffer := b\<rparr>)))"

definition new_line :: "Writer \<Rightarrow> Writer outcome" where
  "new_line w =
     obind (copy_rows [1..<BUFFER_HEIGHT] (buffer w)) (\<lambda>b.
     obind (clear_row (BUFFER_HEIGHT - 1) (w\<lparr>buffer := b\<rparr>)) (\<lambda>w.
     Ret (w\<lparr>column_position := 0\<rparr>)))"

definition write_byte :: "u8 \<Rightarrow> Writer \<Rightarrow> Writer outcome" where
  "write_byte byte w =
     (if byte = 0x0A then new_line w
      else
        obind (if BUFFER_WIDTH \<le> column_position w then new_line w else Ret w) (\<lambda>w.
        let row = BUFFER_HEIGHT - 1;
            col = column_position w
        in obind (write_cell (buffer w) row col \<lparr>ascii_char = byte, cell_colour = colour_code w\<rparr>) (\<lambda>b.
           Ret (w\<lparr>buffer := b, column_position := col + 1\<rparr>))))"

definition shown_byte :: "u8 \<Rightarrow> u8" where
  "shown_byte byte = (if 0x20 \<le> byte \<and> byte \<le> 0x7E \<or> byte = 0x0A then byte else 0xFE)"

fun write_string :: "u8 list \<Rightarrow> Writer \<Rightarrow> Writer outcome" where
  "write_string [] w = Ret w"
| "write_string (byte # s) w = obind (write_byte (shown_byte byte) w) (\<lambda>w. write_string s w)"

text \<open>\<open>WRITER\<close>, on the screen content the boot loader leaves.\<close>

definition WRITER :: "Buffer \<Rightarrow> Writer" where
  "WRITER screen = \<lparr>column_position = 0, colour_code = ColourCode_new Yellow Black, buffer = screen\<rparr>"

section \<open>Scrolling\<close>

definition screen_ok :: "Buffer \<Rightarrow> bool" where
  "screen_ok b \<longleftrightarrow> length b = 25 \<and> list_all (\<lambda>r. length r = 80) b"

definition writer_ok :: "Writer \<Rightarrow> bool" where
  "writer_ok w \<longleftrightarrow> screen_ok (buffer w) \<and> column_position w \<le> 80"

definition blank_row :: "ColourCode \<Rightarrow> ScreenChar list" where
  "blank_row c = replicate 80 \<lparr>ascii_char = 0x20, cell_colour = c\<rparr>"

lemma length_blank_row [simp]: "length (blank_row c) = 80"
  by (simp add: blank_row_def)

lemma screen_okD:
  assumes "screen_ok b"
  shows "length b = 25" and "i < 25 \<Longrightarrow> length (b ! i) = 80"
  using assms by (auto simp: screen_ok_def list_all_length)

lemma screen_ok_update: "screen_ok b \<Longrightarrow> length r = 80 \<Longrightarrow> screen_ok (b[i := r])"
  by (cases "i < length b") (auto simp: screen_ok_def list_all_length nth_list_update)

lemma copy_cols_append: "copy_cols row (xs @ ys) b = obind (copy_cols row xs b) (copy_cols row ys)"
  by (induction xs arbitrary: b) (auto simp: obind_def split: outcome.splits)

lemma copy_rows_append: "copy_rows (xs @ ys) b = obind (copy_rows xs b) (copy_rows ys)"
  by (induction xs arbitrary: b) (auto simp: obind_def split: outcome.splits)

lemma fill_cols_append: "fill_cols row c (xs @ ys) b = obind (fill_cols row c xs b) (fill_cols row c ys)"
  by (induction xs arbitrary: b) (auto simp: obind_def split: outcome.splits)

lemma copy_cols_prefix:
  assumes "screen_ok b" and "0 < row" and "row < 25" and "n \<le> 80"
  shows "copy_cols row [0..<n] b = Ret (b[row - 1 := take n (b ! row) @ drop n (b ! (row - 1))])"
  using assms(4)
proof (induction n)
  case 0
  then show ?case by simp
next
  case (Suc n)
  let ?r = "b ! row" and ?q = "b ! (row - 1)"
  have len: "length b = 25" "length ?r = 80" "length ?q = 80" using screen_okD [OF assms(1)] assms(2,3) by simp_all
  have "(take n ?r @ drop n ?q)[n := ?r ! n] = take (Suc n) ?r @ drop (Suc n) ?q"
    using len Suc.prems by (simp add: list_update_append take_Suc_conv_app_nth Cons_nth_drop_Suc [symmetric])
  then show ?case
    using Suc len assms(2,3)
    by (simp add: copy_cols_append read_cell_def write_cell_def BUFFER_HEIGHT_def BUFFER_WIDTH_def nth_list_update)
qed

lemma copy_rows_prefix:
  assumes "screen_ok b" and "n \<le> 24"
  shows "copy_rows [1..<Suc n] b = Ret (take n (tl b) @ drop n b)"
  using assms(2)
proof (induction n)
  case 0
  then show ?case by simp
next
  case (Suc n)
  let ?b = "take n (tl b) @ drop n b"
  have len: "length b = 25" using screen_okD [OF assms(1)] by simp
  have "set (take n (tl b)) \<subseteq> set b" using set_take_subset [of n "tl b"] by (cases b) auto
  then have "set ?b \<subseteq> set b" using set_drop_subset [of n b] by simp
  then have ok: "screen_ok ?b"
    using assms(1) len Suc.prems by (auto simp: screen_ok_def list_all_iff)
  have nth: "?b ! Suc n = b ! Suc n" "?b ! n = b ! n" using len Suc.prems by (simp_all add: nth_append min_def)
  have "?b[n := b ! Suc n] = take (Suc n) (tl b) @ drop (Suc n) b"
    using len Suc.prems
    by (simp add: list_update_append min_def take_Suc_conv_app_nth nth_tl Cons_nth_drop_Suc [symmetric])
  moreover have "copy_cols (Suc n) [0..<80] ?b = Ret (?b[n := b ! Suc n])"
    using copy_cols_prefix [OF ok, of "Suc n" 80] Suc.prems nth screen_okD [OF assms(1)] by simp
  ultimately show ?case using Suc by (simp add: copy_rows_append BUFFER_WIDTH_def)
qed

lemma fill_cols_prefix:
  assumes "screen_ok b" and "row < 25" and "n \<le> 80"
  shows "fill_cols row c [0..<n] b = Ret (b[row := replicate n c @ drop n (b ! row)])"
  using assms(3)
proof (induction n)
  case 0
  then show ?case by simp
next
  case (Suc n)
  have len: "length b = 25" "length (b ! row) = 80" using screen_okD [OF assms(1)] assms(2) by simp_all
  have "(replicate n c @ drop n (b ! row))[n := c] = replicate (Suc n) c @ drop (Suc n) (b ! row)"
    using len Suc.prems
    by (simp add: list_update_append replicate_append_same [symmetric] Cons_nth_drop_Suc [symmetric] del: replicate_Suc)
      (simp add: replicate_append_same)
  then show ?case
    using Suc len assms(2) by (simp add: fill_cols_append write_cell_def BUFFER_HEIGHT_def BUFFER_WIDTH_def)
qed

text \<open>The nested loops of \<open>new_line\<close> drop the first row and append a blank one.\<close>

lemma new_line_scrolls:
  assumes "screen_ok (buffer w)"
  shows "new_line w = Ret (w\<lparr>buffer := tl (buffer w) @ [blank_row (colour_code w)], column_position := 0\<rparr>)"
proof -
  let ?b = "take 24 (tl (buffer w)) @ drop 24 (buffer w)"
  have len: "length (buffer w) = 25" using screen_okD [OF assms] by simp
  then have b: "?b = tl (buffer w) @ [buffer w ! 24]"
    by (simp add: Cons_nth_drop_Suc [symmetric, of 24 "buffer w"])
  have ok: "screen_ok ?b"
    using assms len unfolding b by (auto simp: screen_ok_def list_all_iff dest: list.set_sel(2) [rotated])
  have "copy_rows [1..<25] (buffer w) = Ret ?b" using copy_rows_prefix [OF assms, of 24] by simp
  moreover have "fill_cols 24 c [0..<80] ?b = Ret (tl (buffer w) @ [replicate 80 c])" for c
    using fill_cols_prefix [OF ok, of 24 80 c] screen_okD [OF ok] len unfolding b by (simp add: list_update_append)
  ultimately show ?thesis
    by (simp add: new_line_def clear_row_def BUFFER_HEIGHT_def BUFFER_WIDTH_def blank_row_def del: upt_rec_numeral)
qed

lemma screen_ok_scroll: "screen_ok b \<Longrightarrow> screen_ok (tl b @ [blank_row c])"
  by (cases b) (auto simp: screen_ok_def)

section \<open>A terminal as the specification\<close>

text \<open>
  What the screen promises: a terminal is the list of all finished lines, oldest first, and the line
  being written. A newline finishes the line; a byte goes to its end, after finishing it when it is
  80 cells long. The screen shows the last 24 finished lines and the current one, each filled up
  with blanks.
\<close>

record terminal =
  finished :: "ScreenChar list list"
  current :: "ScreenChar list"

definition put_cell :: "ScreenChar \<Rightarrow> terminal \<Rightarrow> terminal" where
  "put_cell ch t = (if length (current t) < 80 then t\<lparr>current := current t @ [ch]\<rparr>
     else \<lparr>finished = finished t @ [current t], current = [ch]\<rparr>)"

definition put_byte :: "ColourCode \<Rightarrow> u8 \<Rightarrow> terminal \<Rightarrow> terminal" where
  "put_byte c byte t = (if byte = 0x0A then \<lparr>finished = finished t @ [current t], current = []\<rparr>
     else put_cell \<lparr>ascii_char = shown_byte byte, cell_colour = c\<rparr> t)"

definition fill_line :: "ColourCode \<Rightarrow> ScreenChar list \<Rightarrow> ScreenChar list" where
  "fill_line c line = line @ drop (length line) (blank_row c)"

definition last_rows :: "nat \<Rightarrow> 'a list \<Rightarrow> 'a list" where
  "last_rows n xs = drop (length xs - n) xs"

definition shows_terminal :: "Writer \<Rightarrow> terminal \<Rightarrow> bool" where
  "shows_terminal w t \<longleftrightarrow> screen_ok (buffer w) \<and> 24 \<le> length (finished t) \<and> length (current t) \<le> 80 \<and>
     column_position w = length (current t) \<and>
     buffer w = map (fill_line (colour_code w)) (last_rows 24 (finished t) @ [current t])"

lemma last_rows_snoc:
  assumes "0 < n" and "n \<le> length xs"
  shows "last_rows n (xs @ [x]) = tl (last_rows n xs) @ [x]"
proof -
  have "Suc (length xs - n) = Suc (length xs) - n" using assms by simp
  then show ?thesis using assms by (simp add: last_rows_def tl_drop drop_Suc [symmetric] tl_append2)
qed

lemma fill_line_Nil [simp]: "fill_line c [] = blank_row c"
  by (simp add: fill_line_def)

lemma fill_line_snoc:
  assumes "length line < 80"
  shows "(fill_line c line)[length line := ch] = fill_line c (line @ [ch])"
  using assms by (simp add: fill_line_def list_update_append blank_row_def)
    (simp add: Cons_nth_drop_Suc [symmetric] Suc_diff_Suc [symmetric])

lemma new_line_shows:
  assumes "shows_terminal w t"
  shows "\<exists>w'. new_line w = Ret w' \<and> colour_code w' = colour_code w \<and>
    shows_terminal w' \<lparr>finished = finished t @ [current t], current = []\<rparr>"
proof -
  have s: "screen_ok (buffer w)" "24 \<le> length (finished t)"
    and b: "buffer w = map (fill_line (colour_code w)) (last_rows 24 (finished t) @ [current t])"
    using assms unfolding shows_terminal_def by blast+
  have "last_rows 24 (finished t) \<noteq> []" using s(2) by (auto simp: last_rows_def)
  then have "tl (buffer w) = map (fill_line (colour_code w)) (last_rows 24 (finished t @ [current t]))"
    using s(2) unfolding b by (simp add: last_rows_snoc map_tl)
  then show ?thesis
    using new_line_scrolls [OF s(1)] screen_ok_scroll [OF s(1)] s(2)
    by (simp add: shows_terminal_def)
qed

lemma put_cell_shows:
  assumes "shows_terminal w t" and "length (current t) < 80"
  shows "write_cell (buffer w) 24 (column_position w) ch = Ret ((buffer w)[24 := (buffer w ! 24)[column_position w := ch]])"
    and "shows_terminal (w\<lparr>buffer := (buffer w)[24 := (buffer w ! 24)[column_position w := ch]],
      column_position := Suc (column_position w)\<rparr>) (t\<lparr>current := current t @ [ch]\<rparr>)"
proof -
  let ?xs = "map (fill_line (colour_code w)) (last_rows 24 (finished t))"
  have s: "screen_ok (buffer w)" "column_position w = length (current t)"
    and b: "buffer w = ?xs @ [fill_line (colour_code w) (current t)]" and n: "24 \<le> length (finished t)"
    using assms(1) unfolding shows_terminal_def map_append list.map by blast+
  have len: "length ?xs = 24" using n by (simp add: last_rows_def)
  show "write_cell (buffer w) 24 (column_position w) ch = Ret ((buffer w)[24 := (buffer w ! 24)[column_position w := ch]])"
    using s(2) assms(2) by (simp add: write_cell_def BUFFER_HEIGHT_def BUFFER_WIDTH_def)
  have "buffer w ! 24 = fill_line (colour_code w) (current t)" unfolding b using len by (simp add: nth_append)
  moreover have "(?xs @ [x])[24 := y] = ?xs @ [y]" for x y using len by (simp add: list_update_append)
  ultimately have "(buffer w)[24 := (buffer w ! 24)[column_position w := ch]] =
      ?xs @ [fill_line (colour_code w) (current t @ [ch])]"
    using fill_line_snoc [OF assms(2), of "colour_code w" ch] s(2) b by simp
  moreover have "screen_ok ((buffer w)[24 := (buffer w ! 24)[column_position w := ch]])"
    using screen_okD [OF s(1)] by (intro screen_ok_update [OF s(1)]) simp
  ultimately show "shows_terminal (w\<lparr>buffer := (buffer w)[24 := (buffer w ! 24)[column_position w := ch]],
      column_position := Suc (column_position w)\<rparr>) (t\<lparr>current := current t @ [ch]\<rparr>)"
    using s(2) n assms(2) by (simp add: shows_terminal_def)
qed

lemma shown_byte_newline [simp]: "shown_byte byte = 0x0A \<longleftrightarrow> byte = 0x0A"
  by (auto simp: shown_byte_def)

lemma write_byte_shows:
  assumes "shows_terminal w t"
  shows "\<exists>w'. write_byte (shown_byte byte) w = Ret w' \<and> colour_code w' = colour_code w \<and>
    shows_terminal w' (put_byte (colour_code w) byte t)"
proof (cases "byte = 0x0A")
  case True
  then show ?thesis using new_line_shows [OF assms] by (simp add: write_byte_def put_byte_def)
next
  case False
  have col: "column_position w = length (current t)" "length (current t) \<le> 80"
    using assms by (simp_all add: shows_terminal_def)
  show ?thesis
  proof (cases "length (current t) < 80")
    case True
    then show ?thesis
      using put_cell_shows [OF assms True] False col
      by (simp add: write_byte_def put_byte_def put_cell_def BUFFER_WIDTH_def BUFFER_HEIGHT_def Let_def)
  next
    case full: False
    obtain w' where w': "new_line w = Ret w'" "colour_code w' = colour_code w"
      "shows_terminal w' \<lparr>finished = finished t @ [current t], current = []\<rparr>"
      using new_line_shows [OF assms] by blast
    then show ?thesis
      using put_cell_shows [OF w'(3), of "\<lparr>ascii_char = shown_byte byte, cell_colour = colour_code w\<rparr>"] False full col
      by (simp add: write_byte_def put_byte_def put_cell_def BUFFER_WIDTH_def BUFFER_HEIGHT_def Let_def)
  qed
qed

lemma write_string_shows:
  assumes "shows_terminal w t"
  shows "\<exists>w'. write_string s w = Ret w' \<and> colour_code w' = colour_code w \<and>
    shows_terminal w' (fold (put_byte (colour_code w)) s t)"
  using assms
proof (induction s arbitrary: w t)
  case Nil
  then show ?case by simp
next
  case (Cons byte s)
  obtain w1 where w1: "write_byte (shown_byte byte) w = Ret w1" "colour_code w1 = colour_code w"
    "shows_terminal w1 (put_byte (colour_code w) byte t)"
    using write_byte_shows [OF Cons.prems] by blast
  then show ?case using Cons.IH [OF w1(3)] by simp
qed

text \<open>A writer shows a terminal as soon as the cells right of the cursor are blank.\<close>

definition clean :: "Writer \<Rightarrow> bool" where
  "clean w \<longleftrightarrow> drop (column_position w) (buffer w ! 24) = drop (column_position w) (blank_row (colour_code w))"

definition terminal_of :: "Writer \<Rightarrow> terminal" where
  "terminal_of w = \<lparr>finished = take 24 (buffer w), current = take (column_position w) (buffer w ! 24)\<rparr>"

lemma fill_line_full: "length line = 80 \<Longrightarrow> fill_line c line = line"
  by (simp add: fill_line_def)

lemma clean_shows:
  assumes "writer_ok w" and "clean w"
  shows "shows_terminal w (terminal_of w)"
proof -
  have s: "screen_ok (buffer w)" "column_position w \<le> 80" using assms(1) by (simp_all add: writer_ok_def)
  note d = screen_okD [OF s(1)]
  have "fill_line (colour_code w) (take (column_position w) (buffer w ! 24)) = buffer w ! 24"
    using assms(2) d(2) [of 24] s(2) by (simp add: fill_line_def clean_def min_def flip: assms(2) [unfolded clean_def])
  moreover have "map (fill_line (colour_code w)) (take 24 (buffer w)) = take 24 (buffer w)"
    using s(1) by (intro map_idI) (auto simp: screen_ok_def list_all_iff fill_line_full dest: in_set_takeD)
  moreover have "buffer w = take 24 (buffer w) @ [buffer w ! 24]"
    using d(1) take_Suc_conv_app_nth [of 24 "buffer w"] by simp
  ultimately show ?thesis using s d by (simp add: shows_terminal_def terminal_of_def last_rows_def)
qed

section \<open>Printing under the lock\<close>

record ('c, 'm) vga =
  writer :: Writer
  writer_lock :: 'm
  cpu :: 'c

record ('c, 'm) vga_env =
  env_irq :: "'c irq_ops"
  env_mutex :: "'m spin_mutex"

text \<open>
  \<open>_print\<close>: \<open>without_interrupts\<close> around locking \<open>WRITER\<close>, writing the formatted bytes and dropping the
  guard. \<open>write_str\<close> always returns \<open>Ok\<close>, so \<open>unwrap\<close> does not panic.
\<close>

definition enter_section :: "('c, 'm) vga_env \<Rightarrow> (('c, 'm, 'z) vga_scheme, bool) io" where
  "enter_section E s = (case wi_enter (env_irq E) (cpu s) of (saved, c) \<Rightarrow> (Ret saved, s\<lparr>cpu := c\<rparr>))"

definition lock_writer :: "('c, 'm) vga_env \<Rightarrow> (('c, 'm, 'z) vga_scheme, unit) io" where
  "lock_writer E s = (case sm_lock (env_mutex E) (writer_lock s) of (r, m) \<Rightarrow> (r, s\<lparr>writer_lock := m\<rparr>))"

definition write_fmt :: "u8 list \<Rightarrow> (('c, 'm, 'z) vga_scheme, unit) io" where
  "write_fmt args s = (case write_string args (writer s) of
       Ret w \<Rightarrow> (Ret (), s\<lparr>writer := w\<rparr>) | Panic e \<Rightarrow> (Panic e, s) | Hang \<Rightarrow> (Hang, s))"

definition unlock_writer :: "('c, 'm) vga_env \<Rightarrow> (('c, 'm, 'z) vga_scheme, unit) io" where
  "unlock_writer E = io_modify (\<lambda>s. s\<lparr>writer_lock := sm_unlock (env_mutex E) (writer_lock s)\<rparr>)"

definition leave_section :: "('c, 'm) vga_env \<Rightarrow> bool \<Rightarrow> (('c, 'm, 'z) vga_scheme, unit) io" where
  "leave_section E saved = io_modify (\<lambda>s. s\<lparr>cpu := wi_leave (env_irq E) saved (cpu s)\<rparr>)"

definition print_args :: "('c, 'm) vga_env \<Rightarrow> u8 list \<Rightarrow> (('c, 'm, 'z) vga_scheme, unit) io" where
  "print_args E args =
     io_bind (enter_section E) (\<lambda>saved.
     io_bind (lock_writer E) (\<lambda>_.
     io_bind (write_fmt args) (\<lambda>_.
     io_bind (unlock_writer E) (\<lambda>_.
     leave_section E saved))))"

definition println_args :: "('c, 'm) vga_env \<Rightarrow> u8 list \<Rightarrow> (('c, 'm, 'z) vga_scheme, unit) io" where
  "println_args E args = print_args E (args @ [0x0A])"

lemma write_byte_ok: "writer_ok w \<Longrightarrow> \<exists>w'. write_byte byte w = Ret w' \<and> writer_ok w'"
proof -
  assume w: "writer_ok w"
  have nl: "\<exists>w'. new_line w = Ret w' \<and> writer_ok w' \<and> column_position w' < 80"
    using w new_line_scrolls [of w] screen_ok_scroll [of "buffer w"] by (simp add: writer_ok_def)
  have put: "\<exists>b. write_cell (buffer v) 24 (column_position v) ch = Ret b \<and>
      writer_ok (v\<lparr>buffer := b, column_position := Suc (column_position v)\<rparr>)"
    if "writer_ok v" "column_position v < 80" for v ch
  proof -
    have "screen_ok ((buffer v)[24 := (buffer v ! 24)[column_position v := ch]])"
      using that screen_okD [of "buffer v"] by (intro screen_ok_update) (simp_all add: writer_ok_def)
    then show ?thesis
      using that by (simp add: write_cell_def BUFFER_HEIGHT_def BUFFER_WIDTH_def writer_ok_def)
  qed
  obtain v where v: "(if 80 \<le> column_position w then new_line w else Ret w) = Ret v" "writer_ok v" "column_position v < 80"
    using nl w by (cases "80 \<le> column_position w") auto
  then show ?thesis
    using nl put [OF v(2,3), of "\<lparr>ascii_char = byte, cell_colour = colour_code v\<rparr>"]
    by (auto simp: write_byte_def BUFFER_WIDTH_def BUFFER_HEIGHT_def)
qed

lemma write_string_ok: "writer_ok w \<Longrightarrow> \<exists>w'. write_string s w = Ret w' \<and> writer_ok w'"
proof (induction s arbitrary: w)
  case Nil
  then show ?case by simp
next
  case (Cons byte s)
  then show ?case using write_byte_ok [OF Cons.prems, of "shown_byte byte"] by auto
qed

text \<open>What the state between two calls of \<open>_print\<close> satisfies.\<close>

definition vga_ready :: "('m \<Rightarrow> bool) \<Rightarrow> ('c, 'm, 'z) vga_scheme \<Rightarrow> bool" where
  "vga_ready held s \<longleftrightarrow> writer_ok (writer s) \<and> \<not> held (writer_lock s)"

locale vga_sync = irq_spec "env_irq E" + spin_spec "env_mutex E" held
  for E :: "('c, 'm) vga_env" and held :: "'m \<Rightarrow> bool"
begin

lemma print_args_ok:
  assumes "vga_ready held s"
  obtains c m w where "print_args E args s = (Ret (), s\<lparr>writer := w, writer_lock := m, cpu := c\<rparr>)"
    and "are_enabled (env_irq E) c = are_enabled (env_irq E) (cpu s)" and "write_string args (writer s) = Ret w"
    and "writer_ok w" and "\<not> held m"
proof -
  obtain w where w: "write_string args (writer s) = Ret w" "writer_ok w"
    using write_string_ok assms by (auto simp: vga_ready_def)
  obtain m where m: "sm_lock (env_mutex E) (writer_lock s) = (Ret (), m)" "held m"
    using lock_law assms by (auto simp: vga_ready_def)
  obtain c where enter: "wi_enter (env_irq E) (cpu s) = (are_enabled (env_irq E) (cpu s), c)" "\<not> are_enabled (env_irq E) c"
    using enter_law [of "cpu s"] by (cases "wi_enter (env_irq E) (cpu s)") auto
  show ?thesis
  proof (rule that)
    show "print_args E args s = (Ret (), s\<lparr>writer := w, writer_lock := sm_unlock (env_mutex E) m,
        cpu := wi_leave (env_irq E) (are_enabled (env_irq E) (cpu s)) c\<rparr>)"
      using w(1) m(1) enter(1)
      by (simp add: print_args_def io_bind_def enter_section_def lock_writer_def write_fmt_def unlock_writer_def leave_section_def)
  qed (use w leave_law enter(2) unlock_law in auto)
qed

end

interpretation flag_sync: vga_sync "\<lparr>env_irq = flag_irq, env_mutex = flag_mutex\<rparr>" "\<lambda>m. m"
  using fi.irq_spec_axioms fm.spin_spec_axioms by (simp add: vga_sync_def)

section \<open>Printing interrupted by handlers that print\<close>

text \<open>
  The same five operations as steps, with the value \<open>without_interrupts\<close> saved kept in the program
  counter. Between two steps an interrupt can arrive if the processor has interrupts enabled; its
  handler prints, with interrupts disabled by the interrupt gate, and returns to the interrupted
  flag.
\<close>

datatype print_pc = AtStart | Entered bool | Locked bool | Written bool | Unlocked bool | Finished

definition handler_print :: "('c, 'm) vga_env \<Rightarrow> u8 list \<Rightarrow> (('c, 'm, 'z) vga_scheme, unit) io" where
  "handler_print E msg s =
     (case print_args E msg (s\<lparr>cpu := irq_disable (env_irq E) (cpu s)\<rparr>) of (r, s') \<Rightarrow> (r, s'\<lparr>cpu := cpu s\<rparr>))"

inductive print_step ::
  "('c, 'm) vga_env \<Rightarrow> u8 list \<Rightarrow> print_pc \<times> ('c, 'm, 'z) vga_scheme \<Rightarrow> print_pc \<times> ('c, 'm, 'z) vga_scheme \<Rightarrow> bool"
  for E args where
  p_enter: "enter_section E s = (Ret b, s') \<Longrightarrow> print_step E args (AtStart, s) (Entered b, s')"
| p_lock: "lock_writer E s = (Ret (), s') \<Longrightarrow> print_step E args (Entered b, s) (Locked b, s')"
| p_write: "write_fmt args s = (Ret (), s') \<Longrightarrow> print_step E args (Locked b, s) (Written b, s')"
| p_unlock: "unlock_writer E s = (Ret (), s') \<Longrightarrow> print_step E args (Written b, s) (Unlocked b, s')"
| p_leave: "leave_section E b s = (Ret (), s') \<Longrightarrow> print_step E args (Unlocked b, s) (Finished, s')"

inductive print_reach ::
  "('c, 'm) vga_env \<Rightarrow> u8 list \<Rightarrow> ('c, 'm, 'z) vga_scheme \<Rightarrow> print_pc \<times> ('c, 'm, 'z) vga_scheme \<Rightarrow> bool"
  for E args s0 where
  start: "print_reach E args s0 (AtStart, s0)"
| step: "print_reach E args s0 x \<Longrightarrow> print_step E args x y \<Longrightarrow> print_reach E args s0 y"
| interrupt: "print_reach E args s0 (pc, s) \<Longrightarrow> are_enabled (env_irq E) (cpu s) \<Longrightarrow>
    handler_print E msg s = (Ret (), s') \<Longrightarrow> print_reach E args s0 (pc, s')"

definition holds_lock :: "print_pc \<Rightarrow> bool" where
  "holds_lock pc = (case pc of Locked b \<Rightarrow> True | Written b \<Rightarrow> True | _ \<Rightarrow> False)"

definition in_section :: "print_pc \<Rightarrow> bool" where
  "in_section pc = (case pc of AtStart \<Rightarrow> False | Finished \<Rightarrow> False | _ \<Rightarrow> True)"

lemmas print_defs = enter_section_def lock_writer_def write_fmt_def unlock_writer_def leave_section_def
  holds_lock_def in_section_def

context vga_sync
begin

lemma handler_ok:
  assumes "vga_ready held s"
  shows "\<exists>s'. handler_print E msg s = (Ret (), s') \<and> vga_ready held s' \<and> cpu s' = cpu s"
proof -
  let ?s = "s\<lparr>cpu := irq_disable (env_irq E) (cpu s)\<rparr>"
  have "vga_ready held ?s" using assms by (simp add: vga_ready_def)
  then obtain c m w where "print_args E msg ?s = (Ret (), ?s\<lparr>writer := w, writer_lock := m, cpu := c\<rparr>)"
    "writer_ok w" "\<not> held m" by (rule print_args_ok)
  then show ?thesis by (simp add: handler_print_def vga_ready_def)
qed

lemma print_reach_inv:
  assumes "print_reach E args s0 x" and "vga_ready held s0"
  shows "writer_ok (writer (snd x)) \<and> (held (writer_lock (snd x)) \<longleftrightarrow> holds_lock (fst x)) \<and>
    (in_section (fst x) \<longrightarrow> \<not> are_enabled (env_irq E) (cpu (snd x)))"
  using assms
proof (induction rule: print_reach.induct)
  case start
  then show ?case by (simp add: vga_ready_def print_defs)
next
  case (step x y)
  note IH = step.IH [OF step.prems]
  show ?case
    using step.hyps(2)
  proof (cases rule: print_step.cases)
    case (p_enter s b s')
    then show ?thesis using IH enter_law [of "cpu s"] by (auto simp: print_defs split: prod.splits)
  next
    case (p_lock s s' b)
    then show ?thesis using IH lock_law [of "writer_lock s"] by (auto simp: print_defs split: prod.splits)
  next
    case (p_write s s' b)
    then show ?thesis using IH write_string_ok [of "writer s" args]
      by (auto simp: print_defs split: outcome.splits)
  next
    case (p_unlock s s' b)
    then show ?thesis using IH unlock_law by (auto simp: print_defs)
  next
    case (p_leave b s s')
    then show ?thesis using IH by (auto simp: print_defs)
  qed
next
  case (interrupt pc s msg s')
  have ns: "\<not> in_section pc" using interrupt by auto
  then have "\<not> holds_lock pc" by (auto simp: holds_lock_def in_section_def split: print_pc.splits)
  then have "vga_ready held s" using interrupt by (simp add: vga_ready_def)
  from handler_ok [OF this, of msg] interrupt.hyps(3) show ?case
    using ns \<open>\<not> holds_lock pc\<close> by (auto simp: vga_ready_def)
qed

lemma print_progress:
  assumes "print_reach E args s0 (pc, s)" and "vga_ready held s0"
  shows "pc = Finished \<or> (\<exists>y. print_step E args (pc, s) y)"
proof -
  note inv = print_reach_inv [OF assms, unfolded fst_conv snd_conv]
  show ?thesis
  proof (cases pc)
    case (Entered b)
    then obtain m where "sm_lock (env_mutex E) (writer_lock s) = (Ret (), m)"
      using lock_law [of "writer_lock s"] inv by (auto simp: holds_lock_def)
    then have "lock_writer E s = (Ret (), s\<lparr>writer_lock := m\<rparr>)" by (simp add: lock_writer_def)
    then show ?thesis using print_step.p_lock Entered by blast
  next
    case (Locked b)
    obtain w where "write_string args (writer s) = Ret w" using write_string_ok inv by blast
    then have "write_fmt args s = (Ret (), s\<lparr>writer := w\<rparr>)" by (simp add: write_fmt_def)
    then show ?thesis using print_step.p_write Locked by blast
  next
    case AtStart
    obtain b s' where "enter_section E s = (Ret b, s')"
      by (cases "wi_enter (env_irq E) (cpu s)") (auto simp: enter_section_def)
    then show ?thesis using print_step.p_enter AtStart by blast
  next
    case (Written b)
    then show ?thesis using print_step.p_unlock [OF unlock_writer_def [THEN fun_cong, of E s, unfolded io_modify_def]] by blast
  next
    case (Unlocked b)
    then show ?thesis using print_step.p_leave [OF leave_section_def [THEN fun_cong, of E b s, unfolded io_modify_def]] by blast
  qed simp
qed

end

section \<open>A line on the screen\<close>

lemma put_bytes_line:
  assumes "list_all (\<lambda>x. x \<noteq> 0x0A) s" and "length (current t) + length s \<le> 80"
  shows "fold (put_byte c) s t =
    t\<lparr>current := current t @ map (\<lambda>x. \<lparr>ascii_char = shown_byte x, cell_colour = c\<rparr>) s\<rparr>"
  using assms by (induction s arbitrary: t) (simp_all add: put_byte_def put_cell_def)

lemma write_string_append: "write_string (s @ s') w = obind (write_string s w) (write_string s')"
  by (induction s arbitrary: w) (auto simp: obind_def split: outcome.splits)

lemma write_string_trans: "write_string s w = Ret w1 \<Longrightarrow> write_string s' w1 = Ret w2 \<Longrightarrow> write_string (s @ s') w = Ret w2"
  by (simp add: write_string_append)

lemma shown_byte_10 [simp]: "shown_byte 0x0A = 0x0A"
  by (simp add: shown_byte_def)

text \<open>
  After a newline the screen shows a terminal whatever it held before, so a line printed then is the
  last but one row of the screen once it is finished.
\<close>

lemma printed_line:
  assumes "writer_ok w" and "list_all (\<lambda>x. x \<noteq> 0x0A) s" and "length s \<le> 80"
  shows "\<exists>w'. write_string (0x0A # s @ [0x0A]) w = Ret w' \<and> column_position w' = 0 \<and>
    buffer w' ! 24 = blank_row (colour_code w) \<and>
    buffer w' ! 23 = fill_line (colour_code w) (map (\<lambda>x. \<lparr>ascii_char = shown_byte x, cell_colour = colour_code w\<rparr>) s)"
proof -
  have s: "screen_ok (buffer w)" using assms(1) by (simp add: writer_ok_def)
  let ?w = "w\<lparr>buffer := tl (buffer w) @ [blank_row (colour_code w)], column_position := 0\<rparr>"
  have len: "length (tl (buffer w)) = 24" using screen_okD(1) [OF s] by simp
  have "writer_ok ?w" using screen_ok_scroll [OF s] by (simp add: writer_ok_def)
  moreover have "clean ?w" using len by (simp add: clean_def nth_append)
  ultimately have sh: "shows_terminal ?w (terminal_of ?w)" by (rule clean_shows)
  let ?line = "map (\<lambda>x. \<lparr>ascii_char = shown_byte x, cell_colour = colour_code w\<rparr>) s"
  have "fold (put_byte (colour_code w)) (s @ [0x0A]) (terminal_of ?w) =
      \<lparr>finished = tl (buffer w) @ [?line], current = []\<rparr>"
    using put_bytes_line [OF assms(2), of "terminal_of ?w" "colour_code w"] assms(3) len
    by (simp add: terminal_of_def put_byte_def)
  then obtain w' where w': "write_string (s @ [0x0A]) ?w = Ret w'" "colour_code w' = colour_code w"
    "shows_terminal w' \<lparr>finished = tl (buffer w) @ [?line], current = []\<rparr>"
    using write_string_shows [OF sh, of "s @ [0x0A]"] by auto
  have "last_rows 24 (tl (buffer w) @ [?line]) = tl (tl (buffer w)) @ [?line]"
    using len by (subst last_rows_snoc) (simp_all add: last_rows_def)
  then have b: "buffer w' = map (fill_line (colour_code w)) (tl (tl (buffer w))) @ [fill_line (colour_code w) ?line, blank_row (colour_code w)]"
    "column_position w' = 0"
    using w'(2,3) by (simp_all add: shows_terminal_def)
  have "write_string (0x0A # s @ [0x0A]) w = Ret w'"
    using w'(1) new_line_scrolls [OF s] by (simp add: write_byte_def)
  moreover have "buffer w' ! 24 = blank_row (colour_code w)" "buffer w' ! 23 = fill_line (colour_code w) ?line"
    using len unfolding b(1) by (simp_all add: nth_append)
  ultimately show ?thesis using b(2) by blast
qed

lemma printed_text:
  assumes "writer_ok w" and "list_all (\<lambda>x. 0x20 \<le> x \<and> x \<le> 0x7E) s" and "length s \<le> 80"
  shows "\<exists>w'. write_string (0x0A # s @ [0x0A]) w = Ret w' \<and> column_position w' = 0 \<and>
    buffer w' ! 24 = blank_row (colour_code w) \<and>
    (\<forall>i < length s. ascii_char (buffer w' ! 23 ! i) = s ! i)"
proof -
  have "list_all (\<lambda>x. x \<noteq> 0x0A) s" using assms(2) by (auto simp: list_all_iff)
  then obtain w' where w': "write_string (0x0A # s @ [0x0A]) w = Ret w'" "column_position w' = 0"
    "buffer w' ! 24 = blank_row (colour_code w)"
    "buffer w' ! 23 = fill_line (colour_code w) (map (\<lambda>x. \<lparr>ascii_char = shown_byte x, cell_colour = colour_code w\<rparr>) s)"
    using printed_line [OF assms(1) _ assms(3)] by blast
  have "ascii_char (buffer w' ! 23 ! i) = s ! i" if "i < length s" for i
    using that assms(2) unfolding w'(4)
    by (simp add: fill_line_def nth_append shown_byte_def list_all_length)
  then show ?thesis using w'(1-3) by blast
qed

section \<open>Properties\<close>

text \<open>
  C9. The screen implements a terminal: starting from a screen that shows a terminal, writing a string
  never panics, and the 25 rows then show the terminal after the same bytes: the last 24 finished lines
  and the current line, with lines broken at 80 cells and bytes outside printable ASCII shown as 0xFE.
\<close>

theorem write_string_terminal:
  assumes "shows_terminal w t"
  shows "\<exists>w'. write_string s w = Ret w' \<and> shows_terminal w' (fold (put_byte (colour_code w)) s t)"
  using write_string_shows [OF assms, of s] by blast

definition blank_screen :: Buffer where
  "blank_screen = replicate 25 (blank_row (ColourCode_new Yellow Black))"

lemma blank_screen_ok: "writer_ok (WRITER blank_screen)" "clean (WRITER blank_screen)"
  by (simp_all add: writer_ok_def WRITER_def blank_screen_def screen_ok_def clean_def list_all_iff)

theorem write_string_terminal_witness:
  "shows_terminal (WRITER blank_screen) (terminal_of (WRITER blank_screen)) \<and>
   (\<exists>w'. write_string [0x48, 0x69, 0x0A, 0x21] (WRITER blank_screen) = Ret w' \<and>
      shows_terminal w' (fold (put_byte (colour_code (WRITER blank_screen))) [0x48, 0x69, 0x0A, 0x21] (terminal_of (WRITER blank_screen))))"
  using clean_shows [OF blank_screen_ok] write_string_terminal [OF clean_shows [OF blank_screen_ok], of "[0x48, 0x69, 0x0A, 0x21]"] by simp

text \<open>
  What the repository's test \<open>test_println_output\<close> checks for one string, for every printable
  string of at most 80 bytes and every state of the screen: after a newline, the string and a newline
  are written, the last but one row reads the string, and the cursor is at the start of a blank row.
\<close>

theorem writeln_on_screen:
  assumes "writer_ok w" and "list_all (\<lambda>x. 0x20 \<le> x \<and> x \<le> 0x7E) s" and "length s \<le> 80"
  shows "\<exists>w'. write_string (0x0A # s @ [0x0A]) w = Ret w' \<and> column_position w' = 0 \<and>
    buffer w' ! 24 = blank_row (colour_code w) \<and>
    (\<forall>i < length s. ascii_char (buffer w' ! 23 ! i) = s ! i)"
  by (rule printed_text [OF assms])

theorem writeln_on_screen_witness:
  "\<exists>w'. write_string (0x0A # [0x48, 0x69] @ [0x0A]) (WRITER (replicate 25 (replicate 80 \<lparr>ascii_char = 0x41, cell_colour = ColourCode 7\<rparr>))) = Ret w' \<and>
    column_position w' = 0 \<and>
    buffer w' ! 24 = blank_row (colour_code (WRITER (replicate 25 (replicate 80 \<lparr>ascii_char = 0x41, cell_colour = ColourCode 7\<rparr>)))) \<and>
    (\<forall>i < length [0x48, 0x69 :: u8]. ascii_char (buffer w' ! 23 ! i) = [0x48, 0x69] ! i)"
  by (rule writeln_on_screen) (simp_all add: writer_ok_def WRITER_def screen_ok_def list_all_iff)


definition flag_vga :: "(bool, bool) vga" where
  "flag_vga = \<lparr>writer = WRITER blank_screen, writer_lock = False, cpu = True\<rparr>"

lemma flag_vga_ready: "vga_ready (\<lambda>m. m) flag_vga"
  using blank_screen_ok(1) by (simp add: vga_ready_def flag_vga_def)


end
