(* ===== verification/Keyboard.thy ===== *)
theory Keyboard
  imports Vga
begin

text \<open>
  \<open>src/task/keyboard.rs\<close>: the interrupt handler puts scancodes into a queue, a stream takes them out,
  and the task \<open>print_keypresses\<close> decodes and prints them. The state extends that of the screen by the
  module's statics; \<open>kbd_woken\<close> lists the wakers called. The decoder of the crate \<open>pc_keyboard\<close> is a
  parameter, and a decoded key carries the bytes it is printed as.
\<close>

section \<open>State\<close>

record ('c, 'm, 'q, 'k, 'w) kbd_state = "('c, 'm) vga" +
  SCANCODE_QUEUE :: "'q option"
  KBD_WAKER :: 'k
  kbd_woken :: "'w list"

record ('c, 'm, 'q, 'k, 'w) kbd_env =
  kb_vga :: "('c, 'm) vga_env"
  kb_queue :: "(u8, 'q) array_queue"
  kb_waker :: "('w, 'k) atomic_waker"

type_synonym ('c, 'm, 'q, 'k, 'w, 'z, 'a) kbd_io = "(('c, 'm, 'q, 'k, 'w, 'z) kbd_state_scheme, 'a) io"

section \<open>The queue of scancodes\<close>

definition kbd_wake :: "('c, 'm, 'q, 'k, 'w) kbd_env \<Rightarrow> ('c, 'm, 'q, 'k, 'w, 'z, unit) kbd_io" where
  "kbd_wake E = io_modify (\<lambda>s. case aw_wake (kb_waker E) (KBD_WAKER s) of (w, k) \<Rightarrow>
     s\<lparr>KBD_WAKER := k, kbd_woken := kbd_woken s @ (case w of None \<Rightarrow> [] | Some w \<Rightarrow> [w])\<rparr>)"

definition add_scancode :: "('c, 'm, 'q, 'k, 'w) kbd_env \<Rightarrow> u8 \<Rightarrow> ('c, 'm, 'q, 'k, 'w, 'z, unit) kbd_io" where
  "add_scancode E scancode s =
     (case SCANCODE_QUEUE s of
        Some queue \<Rightarrow>
          (case aq_push (kb_queue E) scancode queue of
             (Err _, queue) \<Rightarrow>
               println_args (kb_vga E) (bytes ''WARNING: Scancode queue full; dropping input'')
                 (s\<lparr>SCANCODE_QUEUE := Some queue\<rparr>)
           | (Ok _, queue) \<Rightarrow> kbd_wake E (s\<lparr>SCANCODE_QUEUE := Some queue\<rparr>))
      | None \<Rightarrow> println_args (kb_vga E) (bytes ''WARNING: scancode queue uninitialised'') s)"

text \<open>A \<open>ScancodeStream\<close> has no data of its own.\<close>

definition ScancodeStream_new :: "('c, 'm, 'q, 'k, 'w) kbd_env \<Rightarrow> ('c, 'm, 'q, 'k, 'w, 'z, unit) kbd_io" where
  "ScancodeStream_new E s =
     (if SCANCODE_QUEUE s \<noteq> None then (Panic ''ScancodeStream::new should only be called once'', s)
      else (Ret (), s\<lparr>SCANCODE_QUEUE := Some (aq_new (kb_queue E) 100)\<rparr>))"

definition pop_scancode :: "('c, 'm, 'q, 'k, 'w) kbd_env \<Rightarrow> ('c, 'm, 'q, 'k, 'w, 'z, u8 option) kbd_io" where
  "pop_scancode E s =
     (case SCANCODE_QUEUE s of
        None \<Rightarrow> (Panic ''not initisalised'', s)
      | Some queue \<Rightarrow> (case aq_pop (kb_queue E) queue of (r, queue) \<Rightarrow> (Ret r, s\<lparr>SCANCODE_QUEUE := Some queue\<rparr>)))"

text \<open>The second pop of \<open>poll_next\<close>, after the waker has been registered.\<close>

definition pop_registered :: "('c, 'm, 'q, 'k, 'w) kbd_env \<Rightarrow> ('c, 'm, 'q, 'k, 'w, 'z, u8 option poll) kbd_io" where
  "pop_registered E =
     io_bind (pop_scancode E) (\<lambda>r. case r of
       Some scancode \<Rightarrow>
         io_bind (io_modify (\<lambda>s. s\<lparr>KBD_WAKER := snd (aw_take (kb_waker E) (KBD_WAKER s))\<rparr>)) (\<lambda>_.
         io_ret (Ready (Some scancode)))
     | None \<Rightarrow> io_ret Pending)"

text \<open>
  \<open>irq1\<close> and \<open>irq2\<close> are what an interrupt handler does if it runs between the first pop and the
  registration of the waker, and between the registration and the second pop.
\<close>

definition poll_next ::
  "('c, 'm, 'q, 'k, 'w) kbd_env \<Rightarrow> ('c, 'm, 'q, 'k, 'w, 'z, unit) kbd_io \<Rightarrow> ('c, 'm, 'q, 'k, 'w, 'z, unit) kbd_io \<Rightarrow>
   'w \<Rightarrow> ('c, 'm, 'q, 'k, 'w, 'z, u8 option poll) kbd_io" where
  "poll_next E irq1 irq2 w =
     io_bind (pop_scancode E) (\<lambda>r. case r of
       Some scancode \<Rightarrow> io_ret (Ready (Some scancode))
     | None \<Rightarrow>
         io_bind irq1 (\<lambda>_.
         io_bind (io_modify (\<lambda>s. s\<lparr>KBD_WAKER := aw_register (kb_waker E) w (KBD_WAKER s)\<rparr>)) (\<lambda>_.
         io_bind irq2 (\<lambda>_.
         pop_registered E))))"

section \<open>Printing key presses\<close>

datatype DecodedKey = Unicode "u8 list" | RawKey "u8 list"

record ('d, 'e) decoder =
  kd_new :: 'd
  kd_add_byte :: "u8 \<Rightarrow> 'd \<Rightarrow> ('e option, string) result \<times> 'd"
  kd_process :: "'e \<Rightarrow> 'd \<Rightarrow> DecodedKey option \<times> 'd"

text \<open>The body of the loop of \<open>print_keypresses\<close> for one scancode.\<close>

definition print_key :: "('c, 'm, 'q, 'k, 'w) kbd_env \<Rightarrow> DecodedKey \<Rightarrow> ('c, 'm, 'q, 'k, 'w, 'z, unit) kbd_io" where
  "print_key E key = (case key of
       Unicode char \<Rightarrow> print_args (kb_vga E) char
     | RawKey key \<Rightarrow> print_args (kb_vga E) key)"

definition handle_scancode ::
  "('c, 'm, 'q, 'k, 'w) kbd_env \<Rightarrow> ('d, 'e) decoder \<Rightarrow> 'd \<Rightarrow> u8 \<Rightarrow> ('c, 'm, 'q, 'k, 'w, 'z, 'd) kbd_io" where
  "handle_scancode E D keyboard scancode =
     (case kd_add_byte D scancode keyboard of
        (Ok (Some key_event), keyboard) \<Rightarrow>
          (case kd_process D key_event keyboard of
             (Some key, keyboard) \<Rightarrow> io_bind (print_key E key) (\<lambda>_. io_ret keyboard)
           | (None, keyboard) \<Rightarrow> io_ret keyboard)
      | (_, keyboard) \<Rightarrow> io_ret keyboard)"

text \<open>
  The task as a future: it is not started, or it waits for the next scancode with the state of the
  decoder. A poll runs the loop until the stream is pending; \<^const>\<open>None\<close> is a poll that never returns.
  The interrupts during a poll come between the scancodes.
\<close>

datatype 'd keypresses = NotStarted | Reading 'd

partial_function (option) keypresses_loop ::
  "('c, 'm, 'q, 'k, 'w) kbd_env \<Rightarrow> ('d, 'e) decoder \<Rightarrow> 'w \<Rightarrow> 'd \<Rightarrow> ('c, 'm, 'q, 'k, 'w, 'z) kbd_state_scheme \<Rightarrow>
   (('d keypresses \<times> unit poll) outcome \<times> ('c, 'm, 'q, 'k, 'w, 'z) kbd_state_scheme) option" where
  "keypresses_loop E D w keyboard s = (case poll_next E (io_ret ()) (io_ret ()) w s of
       (Ret Pending, s') \<Rightarrow> Some (Ret (Reading keyboard, Pending), s')
     | (Ret (Ready None), s') \<Rightarrow> Some (Ret (Reading keyboard, Ready ()), s')
     | (Ret (Ready (Some scancode)), s') \<Rightarrow>
         (case handle_scancode E D keyboard scancode s' of
            (Ret keyboard', s'') \<Rightarrow> keypresses_loop E D w keyboard' s''
          | (Panic e, s'') \<Rightarrow> Some (Panic e, s'')
          | (Hang, s'') \<Rightarrow> Some (Hang, s''))
     | (Panic e, s') \<Rightarrow> Some (Panic e, s')
     | (Hang, s') \<Rightarrow> Some (Hang, s'))"

definition print_keypresses_poll ::
  "('c, 'm, 'q, 'k, 'w) kbd_env \<Rightarrow> ('d, 'e) decoder \<Rightarrow> 'w \<Rightarrow> 'd keypresses \<Rightarrow> ('c, 'm, 'q, 'k, 'w, 'z) kbd_state_scheme \<Rightarrow>
   (('d keypresses \<times> unit poll) outcome \<times> ('c, 'm, 'q, 'k, 'w, 'z) kbd_state_scheme) option" where
  "print_keypresses_poll E D w f s = (case f of
       Reading keyboard \<Rightarrow> keypresses_loop E D w keyboard s
     | NotStarted \<Rightarrow> (case ScancodeStream_new E s of
         (Ret _, s') \<Rightarrow> keypresses_loop E D w (kd_new D) s'
       | (Panic e, s') \<Rightarrow> Some (Panic e, s')
       | (Hang, s') \<Rightarrow> Some (Hang, s')))"

section \<open>Lemmas\<close>

definition scancodes :: "('q \<Rightarrow> u8 list) \<Rightarrow> ('c, 'm, 'q, 'k, 'w, 'z) kbd_state_scheme \<Rightarrow> u8 list" where
  "scancodes items s = (case SCANCODE_QUEUE s of None \<Rightarrow> [] | Some q \<Rightarrow> items q)"

definition kbd_ready :: "('m \<Rightarrow> bool) \<Rightarrow> ('q \<Rightarrow> u8 list) \<Rightarrow> ('q \<Rightarrow> nat) \<Rightarrow> ('c, 'm, 'q, 'k, 'w, 'z) kbd_state_scheme \<Rightarrow> bool" where
  "kbd_ready held items cap s \<longleftrightarrow> vga_ready held s \<and> (\<exists>q. SCANCODE_QUEUE s = Some q \<and> cap q = 100 \<and> length (items q) \<le> 100)"

locale keyboard_sync = vga_sync "kb_vga E" held + queue_spec "kb_queue E" items cap + waker_spec "kb_waker E" registered
  for E :: "('c, 'm, 'q, 'k, 'w) kbd_env" and held :: "'m \<Rightarrow> bool" and items :: "'q \<Rightarrow> u8 list" and cap :: "'q \<Rightarrow> nat"
    and registered :: "'k \<Rightarrow> 'w option"
begin

lemma add_scancode_ok:
  assumes "kbd_ready held items cap s" and "length (scancodes items s) < 100"
  obtains q k where "add_scancode E sc s = (Ret (), s\<lparr>SCANCODE_QUEUE := Some q, KBD_WAKER := k,
      kbd_woken := kbd_woken s @ (case registered (KBD_WAKER s) of None \<Rightarrow> [] | Some w \<Rightarrow> [w])\<rparr>)"
    and "items q = scancodes items s @ [sc]" and "cap q = 100" and "registered k = None"
proof -
  obtain q where q: "SCANCODE_QUEUE s = Some q" "cap q = 100" "length (items q) < 100"
    using assms by (auto simp: kbd_ready_def scancodes_def)
  obtain q' where q': "aq_push (kb_queue E) sc q = (Ok (), q')" "items q' = items q @ [sc]" "cap q' = 100"
    using push_law [of q sc] q by auto
  obtain k where k: "aw_wake (kb_waker E) (KBD_WAKER s) = (registered (KBD_WAKER s), k)" "registered k = None"
    using wake_registered [of "KBD_WAKER s"] by auto
  show ?thesis
    by (rule that [of k q']) (use q q' k in \<open>simp_all add: add_scancode_def kbd_wake_def scancodes_def\<close>)
qed

lemma add_scancode_full:
  assumes "kbd_ready held items cap s" and "\<not> length (scancodes items s) < 100"
  obtains q w m c where "add_scancode E sc s = (Ret (), s\<lparr>SCANCODE_QUEUE := Some q, writer := w, writer_lock := m, cpu := c\<rparr>)"
    and "items q = scancodes items s" and "cap q = 100" and "writer_ok w" and "\<not> held m"
proof -
  obtain q where q: "SCANCODE_QUEUE s = Some q" "cap q = 100" "\<not> length (items q) < 100" "length (items q) \<le> 100"
    using assms by (auto simp: kbd_ready_def scancodes_def)
  obtain q' where q': "aq_push (kb_queue E) sc q = (Err sc, q')" "items q' = items q" "cap q' = 100"
    using full_law [of q sc] q by auto
  let ?s = "s\<lparr>SCANCODE_QUEUE := Some q'\<rparr>"
  have "vga_ready held ?s" using assms(1) by (simp add: kbd_ready_def vga_ready_def)
  then obtain c m w where p: "print_args (kb_vga E) (bytes ''WARNING: Scancode queue full; dropping input'' @ [0x0A]) ?s =
      (Ret (), ?s\<lparr>writer := w, writer_lock := m, cpu := c\<rparr>)" "writer_ok w" "\<not> held m"
    by (rule print_args_ok)
  have "add_scancode E sc s = (Ret (), s\<lparr>SCANCODE_QUEUE := Some q', writer := w, writer_lock := m, cpu := c\<rparr>)"
    using q q' p(1) by (simp add: add_scancode_def println_args_def)
  then show ?thesis by (rule that) (use q q' p in \<open>simp_all add: scancodes_def\<close>)
qed

lemma add_scancode_uninit:
  assumes "vga_ready held s" and "SCANCODE_QUEUE s = None"
  obtains w m c where "add_scancode E sc s = (Ret (), s\<lparr>writer := w, writer_lock := m, cpu := c\<rparr>)"
    and "writer_ok w" and "\<not> held m"
proof -
  obtain c m w where p: "print_args (kb_vga E) (bytes ''WARNING: scancode queue uninitialised'' @ [0x0A]) s =
      (Ret (), s\<lparr>writer := w, writer_lock := m, cpu := c\<rparr>)" "writer_ok w" "\<not> held m"
    by (rule print_args_ok [OF assms(1)])
  have "add_scancode E sc s = (Ret (), s\<lparr>writer := w, writer_lock := m, cpu := c\<rparr>)"
    using p(1) assms(2) by (simp add: add_scancode_def println_args_def)
  then show ?thesis using that p by blast
qed

lemma pop_scancode_cases:
  assumes "SCANCODE_QUEUE s = Some q"
  obtains (empty) q' where "items q = []" and "pop_scancode E s = (Ret None, s\<lparr>SCANCODE_QUEUE := Some q'\<rparr>)" and "items q' = []" and "cap q' = cap q"
  | (some) x xs q' where "items q = x # xs" and "pop_scancode E s = (Ret (Some x), s\<lparr>SCANCODE_QUEUE := Some q'\<rparr>)"
      and "items q' = xs" and "cap q' = cap q"
  by (cases rule: pop_cases [of q]) (simp_all add: pop_scancode_def assms)

end

context keyboard_sync
begin

lemma poll_next_quiet:
  assumes "SCANCODE_QUEUE s = Some q"
  obtains (pending) q' k where "items q = []" and "poll_next E (io_ret ()) (io_ret ()) w s =
      (Ret Pending, s\<lparr>SCANCODE_QUEUE := Some q', KBD_WAKER := k\<rparr>)" and "items q' = []" and "cap q' = cap q" and "registered k = Some w"
  | (ready) x xs q' where "items q = x # xs" and "poll_next E (io_ret ()) (io_ret ()) w s =
      (Ret (Ready (Some x)), s\<lparr>SCANCODE_QUEUE := Some q'\<rparr>)" and "items q' = xs" and "cap q' = cap q"
proof (cases rule: pop_scancode_cases [OF assms, case_names empty some])
  case (empty q1)
  let ?s = "s\<lparr>SCANCODE_QUEUE := Some q1, KBD_WAKER := aw_register (kb_waker E) w (KBD_WAKER s)\<rparr>"
  have "SCANCODE_QUEUE ?s = Some q1" by simp
  then obtain q2 where q2: "pop_scancode E ?s = (Ret None, ?s\<lparr>SCANCODE_QUEUE := Some q2\<rparr>)" "items q2 = []" "cap q2 = cap q1"
    by (rule pop_scancode_cases) (use empty(3) in simp_all)
  show ?thesis
    by (rule pending [of "aw_register (kb_waker E) w (KBD_WAKER s)" q2])
      (use empty q2 register_law in \<open>simp_all add: poll_next_def pop_registered_def io_bind_def\<close>)
next
  case (some x xs q')
  show ?thesis
    by (rule ready [of x xs q']) (use some in \<open>simp_all add: poll_next_def io_bind_def\<close>)
qed

text \<open>A scancode that arrives while a poll is between its two pops is taken by the second one.\<close>

lemma pop_registered_ready:
  assumes "SCANCODE_QUEUE s = Some q" and "items q = x # xs"
  shows "\<exists>s'. pop_registered E s = (Ret (Ready (Some x)), s')"
  by (cases rule: pop_scancode_cases [OF assms(1)]) (use assms(2) in \<open>simp_all add: pop_registered_def io_bind_def\<close>)

lemma scancode_during_poll:
  assumes "kbd_ready held items cap s" and "scancodes items s = []"
  shows "\<exists>s'. poll_next E (add_scancode E sc) (io_ret ()) w s = (Ret (Ready (Some sc)), s')"
    and "\<exists>s'. poll_next E (io_ret ()) (add_scancode E sc) w s = (Ret (Ready (Some sc)), s')"
proof -
  obtain q where q: "SCANCODE_QUEUE s = Some q" "items q = []" "cap q = 100"
    using assms by (auto simp: kbd_ready_def scancodes_def)
  obtain q1 where q1: "pop_scancode E s = (Ret None, s\<lparr>SCANCODE_QUEUE := Some q1\<rparr>)" "items q1 = []" "cap q1 = 100"
    by (rule pop_scancode_cases [OF q(1)]) (use q in simp_all)
  have ok: "kbd_ready held items cap (s\<lparr>SCANCODE_QUEUE := Some q1, KBD_WAKER := k\<rparr>)"
    "length (scancodes items (s\<lparr>SCANCODE_QUEUE := Some q1, KBD_WAKER := k\<rparr>)) < 100" for k
    using assms(1) q1 by (simp_all add: kbd_ready_def vga_ready_def scancodes_def)
  have "\<exists>s2 q2. add_scancode E sc (s\<lparr>SCANCODE_QUEUE := Some q1, KBD_WAKER := k\<rparr>) = (Ret (), s2) \<and>
      SCANCODE_QUEUE s2 = Some q2 \<and> items q2 = [sc]" for k
    by (rule add_scancode_ok [OF ok [of k], of sc]) (use q1 in \<open>simp add: scancodes_def\<close>)
  note add = this
  show "\<exists>s'. poll_next E (add_scancode E sc) (io_ret ()) w s = (Ret (Ready (Some sc)), s')"
  proof -
    obtain s2 q2 where s2: "add_scancode E sc (s\<lparr>SCANCODE_QUEUE := Some q1\<rparr>) = (Ret (), s2)" "SCANCODE_QUEUE s2 = Some q2" "items q2 = [sc]"
      using add [of "KBD_WAKER s"] by auto
    let ?s = "s2\<lparr>KBD_WAKER := aw_register (kb_waker E) w (KBD_WAKER s2)\<rparr>"
    have "SCANCODE_QUEUE ?s = Some q2" using s2(2) by simp
    from pop_registered_ready [OF this s2(3)] show ?thesis
      using q1(1) s2(1) by (simp add: poll_next_def io_bind_def)
  qed
  show "\<exists>s'. poll_next E (io_ret ()) (add_scancode E sc) w s = (Ret (Ready (Some sc)), s')"
  proof -
    obtain s2 q2 where s2: "add_scancode E sc (s\<lparr>SCANCODE_QUEUE := Some q1, KBD_WAKER := aw_register (kb_waker E) w (KBD_WAKER s)\<rparr>) = (Ret (), s2)"
      "SCANCODE_QUEUE s2 = Some q2" "items q2 = [sc]"
      using add [of "aw_register (kb_waker E) w (KBD_WAKER s)"] by auto
    from pop_registered_ready [OF s2(2,3)] show ?thesis
      using q1(1) s2(1) by (simp add: poll_next_def io_bind_def)
  qed
qed

lemma scancode_after_poll:
  assumes "kbd_ready held items cap s" and "scancodes items s = []"
  shows "\<exists>s1 s2 s3. poll_next E (io_ret ()) (io_ret ()) w s = (Ret Pending, s1) \<and>
    add_scancode E sc s1 = (Ret (), s2) \<and> kbd_woken s2 = kbd_woken s @ [w] \<and>
    poll_next E (io_ret ()) (io_ret ()) w s2 = (Ret (Ready (Some sc)), s3)"
proof -
  obtain q where q: "SCANCODE_QUEUE s = Some q" "items q = []" "cap q = 100"
    using assms by (auto simp: kbd_ready_def scancodes_def)
  obtain q1 k where s1: "poll_next E (io_ret ()) (io_ret ()) w s = (Ret Pending, s\<lparr>SCANCODE_QUEUE := Some q1, KBD_WAKER := k\<rparr>)"
    "items q1 = []" "cap q1 = cap q" "registered k = Some w"
    by (rule poll_next_quiet [OF q(1)]) (use q(2) in simp_all)
  let ?s1 = "s\<lparr>SCANCODE_QUEUE := Some q1, KBD_WAKER := k\<rparr>"
  have "kbd_ready held items cap ?s1" "length (scancodes items ?s1) < 100"
    using assms(1) s1 q by (simp_all add: kbd_ready_def vga_ready_def scancodes_def)
  then obtain q2 k2 where s2: "add_scancode E sc ?s1 = (Ret (), ?s1\<lparr>SCANCODE_QUEUE := Some q2, KBD_WAKER := k2,
      kbd_woken := kbd_woken ?s1 @ (case registered (KBD_WAKER ?s1) of None \<Rightarrow> [] | Some w \<Rightarrow> [w])\<rparr>)"
    "items q2 = scancodes items ?s1 @ [sc]"
    by (rule add_scancode_ok)
  let ?s2 = "?s1\<lparr>SCANCODE_QUEUE := Some q2, KBD_WAKER := k2, kbd_woken := kbd_woken s @ [w]\<rparr>"
  have "SCANCODE_QUEUE ?s2 = Some q2" by simp
  then obtain s3 where "poll_next E (io_ret ()) (io_ret ()) w ?s2 = (Ret (Ready (Some sc)), s3)"
    by (rule poll_next_quiet [of _ _ w]) (use s2(2) s1(2) in \<open>auto simp: scancodes_def\<close>)
  then show ?thesis using s1 s2(1) by auto
qed

end

section \<open>The stream as a bounded buffer\<close>

text \<open>
  What the module promises: a buffer of 100 scancodes. A key press appends its scancode, or is dropped
  when the buffer is full; a poll takes the oldest scancode, or is pending.
\<close>

datatype kbd_event = Press u8 | Poll

fun buffer_run :: "kbd_event list \<Rightarrow> u8 list \<Rightarrow> u8 option poll list" where
  "buffer_run [] buf = []"
| "buffer_run (Press sc # es) buf = buffer_run es (if length buf < 100 then buf @ [sc] else buf)"
| "buffer_run (Poll # es) buf = (case buf of
      [] \<Rightarrow> Pending # buffer_run es []
    | sc # rest \<Rightarrow> Ready (Some sc) # buffer_run es rest)"

fun stream_run ::
  "('c, 'm, 'q, 'k, 'w) kbd_env \<Rightarrow> 'w \<Rightarrow> kbd_event list \<Rightarrow> ('c, 'm, 'q, 'k, 'w, 'z, u8 option poll list) kbd_io" where
  "stream_run E w [] = io_ret []"
| "stream_run E w (Press sc # es) = io_bind (add_scancode E sc) (\<lambda>_. stream_run E w es)"
| "stream_run E w (Poll # es) =
     io_bind (poll_next E (io_ret ()) (io_ret ()) w) (\<lambda>r.
     io_bind (stream_run E w es) (\<lambda>rs. io_ret (r # rs)))"

text \<open>The bytes the scancodes print, and the state of the decoder after them.\<close>

definition decode :: "('d, 'e) decoder \<Rightarrow> u8 \<Rightarrow> 'd \<Rightarrow> u8 list \<times> 'd" where
  "decode D sc d = (case kd_add_byte D sc d of
       (Ok (Some ev), d') \<Rightarrow> (case kd_process D ev d' of
           (Some (Unicode bs), d'') \<Rightarrow> (bs, d'') | (Some (RawKey bs), d'') \<Rightarrow> (bs, d'') | (None, d'') \<Rightarrow> ([], d''))
     | (_, d') \<Rightarrow> ([], d'))"

fun typed :: "('d, 'e) decoder \<Rightarrow> u8 list \<Rightarrow> 'd \<Rightarrow> u8 list \<times> 'd" where
  "typed D [] d = ([], d)"
| "typed D (sc # scs) d = (case decode D sc d of (bs, d') \<Rightarrow> case typed D scs d' of (bs', d'') \<Rightarrow> (bs @ bs', d''))"

text \<open>Taking and printing scancodes wakes nobody and leaves the rest of the kernel as it is.\<close>

definition kbd_frame :: "('c, 'm, 'q, 'k, 'w, 'z) kbd_state_scheme \<Rightarrow> ('c, 'm, 'q, 'k, 'w, 'z) kbd_state_scheme \<Rightarrow> bool" where
  "kbd_frame s s' \<longleftrightarrow> kbd_state.more s' = kbd_state.more s \<and> kbd_woken s' = kbd_woken s"

context keyboard_sync
begin

lemma add_scancode_buffer:
  assumes "kbd_ready held items cap s"
  obtains s' where "add_scancode E sc s = (Ret (), s')" and "kbd_ready held items cap s'"
    and "scancodes items s' = (if length (scancodes items s) < 100 then scancodes items s @ [sc] else scancodes items s)"
proof (cases "length (scancodes items s) < 100")
  case True
  obtain q k where a: "add_scancode E sc s = (Ret (), s\<lparr>SCANCODE_QUEUE := Some q, KBD_WAKER := k,
      kbd_woken := kbd_woken s @ (case registered (KBD_WAKER s) of None \<Rightarrow> [] | Some w \<Rightarrow> [w])\<rparr>)"
    "items q = scancodes items s @ [sc]" "cap q = 100"
    by (rule add_scancode_ok [OF assms True])
  show ?thesis
    by (rule that [OF a(1)]) (use a assms True in \<open>auto simp: kbd_ready_def vga_ready_def scancodes_def\<close>)
next
  case False
  obtain q w m c where a: "add_scancode E sc s = (Ret (), s\<lparr>SCANCODE_QUEUE := Some q, writer := w, writer_lock := m, cpu := c\<rparr>)"
    "items q = scancodes items s" "cap q = 100" "writer_ok w" "\<not> held m"
    by (rule add_scancode_full [OF assms False])
  show ?thesis
    by (rule that [OF a(1)]) (use a assms False in \<open>auto simp: kbd_ready_def vga_ready_def scancodes_def\<close>)
qed

lemma poll_next_buffer:
  assumes "kbd_ready held items cap s"
  obtains s' where "poll_next E (io_ret ()) (io_ret ()) w s =
      (Ret (case scancodes items s of [] \<Rightarrow> Pending | sc # _ \<Rightarrow> Ready (Some sc)), s')"
    and "kbd_ready held items cap s'" and "scancodes items s' = tl (scancodes items s)"
    and "scancodes items s = [] \<Longrightarrow> registered (KBD_WAKER s') = Some w" and "writer s' = writer s" and "kbd_frame s s'"
proof -
  obtain q where q: "SCANCODE_QUEUE s = Some q" "cap q = 100" "length (items q) \<le> 100"
    using assms by (auto simp: kbd_ready_def)
  show ?thesis
  proof (cases rule: poll_next_quiet [OF q(1), of w, case_names pending ready])
    case (pending q' k)
    show ?thesis
      by (rule that [of "s\<lparr>SCANCODE_QUEUE := Some q', KBD_WAKER := k\<rparr>"]) (use pending q assms in \<open>auto simp: scancodes_def kbd_ready_def vga_ready_def kbd_frame_def\<close>)
  next
    case (ready x xs q')
    show ?thesis
      by (rule that [of "s\<lparr>SCANCODE_QUEUE := Some q'\<rparr>"]) (use ready q assms in \<open>auto simp: scancodes_def kbd_ready_def vga_ready_def kbd_frame_def\<close>)
  qed
qed

lemma stream_run_buffer:
  assumes "kbd_ready held items cap s"
  shows "\<exists>s'. stream_run E w es s = (Ret (buffer_run es (scancodes items s)), s')"
  using assms
proof (induction es arbitrary: s)
  case Nil
  then show ?case by simp
next
  case (Cons e es)
  show ?case
  proof (cases e)
    case (Press sc)
    obtain s1 where s1: "add_scancode E sc s = (Ret (), s1)" "kbd_ready held items cap s1"
      "scancodes items s1 = (if length (scancodes items s) < 100 then scancodes items s @ [sc] else scancodes items s)"
      by (rule add_scancode_buffer [OF Cons.prems])
    then show ?thesis using Cons.IH [OF s1(2)] Press by (auto simp: io_bind_def)
  next
    case Poll
    obtain s1 where s1: "poll_next E (io_ret ()) (io_ret ()) w s =
        (Ret (case scancodes items s of [] \<Rightarrow> Pending | sc # _ \<Rightarrow> Ready (Some sc)), s1)"
      "kbd_ready held items cap s1" "scancodes items s1 = tl (scancodes items s)"
      by (rule poll_next_buffer [OF Cons.prems])
    then show ?thesis using Cons.IH [OF s1(2)] Poll by (auto simp: io_bind_def split: list.splits)
  qed
qed

end

lemma handle_scancode_decode:
  "handle_scancode E D d sc s = (Ret (snd (decode D sc d)), s) \<and> fst (decode D sc d) = [] \<or>
   handle_scancode E D d sc s = io_bind (print_args (kb_vga E) (fst (decode D sc d))) (\<lambda>_. io_ret (snd (decode D sc d))) s"
proof -
  obtain r d1 where r: "kd_add_byte D sc d = (r, d1)" by fastforce
  show ?thesis
  proof (cases "\<exists>ev. r = Ok (Some ev)")
    case True
    then obtain ev k d2 where "r = Ok (Some ev)" "kd_process D ev d1 = (k, d2)" by fastforce
    then show ?thesis
      using r by (cases k) (auto simp: handle_scancode_def decode_def print_key_def split: DecodedKey.splits)
  next
    case False
    then show ?thesis
      using r by (cases r) (auto simp: handle_scancode_def decode_def split: option.splits)
  qed
qed

context keyboard_sync
begin

lemma handle_scancode_prints:
  assumes "kbd_ready held items cap s"
  obtains s' where "handle_scancode E D d sc s = (Ret (snd (decode D sc d)), s')" and "kbd_ready held items cap s'"
    and "write_string (fst (decode D sc d)) (writer s) = Ret (writer s')" and "SCANCODE_QUEUE s' = SCANCODE_QUEUE s" and "kbd_frame s s'"
proof -
  have v: "vga_ready held s" using assms by (simp add: kbd_ready_def)
  obtain c m w where p: "print_args (kb_vga E) (fst (decode D sc d)) s = (Ret (), s\<lparr>writer := w, writer_lock := m, cpu := c\<rparr>)"
    "write_string (fst (decode D sc d)) (writer s) = Ret w" "writer_ok w" "\<not> held m"
    by (rule print_args_ok [OF v])
  from handle_scancode_decode [of E D d sc s] show thesis
  proof (elim disjE conjE)
    assume "handle_scancode E D d sc s = (Ret (snd (decode D sc d)), s)" "fst (decode D sc d) = []"
    then show thesis using assms by (intro that [of s]) (simp_all add: kbd_frame_def)
  next
    assume "handle_scancode E D d sc s = io_bind (print_args (kb_vga E) (fst (decode D sc d))) (\<lambda>_. io_ret (snd (decode D sc d))) s"
    then show thesis using p assms
      by (intro that [of "s\<lparr>writer := w, writer_lock := m, cpu := c\<rparr>"]) (simp_all add: io_bind_def kbd_ready_def vga_ready_def kbd_frame_def)
  qed
qed

lemma keypresses_loop_drains:
  assumes "kbd_ready held items cap s"
  shows "\<exists>s'. keypresses_loop E D w d s = Some (Ret (Reading (snd (typed D (scancodes items s) d)), Pending), s') \<and>
    kbd_ready held items cap s' \<and> scancodes items s' = [] \<and> registered (KBD_WAKER s') = Some w \<and>
    write_string (fst (typed D (scancodes items s) d)) (writer s) = Ret (writer s') \<and> kbd_frame s s'"
  using assms
proof (induction "scancodes items s" arbitrary: s d)
  case Nil
  obtain s1 where s1: "poll_next E (io_ret ()) (io_ret ()) w s = (Ret Pending, s1)" "kbd_ready held items cap s1"
    "scancodes items s1 = []" "registered (KBD_WAKER s1) = Some w" "writer s1 = writer s" "kbd_frame s s1"
    by (rule poll_next_buffer [OF Nil.prems, of w]) (use Nil.hyps [symmetric] in simp)
  then show ?case using Nil.hyps [symmetric] by (simp add: keypresses_loop.simps [of E D w d s])
next
  case (Cons sc scs)
  obtain s1 where s1: "poll_next E (io_ret ()) (io_ret ()) w s = (Ret (Ready (Some sc)), s1)" "kbd_ready held items cap s1"
    "scancodes items s1 = scs" "writer s1 = writer s" "kbd_frame s s1"
    by (rule poll_next_buffer [OF Cons.prems, of w]) (use Cons.hyps(2) [symmetric] in simp)
  obtain s2 where s2: "handle_scancode E D d sc s1 = (Ret (snd (decode D sc d)), s2)" "kbd_ready held items cap s2"
    "write_string (fst (decode D sc d)) (writer s1) = Ret (writer s2)" "SCANCODE_QUEUE s2 = SCANCODE_QUEUE s1" "kbd_frame s1 s2"
    by (rule handle_scancode_prints [OF s1(2)])
  have "scs = scancodes items s2" using s1(3) s2(4) by (simp add: scancodes_def)
  from Cons.hyps(1) [OF this s2(2), of "snd (decode D sc d)"] obtain s' where
    s': "keypresses_loop E D w (snd (decode D sc d)) s2 = Some (Ret (Reading (snd (typed D scs (snd (decode D sc d)))), Pending), s')"
    "kbd_ready held items cap s'" "scancodes items s' = []" "registered (KBD_WAKER s') = Some w"
    "write_string (fst (typed D scs (snd (decode D sc d)))) (writer s2) = Ret (writer s')" "kbd_frame s2 s'"
    unfolding \<open>scs = _\<close> [symmetric] by blast
  have t: "typed D (scancodes items s) d =
      (fst (decode D sc d) @ fst (typed D scs (snd (decode D sc d))), snd (typed D scs (snd (decode D sc d))))"
    unfolding Cons.hyps(2) [symmetric] by (simp add: case_prod_beta)
  have "keypresses_loop E D w d s = Some (Ret (Reading (snd (typed D scs (snd (decode D sc d)))), Pending), s')"
    using s1(1) s2(1) s'(1) by (simp add: keypresses_loop.simps [of E D w d s])
  then show ?case using s'(2-6) s2(3,5) s1(4,5) unfolding t by (simp add: write_string_append kbd_frame_def)
qed

end

interpretation flag_kbd: keyboard_sync
  "\<lparr>kb_vga = \<lparr>env_irq = flag_irq, env_mutex = flag_mutex\<rparr>, kb_queue = list_queue, kb_waker = option_waker\<rparr>"
  "\<lambda>m. m" snd fst "\<lambda>k. k"
  using flag_sync.vga_sync_axioms lq.queue_spec_axioms ow.waker_spec_axioms by (simp add: keyboard_sync_def)

section \<open>Properties\<close>

text \<open>
  C10. No key press is lost to a sleeping task: with no scancode waiting, a press that arrives during a
  poll, before or after the waker is registered, makes that same poll ready with it; one that arrives
  after the poll returned pending calls the registered waker, and the next poll is ready with it.
\<close>

theorem scancode_no_lost_wakeup:
  assumes "keyboard_sync E held items cap registered" and "kbd_ready held items cap s" and "scancodes items s = []"
  shows "(\<exists>s'. poll_next E (add_scancode E sc) (io_ret ()) w s = (Ret (Ready (Some sc)), s')) \<and>
    (\<exists>s'. poll_next E (io_ret ()) (add_scancode E sc) w s = (Ret (Ready (Some sc)), s')) \<and>
    (\<exists>s1 s2 s3. poll_next E (io_ret ()) (io_ret ()) w s = (Ret Pending, s1) \<and>
       add_scancode E sc s1 = (Ret (), s2) \<and> kbd_woken s2 = kbd_woken s @ [w] \<and>
       poll_next E (io_ret ()) (io_ret ()) w s2 = (Ret (Ready (Some sc)), s3))"
  using keyboard_sync.scancode_during_poll [OF assms] keyboard_sync.scancode_after_poll [OF assms] by blast

definition flag_kbd_env :: "(bool, bool, nat \<times> u8 list, nat option, nat) kbd_env" where
  "flag_kbd_env = \<lparr>kb_vga = \<lparr>env_irq = flag_irq, env_mutex = flag_mutex\<rparr>, kb_queue = list_queue, kb_waker = option_waker\<rparr>"

definition flag_kbd_state :: "u8 list \<Rightarrow> (bool, bool, nat \<times> u8 list, nat option, nat) kbd_state" where
  "flag_kbd_state scs = vga.extend flag_vga (kbd_state.fields (Some (100, scs)) None [])"

lemma flag_kbd_ready: "length scs \<le> 100 \<Longrightarrow> kbd_ready (\<lambda>m. m) snd fst (flag_kbd_state scs)"
  using flag_vga_ready by (simp add: kbd_ready_def vga_ready_def flag_kbd_state_def vga.defs kbd_state.defs)

lemma flag_kbd_sync: "keyboard_sync flag_kbd_env (\<lambda>m. m) snd fst (\<lambda>k. k)"
  unfolding flag_kbd_env_def by (rule flag_kbd.keyboard_sync_axioms)

theorem scancode_no_lost_wakeup_witness:
  "(\<exists>s'. poll_next flag_kbd_env (add_scancode flag_kbd_env 0x1E) (io_ret ()) 7 (flag_kbd_state []) = (Ret (Ready (Some 0x1E)), s')) \<and>
   (\<exists>s1 s2. poll_next flag_kbd_env (io_ret ()) (io_ret ()) 7 (flag_kbd_state []) = (Ret Pending, s1) \<and>
      add_scancode flag_kbd_env 0x1E s1 = (Ret (), s2) \<and> kbd_woken s2 = kbd_woken (flag_kbd_state []) @ [7])"
proof -
  have "scancodes snd (flag_kbd_state []) = []"
    by (simp add: scancodes_def flag_kbd_state_def vga.defs kbd_state.defs)
  moreover have "kbd_ready (\<lambda>m. m) snd fst (flag_kbd_state [])" by (rule flag_kbd_ready) simp
  ultimately show ?thesis
    using scancode_no_lost_wakeup [OF flag_kbd_sync, of "flag_kbd_state []" "0x1E" 7] by auto
qed



text \<open>
  A poll of \<open>print_keypresses\<close> always returns, pending: it prints what all waiting scancodes decode
  to, in order, leaves the queue empty and its waker registered. So the task never completes.
\<close>

theorem print_keypresses_drains:
  assumes "keyboard_sync E held items cap registered" and "kbd_ready held items cap s"
  shows "\<exists>s'. print_keypresses_poll E D w (Reading d) s =
      Some (Ret (Reading (snd (typed D (scancodes items s) d)), Pending), s') \<and>
    scancodes items s' = [] \<and> registered (KBD_WAKER s') = Some w \<and>
    write_string (fst (typed D (scancodes items s) d)) (writer s) = Ret (writer s')"
  using keyboard_sync.keypresses_loop_drains [OF assms, of D w d] by (auto simp: print_keypresses_poll_def)

text \<open>A decoder that reads every scancode as the letter with that code.\<close>

definition plain_decoder :: "(unit, u8) decoder" where
  "plain_decoder = \<lparr>kd_new = (), kd_add_byte = (\<lambda>sc d. (Ok (Some sc), d)), kd_process = (\<lambda>sc d. (Some (Unicode [sc]), d))\<rparr>"

theorem print_keypresses_drains_witness:
  "\<exists>s'. print_keypresses_poll flag_kbd_env plain_decoder 7 (Reading ()) (flag_kbd_state [0x48, 0x69]) =
      Some (Ret (Reading (), Pending), s') \<and> KBD_WAKER s' = Some 7 \<and>
    write_string [0x48, 0x69] (writer (flag_kbd_state [0x48, 0x69])) = Ret (writer s')"
proof -
  have "typed plain_decoder (scancodes snd (flag_kbd_state [0x48, 0x69])) () = ([0x48, 0x69], ())"
    by (simp add: plain_decoder_def decode_def scancodes_def flag_kbd_state_def vga.defs kbd_state.defs)
  then show ?thesis
    using print_keypresses_drains [OF flag_kbd_sync flag_kbd_ready [of "[0x48, 0x69]"], of plain_decoder 7 "()"] by auto
qed

end
