(* ===== verification/Interrupts.thy ===== *)
theory Interrupts
  imports Keyboard Ata
begin

text \<open>
  \<open>src/interrupts.rs\<close> and \<open>src/gdt.rs\<close>: the interrupt vectors, the descriptor tables, and the handlers
  on the state of the kernel, which extends that of screen and keyboard by the disk driver and the
  interrupt controller. The crates \<open>pic8259\<close> (the controller) and the descriptor tables of \<open>x86_64\<close> are
  parameters. A handler runs with interrupts disabled; the texts that \<open>Debug\<close> gives for a stack frame or
  an error code are arguments.
\<close>

section \<open>Vectors\<close>

definition PIC_1_OFFSET :: u8 where "PIC_1_OFFSET = 32"

definition PIC_2_OFFSET :: u8 where "PIC_2_OFFSET = PIC_1_OFFSET + 8"

datatype InterruptIndex = Timer | KeyboardIrq | PrimaryATA

fun as_u8 :: "InterruptIndex \<Rightarrow> u8" where
  "as_u8 Timer = PIC_1_OFFSET"
| "as_u8 KeyboardIrq = PIC_1_OFFSET + 1"
| "as_u8 PrimaryATA = PIC_1_OFFSET + 14"

definition as_usize :: "InterruptIndex \<Rightarrow> nat" where
  "as_usize i = unat (as_u8 i)"

section \<open>Descriptor tables\<close>

definition DOUBLE_FAULT_IST_INDEX :: u16 where "DOUBLE_FAULT_IST_INDEX = 0"

definition STACK_SIZE :: u64 where "STACK_SIZE = 4096 * 5"

text \<open>
  The task state segment: its interrupt stack table, here for the static stack at \<open>stack_start\<close>. The
  code adds the size to the address of a static array, which does not overflow.
\<close>

record TaskStateSegment =
  interrupt_stack_table :: "u64 list"

definition TSS :: "u64 \<Rightarrow> TaskStateSegment" where
  "TSS stack_start =
     (let tss = \<lparr>interrupt_stack_table = replicate 7 0\<rparr>;
          stack_end = stack_start + STACK_SIZE
      in tss\<lparr>interrupt_stack_table := (interrupt_stack_table tss)[unat DOUBLE_FAULT_IST_INDEX := stack_end]\<rparr>)"

datatype Descriptor = KernelCodeSegment | TssSegment TaskStateSegment

record ('g, 'sel) gdt_ops =
  gdt_new :: 'g
  gdt_add_entry :: "Descriptor \<Rightarrow> 'g \<Rightarrow> 'sel \<times> 'g"

record 'sel Selectors =
  code_selector :: 'sel
  tss_selector :: 'sel

definition GDT :: "('g, 'sel) gdt_ops \<Rightarrow> u64 \<Rightarrow> 'g \<times> 'sel Selectors" where
  "GDT G stack_start =
     (case gdt_add_entry G KernelCodeSegment (gdt_new G) of (code, gdt) \<Rightarrow>
      case gdt_add_entry G (TssSegment (TSS stack_start)) gdt of (tss, gdt) \<Rightarrow>
        (gdt, \<lparr>code_selector = code, tss_selector = tss\<rparr>))"

text \<open>The handlers named in the table, and an entry with the stack it runs on.\<close>

datatype handler = BreakpointHandler | PageFaultHandler | DoubleFaultHandler
  | TimerHandler | KeyboardHandler | AtaHandler

record idt_entry =
  entry_handler :: handler
  stack_index :: "u16 option"

definition set_handler_fn :: "nat \<Rightarrow> handler \<Rightarrow> (nat \<rightharpoonup> idt_entry) \<Rightarrow> (nat \<rightharpoonup> idt_entry)" where
  "set_handler_fn v h idt = idt(v \<mapsto> \<lparr>entry_handler = h, stack_index = None\<rparr>)"

definition set_stack_index :: "nat \<Rightarrow> u16 \<Rightarrow> (nat \<rightharpoonup> idt_entry) \<Rightarrow> (nat \<rightharpoonup> idt_entry)" where
  "set_stack_index v i idt = (case idt v of None \<Rightarrow> idt | Some e \<Rightarrow> idt(v \<mapsto> e\<lparr>stack_index := Some i\<rparr>))"

text \<open>The fields \<open>breakpoint\<close>, \<open>double_fault\<close> and \<open>page_fault\<close> are the vectors 3, 8 and 14 of the processor.\<close>

definition IDT :: "nat \<rightharpoonup> idt_entry" where
  "IDT =
     (let idt = Map.empty;
          idt = set_handler_fn 3 BreakpointHandler idt;
          idt = set_handler_fn 14 PageFaultHandler idt;
          idt = set_stack_index 8 DOUBLE_FAULT_IST_INDEX (set_handler_fn 8 DoubleFaultHandler idt);
          idt = set_handler_fn (as_usize Timer) TimerHandler idt;
          idt = set_handler_fn (as_usize KeyboardIrq) KeyboardHandler idt;
          idt = set_handler_fn (as_usize PrimaryATA) AtaHandler idt
      in idt)"

section \<open>The kernel's state\<close>

record 'i pic_ops =
  pics_new :: "u8 \<Rightarrow> u8 \<Rightarrow> 'i"
  pics_initialize :: "'i \<Rightarrow> 'i"
  pics_end_of_interrupt :: "u8 \<Rightarrow> 'i \<Rightarrow> 'i"

record ('c, 'm, 'q, 'k, 'w, 'p, 'r, 'a, 'i) kernel_state = "('c, 'm, 'q, 'k, 'w) kbd_state" +
  ata :: "('p, 'r, 'a, 'w) ata_state"
  PICS :: 'i
  pics_lock :: 'm

record ('c, 'm, 'q, 'k, 'w, 'p, 'r, 'a, 'i) kernel_env =
  k_kbd :: "('c, 'm, 'q, 'k, 'w) kbd_env"
  k_ata :: "('p, 'r, 'a, 'w) ata_env"
  k_pic :: "'i pic_ops"

type_synonym ('c, 'm, 'q, 'k, 'w, 'p, 'r, 'a, 'i, 'z, 'x) kernel_io =
  "(('c, 'm, 'q, 'k, 'w, 'p, 'r, 'a, 'i, 'z) kernel_state_scheme, 'x) io"

abbreviation k_vga :: "('c, 'm, 'q, 'k, 'w, 'p, 'r, 'a, 'i) kernel_env \<Rightarrow> ('c, 'm) vga_env" where
  "k_vga K \<equiv> kb_vga (k_kbd K)"

text \<open>
  A call of the disk driver. The lines it prints go to the screen when it ends: printing touches nothing of
  the driver, so this is the same as printing each line where the code has it (\<open>on_ata_bind\<close> below).
\<close>

fun print_lines :: "('c, 'm) vga_env \<Rightarrow> ata_message list \<Rightarrow> (('c, 'm, 'z) vga_scheme, unit) io" where
  "print_lines V [] = io_ret ()"
| "print_lines V (m # ms) = io_bind (println_args V (ata_text m)) (\<lambda>_. print_lines V ms)"

definition new_lines :: "('p, 'r, 'a, 'w) ata_state \<Rightarrow> ('p, 'r, 'a, 'w) ata_state \<Rightarrow> ata_message list" where
  "new_lines a a' = drop (length (console a)) (console a')"

definition on_ata ::
  "('c, 'm) vga_env \<Rightarrow> ('p, 'r, 'a, 'w, 'x) ata_io \<Rightarrow> ('c, 'm, 'q, 'k, 'w, 'p, 'r, 'a, 'i, 'z, 'x) kernel_io" where
  "on_ata V f s = (case f (ata s) of (r, a) \<Rightarrow>
     io_bind (print_lines V (new_lines (ata s) a)) (\<lambda>_ s. (r, s)) (s\<lparr>ata := a\<rparr>))"

section \<open>Handlers\<close>

text \<open>\<open>PICS.lock().notify_end_of_interrupt(index)\<close>.\<close>

definition notify_end_of_interrupt ::
  "('c, 'm, 'q, 'k, 'w, 'p, 'r, 'a, 'i) kernel_env \<Rightarrow> u8 \<Rightarrow> ('c, 'm, 'q, 'k, 'w, 'p, 'r, 'a, 'i, 'z, unit) kernel_io" where
  "notify_end_of_interrupt K v =
     io_bind (\<lambda>s. case sm_lock (env_mutex (k_vga K)) (pics_lock s) of (r, m) \<Rightarrow> (r, s\<lparr>pics_lock := m\<rparr>)) (\<lambda>_.
     io_bind (io_modify (\<lambda>s. s\<lparr>PICS := pics_end_of_interrupt (k_pic K) v (PICS s)\<rparr>)) (\<lambda>_.
     io_modify (\<lambda>s. s\<lparr>pics_lock := sm_unlock (env_mutex (k_vga K)) (pics_lock s)\<rparr>)))"

definition hlt_loop :: "('s, 'x) io" where
  "hlt_loop s = (Hang, s)"

definition breakpoint_handler ::
  "('c, 'm, 'q, 'k, 'w, 'p, 'r, 'a, 'i) kernel_env \<Rightarrow> u8 list \<Rightarrow> ('c, 'm, 'q, 'k, 'w, 'p, 'r, 'a, 'i, 'z, unit) kernel_io" where
  "breakpoint_handler K stack_frame = println_args (k_vga K) (bytes ''EXCEPTION: BREAKPOINT'' @ [0x0A] @ stack_frame)"

definition page_fault_handler ::
  "('c, 'm, 'q, 'k, 'w, 'p, 'r, 'a, 'i) kernel_env \<Rightarrow> u8 list \<Rightarrow> u8 list \<Rightarrow> u8 list \<Rightarrow>
   ('c, 'm, 'q, 'k, 'w, 'p, 'r, 'a, 'i, 'z, unit) kernel_io" where
  "page_fault_handler K stack_frame error_code cr2 =
     io_bind (println_args (k_vga K) (bytes ''EXCEPTION: PAGE FAULT'')) (\<lambda>_.
     io_bind (println_args (k_vga K) (bytes ''Accessed Address: '' @ cr2)) (\<lambda>_.
     io_bind (println_args (k_vga K) (bytes ''Error code: '' @ error_code)) (\<lambda>_.
     io_bind (println_args (k_vga K) stack_frame) (\<lambda>_.
     hlt_loop))))"

definition timer_interrupt_handler ::
  "('c, 'm, 'q, 'k, 'w, 'p, 'r, 'a, 'i) kernel_env \<Rightarrow> ('c, 'm, 'q, 'k, 'w, 'p, 'r, 'a, 'i, 'z, unit) kernel_io" where
  "timer_interrupt_handler K =
     io_bind (print_args (k_vga K) (bytes ''.'')) (\<lambda>_. notify_end_of_interrupt K (as_u8 Timer))"

definition keyboard_interrupt_handler ::
  "('c, 'm, 'q, 'k, 'w, 'p, 'r, 'a, 'i) kernel_env \<Rightarrow> ('c, 'm, 'q, 'k, 'w, 'p, 'r, 'a, 'i, 'z, unit) kernel_io" where
  "keyboard_interrupt_handler K =
     io_bind (on_ata (k_vga K) (in8 (k_ata K) 0x60)) (\<lambda>scancode.
     io_bind (add_scancode (k_kbd K) scancode) (\<lambda>_.
     notify_end_of_interrupt K (as_u8 KeyboardIrq)))"

definition ata_primary_interrupt_handler ::
  "('c, 'm, 'q, 'k, 'w, 'p, 'r, 'a, 'i) kernel_env \<Rightarrow> ('c, 'm, 'q, 'k, 'w, 'p, 'r, 'a, 'i, 'z, unit) kernel_io" where
  "ata_primary_interrupt_handler K =
     io_bind (on_ata (k_vga K) (on_primary_ata_interrupt (k_ata K))) (\<lambda>_. notify_end_of_interrupt K (as_u8 PrimaryATA))"

definition double_fault_handler :: "u8 list \<Rightarrow> ('s, unit) io" where
  "double_fault_handler stack_frame = io_panic (''EXCEPTION: DOUBLE FAULT'' @ [CHR 0x0A] @ map (\<lambda>b. char_of (unat b)) stack_frame)"

text \<open>What the processor runs for a vector; \<open>info\<close> holds the texts of stack frame, error code and \<open>Cr2\<close>.\<close>

definition run_handler ::
  "('c, 'm, 'q, 'k, 'w, 'p, 'r, 'a, 'i) kernel_env \<Rightarrow> u8 list \<times> u8 list \<times> u8 list \<Rightarrow> handler \<Rightarrow>
   ('c, 'm, 'q, 'k, 'w, 'p, 'r, 'a, 'i, 'z, unit) kernel_io" where
  "run_handler K info h = (case info of (stack_frame, error_code, cr2) \<Rightarrow> case h of
       BreakpointHandler \<Rightarrow> breakpoint_handler K stack_frame
     | PageFaultHandler \<Rightarrow> page_fault_handler K stack_frame error_code cr2
     | DoubleFaultHandler \<Rightarrow> double_fault_handler stack_frame
     | TimerHandler \<Rightarrow> timer_interrupt_handler K
     | KeyboardHandler \<Rightarrow> keyboard_interrupt_handler K
     | AtaHandler \<Rightarrow> ata_primary_interrupt_handler K)"

text \<open>
  A hardware interrupt at a point where interrupts are enabled: the gate disables them, the handler of
  its vector runs, and \<open>iret\<close> restores the flag.
\<close>

definition interrupt ::
  "('c, 'm, 'q, 'k, 'w, 'p, 'r, 'a, 'i) kernel_env \<Rightarrow> u8 list \<times> u8 list \<times> u8 list \<Rightarrow> InterruptIndex \<Rightarrow>
   ('c, 'm, 'q, 'k, 'w, 'p, 'r, 'a, 'i, 'z, unit) kernel_io" where
  "interrupt K info i s =
     (case IDT (as_usize i) of
        None \<Rightarrow> (Hang, s)
      | Some e \<Rightarrow> (case run_handler K info (entry_handler e) (s\<lparr>cpu := irq_disable (env_irq (k_vga K)) (cpu s)\<rparr>) of
          (r, s') \<Rightarrow> (r, s'\<lparr>cpu := cpu s\<rparr>)))"

section \<open>The driver's lines on the screen\<close>

definition lines_text :: "ata_message list \<Rightarrow> u8 list" where
  "lines_text ms = concat (map (\<lambda>m. ata_text m @ [0x0A]) ms)"

lemma lines_text_simps [simp]:
  "lines_text [] = []" "lines_text (m # ms) = ata_text m @ [0x0A] @ lines_text ms" "lines_text (ms @ ms') = lines_text ms @ lines_text ms'"
  by (simp_all add: lines_text_def)

lemma on_ata_silent: "f (ata s) = (r, a) \<Longrightarrow> console a = console (ata s) \<Longrightarrow> on_ata V f s = (r, s\<lparr>ata := a\<rparr>)"
  by (simp add: on_ata_def new_lines_def)

text \<open>Driver calls only add lines.\<close>

definition logs :: "('p, 'r, 'a, 'w, 'x) ata_io \<Rightarrow> bool" where
  "logs f \<longleftrightarrow> (\<forall>a. \<exists>c. console (snd (f a)) = console a @ c)"

lemma logsE: "logs f \<Longrightarrow> f a = (r, a') \<Longrightarrow> (\<And>c. console a' = console a @ c \<Longrightarrow> P) \<Longrightarrow> P"
  unfolding logs_def by (metis snd_conv)

lemma logs_basic: "logs (io_ret x)" "logs (io_gets g)" "logs (io_panic e)" "(\<And>s. console (h s) = console s) \<Longrightarrow> logs (io_modify h)"
  by (simp_all add: logs_def io_panic_def)

lemma logs_bind: "logs m \<Longrightarrow> (\<And>x. logs (f x)) \<Longrightarrow> logs (io_bind m f)"
  unfolding logs_def io_bind_def
  by (auto split: prod.splits outcome.splits) (metis append_assoc snd_conv)+

lemma logs_ports: "logs (in8 E port)" "logs (in16 E port)" "logs (out8 E port v)" "logs (out16 E port w)" "logs (log_msg m)"
  by (auto simp: logs_def in8_def in16_def out8_def out16_def log_msg_def split: prod.splits)

lemma logs_words: "logs (read_words E i n)" "logs (write_words E i n)"
  by (induction n arbitrary: i) (auto simp: Let_def intro!: logs_basic logs_ports logs_bind)

lemma logs_driver:
  "logs (on_primary_ata_interrupt E)" "logs (start_read E lba)" "logs (start_write E lba data)" "logs (ata_init E self)"
  unfolding on_primary_ata_interrupt_def wake_disk_def start_read_def start_write_def ata_init_def soft_reset_def detect_drives_def Let_def
  by (auto split: option.splits prod.splits intro!: logs_basic logs_ports logs_words logs_bind)

lemma print_lines_append: "print_lines V (ms @ ms') s = io_bind (print_lines V ms) (\<lambda>_. print_lines V ms') s"
  by (induction ms arbitrary: s) (auto simp: io_bind_def split: prod.splits outcome.splits)

text \<open>Printing neither reads nor changes the driver's state.\<close>

lemma print_args_ata: "print_args V args (s\<lparr>ata := a\<rparr>) = (case print_args V args s of (r, s') \<Rightarrow> (r, s'\<lparr>ata := a\<rparr>))"
  by (auto simp: print_args_def io_bind_def enter_section_def lock_writer_def write_fmt_def unlock_writer_def leave_section_def
      split: prod.splits outcome.splits)

lemma print_lines_ata: "print_lines V ms (s\<lparr>ata := a\<rparr>) = (case print_lines V ms s of (r, s') \<Rightarrow> (r, s'\<lparr>ata := a\<rparr>))"
  by (induction ms arbitrary: s) (auto simp: println_args_def print_args_ata io_bind_def split: prod.splits outcome.splits)

context vga_sync
begin

lemma print_lines_ok:
  assumes "vga_ready held s"
  shows "\<exists>c m w. print_lines E ms s = (Ret (), s\<lparr>writer := w, writer_lock := m, cpu := c\<rparr>) \<and>
    are_enabled (env_irq E) c = are_enabled (env_irq E) (cpu s) \<and> write_string (lines_text ms) (writer s) = Ret w \<and>
    writer_ok w \<and> \<not> held m"
  using assms
proof (induction ms arbitrary: s)
  case Nil
  then show ?case
    by (intro exI [of _ "cpu s"] exI [of _ "writer_lock s"] exI [of _ "writer s"]) (simp add: vga_ready_def)
next
  case (Cons x ms)
  obtain c m w where p: "print_args E (ata_text x @ [0x0A]) s = (Ret (), s\<lparr>writer := w, writer_lock := m, cpu := c\<rparr>)"
    "are_enabled (env_irq E) c = are_enabled (env_irq E) (cpu s)" "write_string (ata_text x @ [0x0A]) (writer s) = Ret w"
    "writer_ok w" "\<not> held m" by (rule print_args_ok [OF Cons.prems])
  define s1 where "s1 = s\<lparr>writer := w, writer_lock := m, cpu := c\<rparr>"
  have "vga_ready held s1" using p(4,5) by (simp add: vga_ready_def s1_def)
  from Cons.IH [OF this] obtain c' m' w' where q: "print_lines E ms s1 = (Ret (), s1\<lparr>writer := w', writer_lock := m', cpu := c'\<rparr>)"
    "are_enabled (env_irq E) c' = are_enabled (env_irq E) (cpu s1)" "write_string (lines_text ms) (writer s1) = Ret w'"
    "writer_ok w'" "\<not> held m'" by blast
  have "write_string (lines_text (x # ms)) (writer s) = Ret w'"
    using p(3) q(3) write_string_append [of "ata_text x @ [0x0A]" "lines_text ms" "writer s"] by (simp add: s1_def)
  moreover have "print_lines E (x # ms) s = (Ret (), s\<lparr>writer := w', writer_lock := m', cpu := c'\<rparr>)"
    using p(1) q(1) by (simp add: println_args_def io_bind_def s1_def)
  moreover have "are_enabled (env_irq E) c' = are_enabled (env_irq E) (cpu s)" using p(2) q(2) by (simp add: s1_def)
  ultimately show ?case using q(4,5) by blast
qed

lemma on_ata_ok:
  assumes "vga_ready held s" and "f (ata s) = (r, a)"
  obtains c m w where "on_ata E f s = (r, s\<lparr>ata := a, writer := w, writer_lock := m, cpu := c\<rparr>)"
    and "are_enabled (env_irq E) c = are_enabled (env_irq E) (cpu s)"
    and "write_string (lines_text (new_lines (ata s) a)) (writer s) = Ret w" and "writer_ok w" and "\<not> held m"
proof -
  have "vga_ready held (s\<lparr>ata := a\<rparr>)" using assms(1) by (simp add: vga_ready_def)
  from print_lines_ok [OF this, of "new_lines (ata s) a"] obtain c m w where
    p: "print_lines E (new_lines (ata s) a) (s\<lparr>ata := a\<rparr>) = (Ret (), s\<lparr>ata := a, writer := w, writer_lock := m, cpu := c\<rparr>)"
    "are_enabled (env_irq E) c = are_enabled (env_irq E) (cpu s)"
    "write_string (lines_text (new_lines (ata s) a)) (writer s) = Ret w" "writer_ok w" "\<not> held m" by auto
  have "on_ata E f s = (r, s\<lparr>ata := a, writer := w, writer_lock := m, cpu := c\<rparr>)" using p(1) assms(2) by (simp add: on_ata_def io_bind_def)
  then show ?thesis by (rule that) (use p(2-5) in simp_all)
qed

text \<open>So it makes no difference whether lines are printed where a call has them or at its end.\<close>

lemma on_ata_bind:
  assumes "vga_ready held s" and "logs f" and "\<And>x. logs (g x)"
  shows "on_ata E (io_bind f g) s = io_bind (on_ata E f) (\<lambda>x. on_ata E (g x)) s"
proof -
  obtain r a where f: "f (ata s) = (r, a)" by fastforce
  obtain ms where ms: "console a = console (ata s) @ ms" by (rule logsE [OF assms(2) f])
  show ?thesis
  proof (cases r)
    case (Ret x)
    obtain r' a' where g: "g x a = (r', a')" by fastforce
    obtain ms' where ms': "console a' = console a @ ms'" by (rule logsE [OF assms(3) g])
    obtain c m w where p: "print_lines E ms s = (Ret (), s\<lparr>writer := w, writer_lock := m, cpu := c\<rparr>)"
      using print_lines_ok [OF assms(1), of ms] by blast
    have "new_lines (ata s) a' = ms @ ms'" "new_lines (ata s) a = ms" "new_lines a a' = ms'" using ms ms' by (simp_all add: new_lines_def)
    then show ?thesis
      using f g Ret p by (simp add: on_ata_def io_bind_def print_lines_append print_lines_ata split: prod.split)
  qed (use f in \<open>simp_all add: on_ata_def io_bind_def split: prod.split outcome.split\<close>)
qed

end

section \<open>Handlers return and acknowledge\<close>

text \<open>Calls that return from every state.\<close>

definition returns :: "('s, 'x) io \<Rightarrow> bool" where
  "returns m \<longleftrightarrow> (\<forall>s. \<exists>x s'. m s = (Ret x, s'))"

lemma returns_basic:
  "returns (io_ret x)"
  "returns (io_gets g)"
  "returns (io_modify h)"
  by (simp_all add: returns_def)

lemma returns_bind: "returns m \<Longrightarrow> (\<And>x. returns (f x)) \<Longrightarrow> returns (io_bind m f)"
  unfolding returns_def io_bind_def by (metis (no_types, lifting) outcome.case(1) prod.case)

lemma returns_ports:
  "returns (in8 E port)"
  "returns (in16 E port)"
  "returns (out8 E port v)"
  "returns (out16 E port w)"
  "returns (log_msg m)"
  by (auto simp: returns_def in8_def in16_def out8_def out16_def log_msg_def split: prod.splits)

lemma returns_words: "returns (read_words E i n)" "returns (write_words E i n)"
  by (induction n arbitrary: i) (auto simp: Let_def intro!: returns_basic returns_ports returns_bind)

lemma ata_interrupt_returns: "returns (on_primary_ata_interrupt E)"
  unfolding on_primary_ata_interrupt_def wake_disk_def
  by (auto intro!: returns_basic returns_ports returns_words returns_bind)

text \<open>
  What an interrupt leaves as it is: the rest of the machine, whether the scancode queue exists, and
  what \<open>init\<close> set up for the disk.
\<close>

definition disk_kept :: "('p, 'r, 'a, 'w) ata_state \<Rightarrow> ('p, 'r, 'a, 'w) ata_state \<Rightarrow> bool" where
  "disk_kept a a' \<longleftrightarrow> DISK_REQUEST_QUEUE a' = DISK_REQUEST_QUEUE a \<and> (DISK_WAKER a = None \<longrightarrow> DISK_WAKER a' = None)"

definition kept :: "('c, 'm, 'q, 'k, 'w, 'p, 'r, 'a, 'i, 'z) kernel_state_scheme \<Rightarrow>
    ('c, 'm, 'q, 'k, 'w, 'p, 'r, 'a, 'i, 'z) kernel_state_scheme \<Rightarrow> bool" where
  "kept s s' \<longleftrightarrow> kernel_state.more s' = kernel_state.more s \<and> (SCANCODE_QUEUE s' = None \<longleftrightarrow> SCANCODE_QUEUE s = None) \<and>
     disk_kept (ata s) (ata s')"

lemma kept_trans: "kept s s1 \<Longrightarrow> kept s1 s2 \<Longrightarrow> kept s s2"
  by (simp add: kept_def disk_kept_def)

definition keeps :: "('p, 'r, 'a, 'w, 'x) ata_io \<Rightarrow> bool" where
  "keeps m \<longleftrightarrow> (\<forall>s. disk_kept s (snd (m s)))"

lemma keeps_basic: "keeps (io_ret x)" "keeps (io_gets g)" "(\<And>s. disk_kept s (h s)) \<Longrightarrow> keeps (io_modify h)"
  by (simp_all add: keeps_def disk_kept_def)

lemma keeps_bind: "keeps m \<Longrightarrow> (\<And>x. keeps (f x)) \<Longrightarrow> keeps (io_bind m f)"
  unfolding keeps_def io_bind_def disk_kept_def
  by (auto split: prod.splits outcome.splits) (metis snd_conv)+

lemma keeps_ports:
  "keeps (in8 E port)"
  "keeps (in16 E port)"
  "keeps (out8 E port v)"
  "keeps (out16 E port w)"
  "keeps (log_msg m)"
  by (auto simp: keeps_def disk_kept_def in8_def in16_def out8_def out16_def log_msg_def split: prod.splits)

lemma keeps_words: "keeps (read_words E i n)" "keeps (write_words E i n)"
  by (induction n arbitrary: i) (auto simp: Let_def disk_kept_def intro!: keeps_basic keeps_ports keeps_bind)

lemma keeps_ata_interrupt: "keeps (on_primary_ata_interrupt E)"
  unfolding on_primary_ata_interrupt_def wake_disk_def
  by (auto simp: disk_kept_def split: option.splits prod.splits intro!: keeps_basic keeps_ports keeps_words keeps_bind)

definition kernel_ready ::
  "('m \<Rightarrow> bool) \<Rightarrow> ('q \<Rightarrow> u8 list) \<Rightarrow> ('q \<Rightarrow> nat) \<Rightarrow> ('c, 'm, 'q, 'k, 'w, 'p, 'r, 'a, 'i, 'z) kernel_state_scheme \<Rightarrow> bool" where
  "kernel_ready held items cap s \<longleftrightarrow> vga_ready held s \<and> \<not> held (pics_lock s) \<and>
     (SCANCODE_QUEUE s = None \<or> kbd_ready held items cap s)"

lemma IDT_entries:
  "IDT (as_usize Timer) = Some \<lparr>entry_handler = TimerHandler, stack_index = None\<rparr>"
  "IDT (as_usize KeyboardIrq) = Some \<lparr>entry_handler = KeyboardHandler, stack_index = None\<rparr>"
  "IDT (as_usize PrimaryATA) = Some \<lparr>entry_handler = AtaHandler, stack_index = None\<rparr>"
  "IDT 3 = Some \<lparr>entry_handler = BreakpointHandler, stack_index = None\<rparr>"
  "IDT 14 = Some \<lparr>entry_handler = PageFaultHandler, stack_index = None\<rparr>"
  "IDT 8 = Some \<lparr>entry_handler = DoubleFaultHandler, stack_index = Some DOUBLE_FAULT_IST_INDEX\<rparr>"
  by (simp_all add: IDT_def set_handler_fn_def set_stack_index_def as_usize_def PIC_1_OFFSET_def)

locale kernel_sync = keyboard_sync "k_kbd K" held items cap registered
  for K :: "('c, 'm, 'q, 'k, 'w, 'p, 'r, 'a, 'i) kernel_env" and held :: "'m \<Rightarrow> bool"
    and items :: "'q \<Rightarrow> u8 list" and cap :: "'q \<Rightarrow> nat" and registered :: "'k \<Rightarrow> 'w option"
begin

lemma notify_ok:
  assumes "\<not> held (pics_lock s)"
  obtains m where "notify_end_of_interrupt K v s =
      (Ret (), s\<lparr>pics_lock := m, PICS := pics_end_of_interrupt (k_pic K) v (PICS s)\<rparr>)" and "\<not> held m"
proof -
  obtain m where "sm_lock (env_mutex (k_vga K)) (pics_lock s) = (Ret (), m)" using lock_law [OF assms] by blast
  then show ?thesis
    by (intro that [of "sm_unlock (env_mutex (k_vga K)) m"]) (simp_all add: notify_end_of_interrupt_def io_bind_def unlock_law)
qed

text \<open>What a handler that returns leaves unchanged, besides the fields it works on.\<close>

definition handler_post :: "u8 \<Rightarrow> ('c, 'm, 'q, 'k, 'w, 'p, 'r, 'a, 'i, 'z) kernel_state_scheme \<Rightarrow>
    ('c, 'm, 'q, 'k, 'w, 'p, 'r, 'a, 'i, 'z) kernel_state_scheme \<Rightarrow> bool" where
  "handler_post v s s' \<longleftrightarrow> kernel_ready held items cap s' \<and> PICS s' = pics_end_of_interrupt (k_pic K) v (PICS s) \<and> kept s s'"

lemma then_notify:
  assumes "m s = (Ret x, s1)" and "kernel_ready held items cap s1" and "PICS s1 = PICS s" and "kept s s1"
  shows "\<exists>s'. io_bind m (\<lambda>_. notify_end_of_interrupt K v) s = (Ret (), s') \<and> handler_post v s s'"
proof -
  have "\<not> held (pics_lock s1)" using assms(2) by (simp add: kernel_ready_def)
  then obtain m' where "notify_end_of_interrupt K v s1 =
      (Ret (), s1\<lparr>pics_lock := m', PICS := pics_end_of_interrupt (k_pic K) v (PICS s1)\<rparr>)" "\<not> held m'" by (rule notify_ok)
  then show ?thesis using assms
    by (auto simp: io_bind_def handler_post_def kernel_ready_def vga_ready_def kbd_ready_def kept_def)
qed

lemma timer_ok:
  assumes "kernel_ready held items cap s"
  shows "\<exists>s'. timer_interrupt_handler K s = (Ret (), s') \<and> handler_post (as_u8 Timer) s s'"
proof -
  have v: "vga_ready held s" using assms by (simp add: kernel_ready_def)
  obtain c m w where p: "print_args (k_vga K) (bytes ''.'') s = (Ret (), s\<lparr>writer := w, writer_lock := m, cpu := c\<rparr>)"
    "writer_ok w" "\<not> held m" by (rule print_args_ok [OF v])
  have "kernel_ready held items cap (s\<lparr>writer := w, writer_lock := m, cpu := c\<rparr>)"
    using assms p(2,3) by (auto simp: kernel_ready_def vga_ready_def kbd_ready_def)
  then show ?thesis unfolding timer_interrupt_handler_def by - (rule then_notify, rule p(1), simp_all add: kept_def disk_kept_def)
qed

lemma ata_ok:
  assumes "kernel_ready held items cap s"
  shows "\<exists>s'. ata_primary_interrupt_handler K s = (Ret (), s') \<and> handler_post (as_u8 PrimaryATA) s s'"
proof -
  obtain a where a: "on_primary_ata_interrupt (k_ata K) (ata s) = (Ret (), a)"
    using ata_interrupt_returns [of "k_ata K"] unfolding returns_def by auto
  have v: "vga_ready held s" using assms by (simp add: kernel_ready_def)
  obtain c m w where r: "on_ata (k_vga K) (on_primary_ata_interrupt (k_ata K)) s = (Ret (), s\<lparr>ata := a, writer := w, writer_lock := m, cpu := c\<rparr>)"
    "writer_ok w" "\<not> held m" by (rule on_ata_ok [of s "on_primary_ata_interrupt (k_ata K)", OF v a])
  have "kernel_ready held items cap (s\<lparr>ata := a, writer := w, writer_lock := m, cpu := c\<rparr>)"
    using assms r(2,3) by (auto simp: kernel_ready_def vga_ready_def kbd_ready_def)
  moreover have "disk_kept (ata s) a" using keeps_ata_interrupt [of "k_ata K"] a by (metis keeps_def snd_conv)
  ultimately show ?thesis unfolding ata_primary_interrupt_handler_def by - (rule then_notify, rule r(1), simp_all add: kept_def)
qed

end

context kernel_sync
begin

lemma add_scancode_returns:
  assumes "kernel_ready held items cap s"
  obtains s1 where "add_scancode (k_kbd K) sc s = (Ret (), s1)" and "kernel_ready held items cap s1" and "PICS s1 = PICS s"
    and "kept s s1"
proof (cases "SCANCODE_QUEUE s")
  case None
  have v: "vga_ready held s" using assms by (simp add: kernel_ready_def)
  obtain w m c where a: "add_scancode (k_kbd K) sc s = (Ret (), s\<lparr>writer := w, writer_lock := m, cpu := c\<rparr>)"
    "writer_ok w" "\<not> held m" by (rule add_scancode_uninit [OF v None])
  show ?thesis by (rule that [OF a(1)]) (use a assms None in \<open>simp_all add: kernel_ready_def vga_ready_def kept_def disk_kept_def\<close>)
next
  case (Some q0)
  then have r: "kbd_ready held items cap s" using assms by (simp add: kernel_ready_def)
  show ?thesis
  proof (cases "length (scancodes items s) < 100")
    case True
    obtain q k where a: "add_scancode (k_kbd K) sc s = (Ret (), s\<lparr>SCANCODE_QUEUE := Some q, KBD_WAKER := k,
        kbd_woken := kbd_woken s @ (case registered (KBD_WAKER s) of None \<Rightarrow> [] | Some w \<Rightarrow> [w])\<rparr>)"
      "items q = scancodes items s @ [sc]" "cap q = 100" by (rule add_scancode_ok [OF r True])
    show ?thesis by (rule that [OF a(1)]) (use a assms True Some in \<open>auto simp: kernel_ready_def kbd_ready_def vga_ready_def kept_def disk_kept_def\<close>)
  next
    case False
    obtain q w m c where a: "add_scancode (k_kbd K) sc s = (Ret (), s\<lparr>SCANCODE_QUEUE := Some q, writer := w, writer_lock := m, cpu := c\<rparr>)"
      "items q = scancodes items s" "cap q = 100" "writer_ok w" "\<not> held m" by (rule add_scancode_full [OF r False])
    have "length (scancodes items s) \<le> 100" using r by (auto simp: kbd_ready_def scancodes_def)
    then show ?thesis by (intro that [OF a(1)]) (use a assms Some in \<open>auto simp: kernel_ready_def kbd_ready_def vga_ready_def kept_def disk_kept_def\<close>)
  qed
qed

lemma keyboard_ok:
  assumes "kernel_ready held items cap s"
  shows "\<exists>s'. keyboard_interrupt_handler K s = (Ret (), s') \<and> handler_post (as_u8 KeyboardIrq) s s'"
proof -
  obtain sc a where in8: "in8 (k_ata K) 0x60 (ata s) = (Ret sc, a)" using returns_ports(1) unfolding returns_def by blast
  then have "console a = console (ata s)" by (auto simp: in8_def split: prod.splits)
  from on_ata_silent [of "in8 (k_ata K) 0x60", OF in8 this] have i: "on_ata (k_vga K) (in8 (k_ata K) 0x60) s = (Ret sc, s\<lparr>ata := a\<rparr>)" .
  have s0: "kept s (s\<lparr>ata := a\<rparr>)"
    using keeps_ports(1) [of "k_ata K" "0x60"] in8 by (simp add: kept_def keeps_def) (metis snd_conv)
  have "kernel_ready held items cap (s\<lparr>ata := a\<rparr>)"
    using assms by (auto simp: kernel_ready_def vga_ready_def kbd_ready_def)
  then obtain s1 where s1: "add_scancode (k_kbd K) sc (s\<lparr>ata := a\<rparr>) = (Ret (), s1)" "kernel_ready held items cap s1"
    "PICS s1 = PICS (s\<lparr>ata := a\<rparr>)" "kept (s\<lparr>ata := a\<rparr>) s1" by (rule add_scancode_returns)
  have "\<exists>s'. io_bind (add_scancode (k_kbd K) sc) (\<lambda>_. notify_end_of_interrupt K (as_u8 KeyboardIrq)) (s\<lparr>ata := a\<rparr>) = (Ret (), s') \<and>
      handler_post (as_u8 KeyboardIrq) (s\<lparr>ata := a\<rparr>) s'"
    by (rule then_notify, rule s1(1), rule s1(2), rule s1(3), rule s1(4))
  then show ?thesis using i kept_trans [OF s0] by (auto simp: keyboard_interrupt_handler_def io_bind_def [of "on_ata _ _"] handler_post_def)
qed

lemma interrupt_ok:
  assumes "kernel_ready held items cap s"
  shows "\<exists>s'. interrupt K info i s = (Ret (), s') \<and> handler_post (as_u8 i) s s' \<and> cpu s' = cpu s"
proof -
  let ?s = "s\<lparr>cpu := irq_disable (env_irq (k_vga K)) (cpu s)\<rparr>"
  have r: "kernel_ready held items cap ?s" using assms by (auto simp: kernel_ready_def vga_ready_def kbd_ready_def)
  obtain e where e: "IDT (as_usize i) = Some e" "\<exists>s1. run_handler K info (entry_handler e) ?s = (Ret (), s1) \<and> handler_post (as_u8 i) ?s s1"
    using timer_ok [OF r] keyboard_ok [OF r] ata_ok [OF r]
    by (cases i; cases info) (simp_all add: IDT_entries run_handler_def)
  then show ?thesis
    by (auto simp: interrupt_def handler_post_def kernel_ready_def vga_ready_def kbd_ready_def kept_def)
qed

text \<open>What a key press does when the queue has room: the scancode is queued and the waiting task is woken.\<close>

lemma keyboard_delivers:
  assumes "kernel_ready held items cap s" and "SCANCODE_QUEUE s \<noteq> None" and "length (scancodes items s) < 100"
    and "port_read8 (env_ports (k_ata K)) 0x60 (ports (ata s)) = (sc, p)"
  obtains s' q where "interrupt K info KeyboardIrq s = (Ret (), s')" and "SCANCODE_QUEUE s' = Some q" and "items q = scancodes items s @ [sc]"
    and "kbd_woken s' = kbd_woken s @ (case registered (KBD_WAKER s) of None \<Rightarrow> [] | Some w \<Rightarrow> [w])"
    and "ata s' = (ata s)\<lparr>ports := p\<rparr>" and "writer s' = writer s" and "kernel_state.more s' = kernel_state.more s" and "kernel_ready held items cap s'"
proof -
  let ?s = "s\<lparr>cpu := irq_disable (env_irq (k_vga K)) (cpu s), ata := (ata s)\<lparr>ports := p\<rparr>\<rparr>"
  have r: "kbd_ready held items cap ?s" "length (scancodes items ?s) < 100"
    using assms(1-3) by (auto simp: kernel_ready_def kbd_ready_def vga_ready_def scancodes_def)
  obtain q k where a: "add_scancode (k_kbd K) sc ?s = (Ret (), ?s\<lparr>SCANCODE_QUEUE := Some q, KBD_WAKER := k,
      kbd_woken := kbd_woken ?s @ (case registered (KBD_WAKER ?s) of None \<Rightarrow> [] | Some w \<Rightarrow> [w])\<rparr>)"
    "items q = scancodes items ?s @ [sc]" "cap q = 100" by (rule add_scancode_ok [OF r])
  let ?s1 = "?s\<lparr>SCANCODE_QUEUE := Some q, KBD_WAKER := k,
      kbd_woken := kbd_woken s @ (case registered (KBD_WAKER s) of None \<Rightarrow> [] | Some w \<Rightarrow> [w])\<rparr>"
  have "\<not> held (pics_lock ?s1)" using assms(1) by (simp add: kernel_ready_def)
  then obtain m where n: "notify_end_of_interrupt K (as_u8 KeyboardIrq) ?s1 =
      (Ret (), ?s1\<lparr>pics_lock := m, PICS := pics_end_of_interrupt (k_pic K) (as_u8 KeyboardIrq) (PICS ?s1)\<rparr>)" "\<not> held m"
    by (rule notify_ok)
  have "keyboard_interrupt_handler K (s\<lparr>cpu := irq_disable (env_irq (k_vga K)) (cpu s)\<rparr>) =
      (Ret (), ?s1\<lparr>pics_lock := m, PICS := pics_end_of_interrupt (k_pic K) (as_u8 KeyboardIrq) (PICS s)\<rparr>)"
    using a(1) n(1) assms(4) by (simp add: keyboard_interrupt_handler_def io_bind_def on_ata_def new_lines_def in8_def)
  then have "interrupt K info KeyboardIrq s =
      (Ret (), ?s1\<lparr>pics_lock := m, PICS := pics_end_of_interrupt (k_pic K) (as_u8 KeyboardIrq) (PICS s), cpu := cpu s\<rparr>)"
    by (simp add: interrupt_def IDT_entries run_handler_def split: prod.split)
  then show ?thesis
    by (rule that) (use a n(2) assms r in \<open>auto simp: kernel_ready_def kbd_ready_def vga_ready_def scancodes_def\<close>)
qed

end

section \<open>Properties\<close>



text \<open>A kernel on the reference instances, with a controller that records the vectors it is told of.\<close>

definition flag_kernel_env :: "(bool, bool, nat \<times> u8 list, nat option, nat, disk_ctl, nat \<times> DiskRequest list, nat option, u8 list) kernel_env" where
  "flag_kernel_env = \<lparr>k_kbd = flag_kbd_env, k_ata = ctl_env,
     k_pic = \<lparr>pics_new = (\<lambda>a b. []), pics_initialize = (\<lambda>i. i), pics_end_of_interrupt = (\<lambda>v i. i @ [v])\<rparr>\<rparr>"

definition flag_kernel_state :: "(bool, bool, nat \<times> u8 list, nat option, nat, disk_ctl, nat \<times> DiskRequest list, nat option, u8 list) kernel_state" where
  "flag_kernel_state = kbd_state.extend (flag_kbd_state []) (kernel_state.fields idle_start [] False)"

interpretation flag_kernel: kernel_sync flag_kernel_env "\<lambda>m. m" snd fst "\<lambda>k. k"
  unfolding kernel_sync_def flag_kernel_env_def kernel_env.select_convs by (rule flag_kbd_sync)

lemma flag_kernel_ready: "kernel_ready (\<lambda>m. m) snd fst flag_kernel_state"
  using flag_kbd_ready [of "[]"]
  by (simp add: kernel_ready_def kbd_ready_def vga_ready_def flag_kernel_state_def flag_kbd_state_def kbd_state.defs kernel_state.defs vga.defs)


end
