(* ===== verification/Kernel.thy ===== *)
theory Kernel
  imports Interrupts
begin

text \<open>
  \<open>src/lib.rs\<close> and \<open>src/serial.rs\<close>, with \<open>gdt::init\<close> and \<open>init_idt\<close>: bringing the machine up, the serial
  port, and the test harness that reports its verdict to QEMU. The state extends that of the kernel by
  the processor's tables and the serial port. The driver of the crate \<open>uart_16550\<close> and the descriptor
  table of \<open>x86_64\<close> are parameters, and so are the tests and the text of a \<open>PanicInfo\<close>.
\<close>

section \<open>State\<close>

record ('c, 'm, 'q, 'k, 'w, 'p, 'r, 'a, 'i, 'g, 'sel, 'u) machine = "('c, 'm, 'q, 'k, 'w, 'p, 'r, 'a, 'i) kernel_state" +
  gdtr :: "'g option"
  cs_reg :: "'sel option"
  task_reg :: "'sel option"
  idtr :: "(nat \<rightharpoonup> idt_entry) option"
  SERIAL1 :: "'u option"
  serial_lock :: 'm

record 'u uart_ops =
  uart_new :: "u16 \<Rightarrow> 'u"
  uart_init :: "'u \<Rightarrow> 'u"
  uart_write :: "u8 list \<Rightarrow> 'u \<Rightarrow> (unit, unit) result \<times> 'u"

record ('c, 'm, 'q, 'k, 'w, 'p, 'r, 'a, 'i, 'g, 'sel, 'u) machine_env =
  m_kernel :: "('c, 'm, 'q, 'k, 'w, 'p, 'r, 'a, 'i) kernel_env"
  m_gdt :: "('g, 'sel) gdt_ops"
  m_uart :: "'u uart_ops"
  m_stack :: u64

type_synonym ('c, 'm, 'q, 'k, 'w, 'p, 'r, 'a, 'i, 'g, 'sel, 'u, 'z, 'x) machine_io =
  "(('c, 'm, 'q, 'k, 'w, 'p, 'r, 'a, 'i, 'g, 'sel, 'u, 'z) machine_scheme, 'x) io"

abbreviation m_vga :: "('c, 'm, 'q, 'k, 'w, 'p, 'r, 'a, 'i, 'g, 'sel, 'u) machine_env \<Rightarrow> ('c, 'm) vga_env" where
  "m_vga M \<equiv> k_vga (m_kernel M)"

section \<open>Initialization\<close>

definition gdt_init ::
  "('c, 'm, 'q, 'k, 'w, 'p, 'r, 'a, 'i, 'g, 'sel, 'u) machine_env \<Rightarrow>
   ('c, 'm, 'q, 'k, 'w, 'p, 'r, 'a, 'i, 'g, 'sel, 'u, 'z, unit) machine_io" where
  "gdt_init M = (case GDT (m_gdt M) (m_stack M) of (gdt, selectors) \<Rightarrow>
     io_bind (io_modify (\<lambda>s. s\<lparr>gdtr := Some gdt\<rparr>)) (\<lambda>_.
     io_bind (io_modify (\<lambda>s. s\<lparr>cs_reg := Some (code_selector selectors)\<rparr>)) (\<lambda>_.
     io_modify (\<lambda>s. s\<lparr>task_reg := Some (tss_selector selectors)\<rparr>))))"

definition init_idt :: "('c, 'm, 'q, 'k, 'w, 'p, 'r, 'a, 'i, 'g, 'sel, 'u, 'z, unit) machine_io" where
  "init_idt = io_modify (\<lambda>s. s\<lparr>idtr := Some IDT\<rparr>)"

text \<open>\<open>PICS.lock().initialize()\<close>.\<close>

definition initialize_pics ::
  "('c, 'm, 'q, 'k, 'w, 'p, 'r, 'a, 'i, 'g, 'sel, 'u) machine_env \<Rightarrow>
   ('c, 'm, 'q, 'k, 'w, 'p, 'r, 'a, 'i, 'g, 'sel, 'u, 'z, unit) machine_io" where
  "initialize_pics M =
     io_bind (\<lambda>s. case sm_lock (env_mutex (m_vga M)) (pics_lock s) of (r, m) \<Rightarrow> (r, s\<lparr>pics_lock := m\<rparr>)) (\<lambda>_.
     io_bind (io_modify (\<lambda>s. s\<lparr>PICS := pics_initialize (k_pic (m_kernel M)) (PICS s)\<rparr>)) (\<lambda>_.
     io_modify (\<lambda>s. s\<lparr>pics_lock := sm_unlock (env_mutex (m_vga M)) (pics_lock s)\<rparr>)))"

definition kernel_init ::
  "('c, 'm, 'q, 'k, 'w, 'p, 'r, 'a, 'i, 'g, 'sel, 'u) machine_env \<Rightarrow>
   ('c, 'm, 'q, 'k, 'w, 'p, 'r, 'a, 'i, 'g, 'sel, 'u, 'z, unit) machine_io" where
  "kernel_init M =
     io_bind (gdt_init M) (\<lambda>_.
     io_bind init_idt (\<lambda>_.
     io_bind (initialize_pics M) (\<lambda>_.
     io_modify (\<lambda>s. s\<lparr>cpu := irq_enable (env_irq (m_vga M)) (cpu s)\<rparr>))))"

section \<open>The serial port\<close>

text \<open>The first use of the static creates and initializes the port.\<close>

definition serial_port :: "'u uart_ops \<Rightarrow> 'u option \<Rightarrow> 'u" where
  "serial_port U port = (case port of Some u \<Rightarrow> u | None \<Rightarrow> uart_init U (uart_new U 0x3F8))"

definition lock_serial ::
  "('c, 'm, 'q, 'k, 'w, 'p, 'r, 'a, 'i, 'g, 'sel, 'u) machine_env \<Rightarrow>
   ('c, 'm, 'q, 'k, 'w, 'p, 'r, 'a, 'i, 'g, 'sel, 'u, 'z, unit) machine_io" where
  "lock_serial M s =
     (case sm_lock (env_mutex (m_vga M)) (serial_lock s) of (r, m) \<Rightarrow>
        (r, s\<lparr>SERIAL1 := Some (serial_port (m_uart M) (SERIAL1 s)), serial_lock := m\<rparr>))"

definition serial_write ::
  "('c, 'm, 'q, 'k, 'w, 'p, 'r, 'a, 'i, 'g, 'sel, 'u) machine_env \<Rightarrow> u8 list \<Rightarrow>
   ('c, 'm, 'q, 'k, 'w, 'p, 'r, 'a, 'i, 'g, 'sel, 'u, 'z, unit) machine_io" where
  "serial_write M args s =
     (case uart_write (m_uart M) args (serial_port (m_uart M) (SERIAL1 s)) of
        (Ok _, u) \<Rightarrow> (Ret (), s\<lparr>SERIAL1 := Some u\<rparr>)
      | (Err _, u) \<Rightarrow> (Panic ''Printing to serial failed'', s\<lparr>SERIAL1 := Some u\<rparr>))"

definition serial_print ::
  "('c, 'm, 'q, 'k, 'w, 'p, 'r, 'a, 'i, 'g, 'sel, 'u) machine_env \<Rightarrow> u8 list \<Rightarrow>
   ('c, 'm, 'q, 'k, 'w, 'p, 'r, 'a, 'i, 'g, 'sel, 'u, 'z, unit) machine_io" where
  "serial_print M args =
     io_bind (enter_section (m_vga M)) (\<lambda>saved.
     io_bind (lock_serial M) (\<lambda>_.
     io_bind (serial_write M args) (\<lambda>_.
     io_bind (io_modify (\<lambda>s. s\<lparr>serial_lock := sm_unlock (env_mutex (m_vga M)) (serial_lock s)\<rparr>)) (\<lambda>_.
     leave_section (m_vga M) saved))))"

definition serial_println ::
  "('c, 'm, 'q, 'k, 'w, 'p, 'r, 'a, 'i, 'g, 'sel, 'u) machine_env \<Rightarrow> u8 list \<Rightarrow>
   ('c, 'm, 'q, 'k, 'w, 'p, 'r, 'a, 'i, 'g, 'sel, 'u, 'z, unit) machine_io" where
  "serial_println M args = serial_print M (args @ [0x0A])"

section \<open>The test harness\<close>

datatype QemuExitCode = Success | Failed

fun exit_code_u32 :: "QemuExitCode \<Rightarrow> u32" where
  "exit_code_u32 Success = 0x10"
| "exit_code_u32 Failed = 0x11"

definition exit_qemu ::
  "('c, 'm, 'q, 'k, 'w, 'p, 'r, 'a, 'i, 'g, 'sel, 'u) machine_env \<Rightarrow> QemuExitCode \<Rightarrow>
   ('c, 'm, 'q, 'k, 'w, 'p, 'r, 'a, 'i, 'g, 'sel, 'u, 'z, unit) machine_io" where
  "exit_qemu M exit_code = io_modify (\<lambda>s. s\<lparr>ata := (ata s)\<lparr>ports :=
     port_write32 (env_ports (k_ata (m_kernel M))) 0xf4 (exit_code_u32 exit_code) (ports (ata s))\<rparr>\<rparr>)"

text \<open>A test is a function with the name of its type.\<close>

type_synonym ('s) test = "u8 list \<times> ('s, unit) io"

definition test_run ::
  "('c, 'm, 'q, 'k, 'w, 'p, 'r, 'a, 'i, 'g, 'sel, 'u) machine_env \<Rightarrow>
   ('c, 'm, 'q, 'k, 'w, 'p, 'r, 'a, 'i, 'g, 'sel, 'u, 'z) machine_scheme test \<Rightarrow>
   ('c, 'm, 'q, 'k, 'w, 'p, 'r, 'a, 'i, 'g, 'sel, 'u, 'z, unit) machine_io" where
  "test_run M test =
     io_bind (serial_print M (fst test @ bytes ''...'' @ [0x09])) (\<lambda>_.
     io_bind (snd test) (\<lambda>_.
     serial_println M (bytes ''[ok]'')))"

fun run_tests ::
  "('c, 'm, 'q, 'k, 'w, 'p, 'r, 'a, 'i, 'g, 'sel, 'u) machine_env \<Rightarrow>
   ('c, 'm, 'q, 'k, 'w, 'p, 'r, 'a, 'i, 'g, 'sel, 'u, 'z) machine_scheme test list \<Rightarrow>
   ('c, 'm, 'q, 'k, 'w, 'p, 'r, 'a, 'i, 'g, 'sel, 'u, 'z, unit) machine_io" where
  "run_tests M [] = io_ret ()"
| "run_tests M (test # tests) = io_bind (test_run M test) (\<lambda>_. run_tests M tests)"

definition test_runner ::
  "('c, 'm, 'q, 'k, 'w, 'p, 'r, 'a, 'i, 'g, 'sel, 'u) machine_env \<Rightarrow>
   ('c, 'm, 'q, 'k, 'w, 'p, 'r, 'a, 'i, 'g, 'sel, 'u, 'z) machine_scheme test list \<Rightarrow>
   ('c, 'm, 'q, 'k, 'w, 'p, 'r, 'a, 'i, 'g, 'sel, 'u, 'z, unit) machine_io" where
  "test_runner M tests =
     io_bind (serial_println M (bytes ''Running '' @ show_dec (length tests) @ bytes '' tests'')) (\<lambda>_.
     io_bind (run_tests M tests) (\<lambda>_.
     exit_qemu M Success))"

definition test_panic_handler ::
  "('c, 'm, 'q, 'k, 'w, 'p, 'r, 'a, 'i, 'g, 'sel, 'u) machine_env \<Rightarrow> u8 list \<Rightarrow>
   ('c, 'm, 'q, 'k, 'w, 'p, 'r, 'a, 'i, 'g, 'sel, 'u, 'z, unit) machine_io" where
  "test_panic_handler M info =
     io_bind (serial_println M (bytes ''[failed]'' @ [0x0A])) (\<lambda>_.
     io_bind (serial_println M (bytes ''Error: '' @ info @ [0x0A])) (\<lambda>_.
     io_bind (exit_qemu M Failed) (\<lambda>_.
     hlt_loop)))"

definition test_kernel_main ::
  "('c, 'm, 'q, 'k, 'w, 'p, 'r, 'a, 'i, 'g, 'sel, 'u) machine_env \<Rightarrow>
   ('c, 'm, 'q, 'k, 'w, 'p, 'r, 'a, 'i, 'g, 'sel, 'u, 'z) machine_scheme test list \<Rightarrow>
   ('c, 'm, 'q, 'k, 'w, 'p, 'r, 'a, 'i, 'g, 'sel, 'u, 'z, unit) machine_io" where
  "test_kernel_main M tests =
     io_bind (kernel_init M) (\<lambda>_.
     io_bind (test_runner M tests) (\<lambda>_.
     hlt_loop))"

text \<open>A panic runs the panic handler, here with the text \<open>info\<close> makes of its message; nothing is unwound.\<close>

definition on_panic :: "(string \<Rightarrow> ('s, 'x) io) \<Rightarrow> ('s, 'x) io \<Rightarrow> ('s, 'x) io" where
  "on_panic handler m s = (case m s of (Panic e, s') \<Rightarrow> handler e s' | r \<Rightarrow> r)"

section \<open>What the harness reports\<close>

definition transcript ::
  "'u uart_ops \<Rightarrow> ('u \<Rightarrow> u8 list) \<Rightarrow> ('c, 'm, 'q, 'k, 'w, 'p, 'r, 'a, 'i, 'g, 'sel, 'u, 'z) machine_scheme \<Rightarrow> u8 list" where
  "transcript U sent s = sent (serial_port U (SERIAL1 s))"

text \<open>
  Between two calls no lock is held, the screen is well-formed, and QEMU has not been told to exit;
  the tests run after \<open>init\<close>, with the interrupt table loaded.
\<close>

definition harness_ready ::
  "('m \<Rightarrow> bool) \<Rightarrow> ('p \<Rightarrow> u32 option) \<Rightarrow> ('c, 'm, 'q, 'k, 'w, 'p, 'r, 'a, 'i, 'g, 'sel, 'u, 'z) machine_scheme \<Rightarrow> bool" where
  "harness_ready held status s \<longleftrightarrow> vga_ready held s \<and> \<not> held (serial_lock s) \<and> \<not> held (pics_lock s) \<and> status (ports (ata s)) = None"

definition test_ready ::
  "('m \<Rightarrow> bool) \<Rightarrow> ('p \<Rightarrow> u32 option) \<Rightarrow> ('c, 'm, 'q, 'k, 'w, 'p, 'r, 'a, 'i, 'g, 'sel, 'u, 'z) machine_scheme \<Rightarrow> bool" where
  "test_ready held status s \<longleftrightarrow> harness_ready held status s \<and> idtr s = Some IDT"

text \<open>
  A test as the harness sees it: its name, how it ends, and what it writes to the serial port. It
  neither keeps a lock nor leaves QEMU.
\<close>

type_synonym test_spec = "u8 list \<times> unit outcome \<times> u8 list"

definition test_behaves ::
  "'u uart_ops \<Rightarrow> ('u \<Rightarrow> u8 list) \<Rightarrow> ('m \<Rightarrow> bool) \<Rightarrow> ('p \<Rightarrow> u32 option) \<Rightarrow>
   ('c, 'm, 'q, 'k, 'w, 'p, 'r, 'a, 'i, 'g, 'sel, 'u, 'z) machine_scheme test \<Rightarrow> test_spec \<Rightarrow> bool" where
  "test_behaves U sent held status t spec \<longleftrightarrow> (case spec of (name, out, said) \<Rightarrow>
     fst t = name \<and> (\<forall>s. test_ready held status s \<longrightarrow>
       fst (snd t s) = out \<and> test_ready held status (snd (snd t s)) \<and>
       transcript U sent (snd (snd t s)) = transcript U sent s @ said))"

fun verdict :: "test_spec list \<Rightarrow> u32 option" where
  "verdict [] = Some 0x10"
| "verdict ((name, out, said) # specs) = (case out of Ret _ \<Rightarrow> verdict specs | Panic e \<Rightarrow> Some 0x11 | Hang \<Rightarrow> None)"

fun report :: "(string \<Rightarrow> u8 list) \<Rightarrow> test_spec list \<Rightarrow> u8 list" where
  "report info [] = []"
| "report info ((name, out, said) # specs) =
     name @ bytes ''...'' @ [0x09] @ said @ (case out of
       Ret _ \<Rightarrow> bytes ''[ok]'' @ [0x0A] @ report info specs
     | Panic e \<Rightarrow> bytes ''[failed]'' @ [0x0A, 0x0A] @ bytes ''Error: '' @ info e @ [0x0A, 0x0A]
     | Hang \<Rightarrow> [])"

lemma kernel_init_ok:
  assumes "vga_sync (m_vga M) held" and "\<not> held (pics_lock s)"
  shows "\<exists>gdt sel m c. kernel_init M s = (Ret (), s\<lparr>gdtr := Some gdt, cs_reg := Some (code_selector sel),
      task_reg := Some (tss_selector sel), idtr := Some IDT, PICS := pics_initialize (k_pic (m_kernel M)) (PICS s), pics_lock := m, cpu := c\<rparr>) \<and>
    GDT (m_gdt M) (m_stack M) = (gdt, sel) \<and> are_enabled (env_irq (m_vga M)) c \<and> \<not> held m"
proof -
  have sync: "irq_spec (env_irq (m_vga M))" "spin_spec (env_mutex (m_vga M)) held" using assms(1) by (simp_all add: vga_sync_def)
  obtain m where "sm_lock (env_mutex (m_vga M)) (pics_lock s) = (Ret (), m)" using spin_spec.lock_law [OF sync(2) assms(2)] by blast
  moreover obtain gdt sel where "GDT (m_gdt M) (m_stack M) = (gdt, sel)" by fastforce
  ultimately show ?thesis
    using irq_spec.enable_law [OF sync(1)] spin_spec.unlock_law [OF sync(2)]
    by (auto simp: kernel_init_def gdt_init_def init_idt_def initialize_pics_def io_bind_def)
qed

locale harness = vga_sync "m_vga M" held
  for M :: "('c, 'm, 'q, 'k, 'w, 'p, 'r, 'a, 'i, 'g, 'sel, 'u) machine_env" and held :: "'m \<Rightarrow> bool" +
  fixes sent :: "'u \<Rightarrow> u8 list" and status :: "'p \<Rightarrow> u32 option"
  assumes uart_law: "\<exists>u'. uart_write (m_uart M) bs u = (Ok (), u') \<and> sent u' = sent u @ bs"
    and exit_law: "status p = None \<Longrightarrow> status (port_write32 (env_ports (k_ata (m_kernel M))) 0xf4 v p) = Some v"
begin

lemma serial_print_ok:
  assumes "test_ready held status s"
  shows "\<exists>s'. serial_print M args s = (Ret (), s') \<and> test_ready held status s' \<and>
    transcript (m_uart M) sent s' = transcript (m_uart M) sent s @ args"
proof -
  obtain m where m: "sm_lock (env_mutex (m_vga M)) (serial_lock s) = (Ret (), m)"
    using lock_law assms by (auto simp: test_ready_def harness_ready_def vga_ready_def)
  obtain b c where e: "wi_enter (env_irq (m_vga M)) (cpu s) = (b, c)" by fastforce
  obtain u where u: "uart_write (m_uart M) args (serial_port (m_uart M) (SERIAL1 s)) = (Ok (), u)"
    "sent u = sent (serial_port (m_uart M) (SERIAL1 s)) @ args" using uart_law by blast
  have "serial_port (m_uart M) (Some x) = x" for x by (simp add: serial_port_def)
  then show ?thesis
    using m e u assms unlock_law
    by (simp add: serial_print_def io_bind_def enter_section_def lock_serial_def serial_write_def leave_section_def
      test_ready_def harness_ready_def vga_ready_def transcript_def)
qed

lemma serial_print_run:
  assumes "test_ready held status s"
  obtains s' where "serial_print M args s = (Ret (), s')" and "test_ready held status s'"
    and "transcript (m_uart M) sent s' = transcript (m_uart M) sent s @ args"
  using serial_print_ok [OF assms] by blast

lemma test_run_ok:
  assumes "test_ready held status s" and "test_behaves (m_uart M) sent held status t (name, out, said)"
  shows "\<exists>s'. test_run M t s = (out, s') \<and> test_ready held status s' \<and>
    transcript (m_uart M) sent s' = transcript (m_uart M) sent s @ name @ bytes ''...'' @ [0x09] @ said @
      (if out = Ret () then bytes ''[ok]'' @ [0x0A] else [])"
proof -
  have b: "fst t = name" "test_ready held status s \<Longrightarrow> fst (snd t s) = out" "test_ready held status s \<Longrightarrow> test_ready held status (snd (snd t s))"
    "test_ready held status s \<Longrightarrow> transcript (m_uart M) sent (snd (snd t s)) = transcript (m_uart M) sent s @ said" for s
    using assms(2) by (simp_all add: test_behaves_def)
  obtain s1 where s1: "serial_print M (name @ bytes ''...'' @ [0x09]) s = (Ret (), s1)" "test_ready held status s1"
    "transcript (m_uart M) sent s1 = transcript (m_uart M) sent s @ name @ bytes ''...'' @ [0x09]"
    by (rule serial_print_run [OF assms(1)])
  obtain s2 where s2: "snd t s1 = (out, s2)" "test_ready held status s2" "transcript (m_uart M) sent s2 = transcript (m_uart M) sent s1 @ said"
    using b(2-4) [OF s1(2)] by (cases "snd t s1") simp
  obtain s3 where s3: "serial_print M (bytes ''[ok]'' @ [0x0A]) s2 = (Ret (), s3)" "test_ready held status s3"
    "transcript (m_uart M) sent s3 = transcript (m_uart M) sent s2 @ bytes ''[ok]'' @ [0x0A]"
    by (rule serial_print_run [OF s2(2)])
  show ?thesis
    using s1 s2 s3 b(1) by (cases out) (simp_all add: test_run_def serial_println_def io_bind_def)
qed

end

lemma on_panic_bind:
  "on_panic h (io_bind m k) s = (case m s of (Ret x, s') \<Rightarrow> on_panic h (k x) s' | (Panic e, s') \<Rightarrow> h e s' | (Hang, s') \<Rightarrow> (Hang, s'))"
  by (simp add: on_panic_def io_bind_def split: prod.splits outcome.splits)

lemma io_bind_assoc: "io_bind (io_bind m f) g = io_bind m (\<lambda>x. io_bind (f x) g)"
  by (rule ext) (simp add: io_bind_def split: prod.splits outcome.splits)

context harness
begin

lemma exit_ok:
  assumes "test_ready held status s"
  shows "\<exists>s'. exit_qemu M code s = (Ret (), s') \<and> status (ports (ata s')) = Some (exit_code_u32 code) \<and>
    transcript (m_uart M) sent s' = transcript (m_uart M) sent s"
  using assms exit_law by (simp add: exit_qemu_def test_ready_def harness_ready_def vga_ready_def transcript_def)

lemma panic_handler_ok:
  assumes "test_ready held status s"
  shows "\<exists>s'. test_panic_handler M info s = (Hang, s') \<and> status (ports (ata s')) = Some 0x11 \<and>
    transcript (m_uart M) sent s' = transcript (m_uart M) sent s @ bytes ''[failed]'' @ [0x0A, 0x0A] @ bytes ''Error: '' @ info @ [0x0A, 0x0A]"
proof -
  obtain s1 where s1: "serial_print M (bytes ''[failed]'' @ [0x0A, 0x0A]) s = (Ret (), s1)" "test_ready held status s1"
    "transcript (m_uart M) sent s1 = transcript (m_uart M) sent s @ bytes ''[failed]'' @ [0x0A, 0x0A]"
    by (rule serial_print_run [OF assms])
  obtain s2 where s2: "serial_print M (bytes ''Error: '' @ info @ [0x0A, 0x0A]) s1 = (Ret (), s2)" "test_ready held status s2"
    "transcript (m_uart M) sent s2 = transcript (m_uart M) sent s1 @ bytes ''Error: '' @ info @ [0x0A, 0x0A]"
    by (rule serial_print_run [OF s1(2)])
  show ?thesis
    using s1 s2 exit_ok [OF s2(2), of Failed]
    by (auto simp: test_panic_handler_def serial_println_def io_bind_def hlt_loop_def)
qed

lemma tests_reported:
  assumes "test_ready held status s" and "list_all2 (test_behaves (m_uart M) sent held status) tests specs"
  shows "\<exists>s'. on_panic (\<lambda>e. test_panic_handler M (info e))
      (io_bind (run_tests M tests) (\<lambda>_. io_bind (exit_qemu M Success) (\<lambda>_. hlt_loop))) s = (Hang, s') \<and>
    status (ports (ata s')) = verdict specs \<and> transcript (m_uart M) sent s' = transcript (m_uart M) sent s @ report info specs"
  using assms
proof (induction specs arbitrary: tests s)
  case Nil
  then show ?case using exit_ok [OF Nil.prems(1), of Success] by (auto simp: on_panic_bind) (auto simp: on_panic_def io_bind_def hlt_loop_def)
next
  case (Cons spec specs)
  obtain name out said where spec: "spec = (name, out, said)" by (cases spec)
  obtain t ts where t: "tests = t # ts" "test_behaves (m_uart M) sent held status t (name, out, said)"
    "list_all2 (test_behaves (m_uart M) sent held status) ts specs"
    using Cons.prems(2) spec by (auto simp: list_all2_Cons2)
  obtain s1 where s1: "test_run M t s = (out, s1)" "test_ready held status s1"
    "transcript (m_uart M) sent s1 = transcript (m_uart M) sent s @ name @ bytes ''...'' @ [0x09] @ said @
      (if out = Ret () then bytes ''[ok]'' @ [0x0A] else [])"
    using test_run_ok [OF Cons.prems(1) t(2)] by blast
  have "status (ports (ata s1)) = None" using s1(2) by (simp add: test_ready_def harness_ready_def vga_ready_def)
  then show ?case
    using s1 spec t(1) Cons.IH [OF s1(2) t(3)] panic_handler_ok [OF s1(2)]
    by (cases out) (auto simp: io_bind_assoc on_panic_bind)
qed

end

lemma harness_reported:
  assumes "harness M held sent status" and "harness_ready held status s"
    and "list_all2 (test_behaves (m_uart M) sent held status) tests specs"
  shows "\<exists>s'. on_panic (\<lambda>e. test_panic_handler M (info e)) (test_kernel_main M tests) s = (Hang, s') \<and>
    status (ports (ata s')) = verdict specs \<and>
    transcript (m_uart M) sent s' = transcript (m_uart M) sent s @
      bytes ''Running '' @ show_dec (length specs) @ bytes '' tests'' @ [0x0A] @ report info specs"
proof -
  obtain s1 where s1: "kernel_init M s = (Ret (), s1)" "test_ready held status s1"
    "transcript (m_uart M) sent s1 = transcript (m_uart M) sent s"
    using kernel_init_ok [OF harness.axioms(1) [OF assms(1)], of s] assms(2) by (auto simp: harness_ready_def test_ready_def vga_ready_def transcript_def)
  obtain s2 where s2: "serial_println M (bytes ''Running '' @ show_dec (length tests) @ bytes '' tests'') s1 = (Ret (), s2)"
    "test_ready held status s2" "transcript (m_uart M) sent s2 = transcript (m_uart M) sent s1 @
      bytes ''Running '' @ show_dec (length tests) @ bytes '' tests'' @ [0x0A]"
    using harness.serial_print_ok [OF assms(1) s1(2), of "bytes ''Running '' @ show_dec (length tests) @ bytes '' tests'' @ [0x0A]"]
    by (auto simp: serial_println_def)
  show ?thesis
    using s1(1,3) s2 harness.tests_reported [OF assms(1) s2(2) assms(3), of info] list_all2_lengthD [OF assms(3)]
    by (auto simp: test_kernel_main_def test_runner_def io_bind_assoc on_panic_bind)
qed

section \<open>Properties\<close>

text \<open>
  C19. The test harness reports what the tests do: the value QEMU is asked to exit with is the success
  code exactly when every test returned, the failure code when the first test that does not return
  panics, and none when it never ends; and the serial port received the count of tests, each name with
  its mark, and the message of the panic.
\<close>

theorem harness_reports:
  assumes "harness M held sent status" and "harness_ready held status s"
    and "list_all2 (test_behaves (m_uart M) sent held status) tests specs"
  shows "\<exists>s'. on_panic (\<lambda>e. test_panic_handler M (info e)) (test_kernel_main M tests) s = (Hang, s') \<and>
    status (ports (ata s')) = verdict specs \<and>
    transcript (m_uart M) sent s' = transcript (m_uart M) sent s @
      bytes ''Running '' @ show_dec (length specs) @ bytes '' tests'' @ [0x0A] @ report info specs"
  by (rule harness_reported [OF assms])

text \<open>A board with the reference drive, a debug exit device, and a serial port that keeps what was sent.\<close>

definition board_ports :: "(disk_ctl \<times> u32 option) port_ops" where
  "board_ports =
     \<lparr>port_read8 = (\<lambda>a (d, x). case port_read8 ctl_ports a d of (v, d') \<Rightarrow> (v, (d', x))),
      port_write8 = (\<lambda>a v (d, x). (port_write8 ctl_ports a v d, x)),
      port_read16 = (\<lambda>a (d, x). case port_read16 ctl_ports a d of (v, d') \<Rightarrow> (v, (d', x))),
      port_write16 = (\<lambda>a v (d, x). (port_write16 ctl_ports a v d, x)),
      port_write32 = (\<lambda>a v (d, x). (port_write32 ctl_ports a v d, if a = 0xf4 \<and> x = None then Some v else x))\<rparr>"

definition log_uart :: "u8 list uart_ops" where
  "log_uart = \<lparr>uart_new = (\<lambda>_. []), uart_init = (\<lambda>u. u), uart_write = (\<lambda>bs u. (Ok (), u @ bs))\<rparr>"

definition list_gdt :: "(Descriptor list, nat) gdt_ops" where
  "list_gdt = \<lparr>gdt_new = [], gdt_add_entry = (\<lambda>d g. (8 * Suc (length g), g @ [d]))\<rparr>"

definition board_env ::
  "(bool, bool, nat \<times> u8 list, 'w option, 'w, disk_ctl \<times> u32 option, nat \<times> DiskRequest list, 'w option, u8 list, Descriptor list, nat, u8 list) machine_env" where
  "board_env = \<lparr>m_kernel = \<lparr>k_kbd = \<lparr>kb_vga = \<lparr>env_irq = flag_irq, env_mutex = flag_mutex\<rparr>, kb_queue = list_queue, kb_waker = option_waker\<rparr>,
       k_ata = \<lparr>env_ports = board_ports, env_queue = list_queue, env_waker = option_waker\<rparr>,
       k_pic = \<lparr>pics_new = (\<lambda>a b. []), pics_initialize = (\<lambda>i. i), pics_end_of_interrupt = (\<lambda>v i. i @ [v])\<rparr>\<rparr>,
     m_gdt = list_gdt, m_uart = log_uart, m_stack = 0x200000\<rparr>"

definition board_state ::
  "(bool, bool, nat \<times> u8 list, 'w option, 'w, disk_ctl \<times> u32 option, nat \<times> DiskRequest list, 'w option, u8 list, Descriptor list, nat, u8 list) machine" where
  "board_state = \<lparr>writer = WRITER blank_screen, writer_lock = False, cpu = False,
      SCANCODE_QUEUE = None, KBD_WAKER = None, kbd_woken = [],
      ata = ata_start (blank_drive, None), PICS = [], pics_lock = False, gdtr = None, cs_reg = None, task_reg = None, idtr = None,
      SERIAL1 = None, serial_lock = False\<rparr>"

interpretation board: harness board_env "\<lambda>m. m" "\<lambda>u. u" snd
proof -
  have "vga_sync (m_vga board_env) (\<lambda>m. m)" using flag_sync.vga_sync_axioms by (simp add: board_env_def)
  moreover have "harness_axioms board_env (\<lambda>u. u) snd"
    by unfold_locales (auto simp: board_env_def log_uart_def board_ports_def)
  ultimately show "harness board_env (\<lambda>m. m) (\<lambda>u. u) snd" by (rule harness.intro)
qed

lemma board_state_ready: "harness_ready (\<lambda>m. m) snd board_state"
  using blank_screen_ok by (simp add: harness_ready_def vga_ready_def board_state_def ata_start_def)

theorem harness_reports_witness:
  "\<exists>s'. on_panic (\<lambda>e. test_panic_handler board_env (bytes e))
      (test_kernel_main board_env [(bytes ''first'', io_ret ()), (bytes ''second'', io_panic ''boom'')]) (board_state :: (_, _, _, nat option, _, _, _, _, _, _, _, _) machine) = (Hang, s') \<and>
    snd (ports (ata s')) = Some 0x11 \<and>
    transcript (m_uart board_env) (\<lambda>u. u) s' = bytes ''Running 2 tests'' @ [0x0A] @ bytes ''first...'' @ [0x09] @ bytes ''[ok]'' @ [0x0A] @
      bytes ''second...'' @ [0x09] @ bytes ''[failed]'' @ [0x0A, 0x0A] @ bytes ''Error: boom'' @ [0x0A, 0x0A]"
proof -
  let ?specs = "[(bytes ''first'', Ret (), []), (bytes ''second'', Panic ''boom'', [])] :: test_spec list"
  have "list_all2 (test_behaves (m_uart board_env) (\<lambda>u. u) (\<lambda>m. m) snd)
      [(bytes ''first'', io_ret ()), (bytes ''second'', io_panic ''boom'')] ?specs"
    by (simp add: test_behaves_def)
  from harness_reports [OF board.harness_axioms board_state_ready this, of bytes] show ?thesis
    by (simp add: bytes_def transcript_def board_state_def board_env_def log_uart_def serial_port_def show_dec.simps)
qed

end
