(* ===== verification/Self_Tests.thy ===== *)
theory Self_Tests
  imports Kernel
begin

text \<open>
  The tests inside the library, the \<open>test_case\<close> functions of \<open>src/vga_buffer.rs\<close> and \<open>src/interrupts.rs\<close>,
  run by the harness of \<open>src/lib.rs\<close>.
\<close>

section \<open>The tests\<close>

definition test_println_simple ::
  "('c, 'm, 'q, 'k, 'w, 'p, 'r, 'a, 'i, 'g, 'sel, 'u) machine_env \<Rightarrow>
   ('c, 'm, 'q, 'k, 'w, 'p, 'r, 'a, 'i, 'g, 'sel, 'u, 'z, unit) machine_io" where
  "test_println_simple M = println_args (m_vga M) (bytes ''test_println_simple output'')"

fun println_times ::
  "('c, 'm, 'q, 'k, 'w, 'p, 'r, 'a, 'i, 'g, 'sel, 'u) machine_env \<Rightarrow> nat \<Rightarrow> u8 list \<Rightarrow>
   ('c, 'm, 'q, 'k, 'w, 'p, 'r, 'a, 'i, 'g, 'sel, 'u, 'z, unit) machine_io" where
  "println_times M 0 args = io_ret ()"
| "println_times M (Suc n) args = io_bind (println_args (m_vga M) args) (\<lambda>_. println_times M n args)"

definition test_println_many ::
  "('c, 'm, 'q, 'k, 'w, 'p, 'r, 'a, 'i, 'g, 'sel, 'u) machine_env \<Rightarrow>
   ('c, 'm, 'q, 'k, 'w, 'p, 'r, 'a, 'i, 'g, 'sel, 'u, 'z, unit) machine_io" where
  "test_println_many M = println_times M 200 (bytes ''test_println_many output'')"

text \<open>The loop that compares the row above the cursor with the characters from column \<open>i\<close> on.\<close>

fun assert_row :: "Buffer \<Rightarrow> nat \<Rightarrow> u8 list \<Rightarrow> unit outcome" where
  "assert_row b i [] = Ret ()"
| "assert_row b i (c # cs) =
     obind (read_cell b (BUFFER_HEIGHT - 2) i) (\<lambda>screen_char.
     if ascii_char screen_char = c then assert_row b (Suc i) cs
     else Panic ''assertion `left == right` failed'')"

definition test_string :: "u8 list" where
  "test_string = bytes ''Some test string that fits on a single line''"

definition test_println_output ::
  "('c, 'm, 'q, 'k, 'w, 'p, 'r, 'a, 'i, 'g, 'sel, 'u) machine_env \<Rightarrow>
   ('c, 'm, 'q, 'k, 'w, 'p, 'r, 'a, 'i, 'g, 'sel, 'u, 'z, unit) machine_io" where
  "test_println_output M =
     io_bind (enter_section (m_vga M)) (\<lambda>saved.
     io_bind (lock_writer (m_vga M)) (\<lambda>_.
     io_bind (write_fmt ([0x0A] @ test_string @ [0x0A])) (\<lambda>_.
     io_bind (\<lambda>s. (assert_row (buffer (writer s)) 0 test_string, s)) (\<lambda>_.
     io_bind (unlock_writer (m_vga M)) (\<lambda>_.
     leave_section (m_vga M) saved)))))"

text \<open>
  \<open>int3\<close>: the processor runs the handler that the loaded table has for vector 3, behind an interrupt
  gate. Without a table or an entry the processor cannot go on.
\<close>

definition test_breakpoint_exception ::
  "('c, 'm, 'q, 'k, 'w, 'p, 'r, 'a, 'i, 'g, 'sel, 'u) machine_env \<Rightarrow> u8 list \<times> u8 list \<times> u8 list \<Rightarrow>
   ('c, 'm, 'q, 'k, 'w, 'p, 'r, 'a, 'i, 'g, 'sel, 'u, 'z, unit) machine_io" where
  "test_breakpoint_exception M info s =
     (case idtr s of
        None \<Rightarrow> (Hang, s)
      | Some idt \<Rightarrow> (case idt 3 of
          None \<Rightarrow> (Hang, s)
        | Some e \<Rightarrow> (case run_handler (m_kernel M) info (entry_handler e) (s\<lparr>cpu := irq_disable (env_irq (m_vga M)) (cpu s)\<rparr>) of
            (r, s') \<Rightarrow> (r, s'\<lparr>cpu := cpu s\<rparr>))))"

definition own_tests ::
  "('c, 'm, 'q, 'k, 'w, 'p, 'r, 'a, 'i, 'g, 'sel, 'u) machine_env \<Rightarrow> u8 list \<times> u8 list \<times> u8 list \<Rightarrow>
   ('c, 'm, 'q, 'k, 'w, 'p, 'r, 'a, 'i, 'g, 'sel, 'u, 'z) machine_scheme test list" where
  "own_tests M info =
     [(bytes ''rusty_os::interrupts::test_breakpoint_exception'', test_breakpoint_exception M info),
      (bytes ''rusty_os::vga_buffer::test_println_simple'', test_println_simple M),
      (bytes ''rusty_os::vga_buffer::test_println_many'', test_println_many M),
      (bytes ''rusty_os::vga_buffer::test_println_output'', test_println_output M)]"

section \<open>The tests pass\<close>

lemma test_string_printable: "list_all (\<lambda>x. 0x20 \<le> x \<and> x \<le> 0x7E) test_string" "length test_string = 43"
  by (simp_all add: test_string_def bytes_def)

lemma assert_row_ok:
  assumes "screen_ok b" and "i + length cs \<le> 80" and "\<forall>j < length cs. ascii_char (b ! 23 ! (i + j)) = cs ! j"
  shows "assert_row b i cs = Ret ()"
  using assms(2,3)
proof (induction cs arbitrary: i)
  case Nil
  then show ?case by simp
next
  case (Cons c cs)
  have "ascii_char (b ! 23 ! i) = c" using Cons.prems(2) by (metis add_0_right length_greater_0_conv list.simps(3) nth_Cons_0)
  moreover have "\<forall>j < length cs. ascii_char (b ! 23 ! (Suc i + j)) = cs ! j" using Cons.prems(2) by force
  ultimately show ?case
    using Cons.IH [of "Suc i"] Cons.prems(1) screen_okD [OF assms(1)]
    by (simp add: read_cell_def BUFFER_HEIGHT_def BUFFER_WIDTH_def)
qed

context harness
begin

definition passes :: "('c, 'm, 'q, 'k, 'w, 'p, 'r, 'a, 'i, 'g, 'sel, 'u, 'z, unit) machine_io \<Rightarrow> bool" where
  "passes m \<longleftrightarrow> (\<forall>s. test_ready held status s \<longrightarrow> (\<exists>s'. m s = (Ret (), s') \<and> test_ready held status s' \<and>
     transcript (m_uart M) sent s' = transcript (m_uart M) sent s))"

lemma passes_println: "passes (println_args (m_vga M) args)"
  unfolding passes_def
proof (intro allI impI)
  fix s :: "('c, 'm, 'q, 'k, 'w, 'p, 'r, 'a, 'i, 'g, 'sel, 'u, 'z) machine_scheme"
  assume r: "test_ready held status s"
  then have v: "vga_ready held s" by (simp add: test_ready_def harness_ready_def)
  obtain c m w where "print_args (m_vga M) (args @ [0x0A]) s = (Ret (), s\<lparr>writer := w, writer_lock := m, cpu := c\<rparr>)"
    "writer_ok w" "\<not> held m" by (rule print_args_ok [OF v])
  then show "\<exists>s'. println_args (m_vga M) args s = (Ret (), s') \<and> test_ready held status s' \<and>
      transcript (m_uart M) sent s' = transcript (m_uart M) sent s"
    using r by (simp add: println_args_def test_ready_def harness_ready_def vga_ready_def transcript_def)
qed

lemma passes_bind: "passes m \<Longrightarrow> passes k \<Longrightarrow> passes (io_bind m (\<lambda>_. k))"
  unfolding passes_def by (fastforce simp: io_bind_def)

lemma passes_times: "passes (println_times M n args)"
  by (induction n) (simp_all add: passes_bind passes_println, simp add: passes_def)

lemma passes_breakpoint: "passes (test_breakpoint_exception M info)"
  unfolding passes_def
proof (intro allI impI)
  fix s :: "('c, 'm, 'q, 'k, 'w, 'p, 'r, 'a, 'i, 'g, 'sel, 'u, 'z) machine_scheme"
  assume r: "test_ready held status s"
  let ?s = "s\<lparr>cpu := irq_disable (env_irq (m_vga M)) (cpu s)\<rparr>" and ?m = "bytes ''EXCEPTION: BREAKPOINT'' @ [0x0A] @ fst info"
  have "test_ready held status ?s" using r by (simp add: test_ready_def harness_ready_def vga_ready_def)
  then obtain s' where s': "println_args (m_vga M) ?m ?s = (Ret (), s')" "test_ready held status s'"
    "transcript (m_uart M) sent s' = transcript (m_uart M) sent ?s" using passes_println [of ?m] unfolding passes_def by blast
  have "test_breakpoint_exception M info s = (Ret (), s'\<lparr>cpu := cpu s\<rparr>)"
    using r s'(1) by (cases info) (simp add: test_breakpoint_exception_def test_ready_def IDT_entries run_handler_def breakpoint_handler_def)
  then show "\<exists>s'. test_breakpoint_exception M info s = (Ret (), s') \<and> test_ready held status s' \<and>
      transcript (m_uart M) sent s' = transcript (m_uart M) sent s"
    using s'(2,3) by (simp add: test_ready_def harness_ready_def vga_ready_def transcript_def)
qed

end

context harness
begin

lemma passes_output: "passes (test_println_output M)"
  unfolding passes_def
proof (intro allI impI)
  fix s :: "('c, 'm, 'q, 'k, 'w, 'p, 'r, 'a, 'i, 'g, 'sel, 'u, 'z) machine_scheme"
  assume r: "test_ready held status s"
  then have v: "writer_ok (writer s)" "\<not> held (writer_lock s)" by (simp_all add: test_ready_def harness_ready_def vga_ready_def)
  have "length test_string \<le> 80" using test_string_printable(2) by simp
  then obtain w where w: "write_string (0x0A # test_string @ [0x0A]) (writer s) = Ret w"
    "\<forall>i < length test_string. ascii_char (buffer w ! 23 ! i) = test_string ! i"
    using printed_text [OF v(1) test_string_printable(1)] by blast
  have ok: "writer_ok w" using write_string_ok [OF v(1), of "0x0A # test_string @ [0x0A]"] w(1) by simp
  then have "screen_ok (buffer w)" by (simp add: writer_ok_def)
  then have a: "assert_row (buffer w) 0 test_string = Ret ()"
    by (rule assert_row_ok) (use test_string_printable(2) w(2) in simp_all)
  obtain m where m: "sm_lock (env_mutex (m_vga M)) (writer_lock s) = (Ret (), m)" using lock_law v(2) by blast
  obtain b c where e: "wi_enter (env_irq (m_vga M)) (cpu s) = (b, c)" by fastforce
  have "test_println_output M s = (Ret (), s\<lparr>writer := w, writer_lock := sm_unlock (env_mutex (m_vga M)) m,
      cpu := wi_leave (env_irq (m_vga M)) b c\<rparr>)"
    using w(1) a m e by (simp add: test_println_output_def io_bind_def print_defs)
  then show "\<exists>s'. test_println_output M s = (Ret (), s') \<and> test_ready held status s' \<and>
      transcript (m_uart M) sent s' = transcript (m_uart M) sent s"
    using r ok unlock_law by (simp add: test_ready_def harness_ready_def vga_ready_def transcript_def)
qed

lemma own_tests_behave:
  assumes "t \<in> set (own_tests M info)"
  shows "test_behaves (m_uart M) sent held status t (fst t, Ret (), [])"
proof -
  have "passes (snd t)"
    using assms passes_println passes_times passes_breakpoint [of info] passes_output
    by (auto simp: own_tests_def test_println_simple_def test_println_many_def)
  then show ?thesis unfolding passes_def test_behaves_def by auto
qed

end

lemma verdict_pass: "verdict (map (\<lambda>t. (f t, Ret (), [])) ts) = Some 0x10"
  by (induction ts) simp_all

section \<open>Properties\<close>

text \<open>
  C20. The kernel passes its own tests: in whatever order and selection the harness runs the tests of
  the library, the whole run from the entry point on ends with QEMU asked to exit with the success
  code.
\<close>

theorem own_tests_pass:
  assumes "harness M held sent status" and "harness_ready held status s" and "set tests \<subseteq> set (own_tests M info)"
  shows "\<exists>s'. on_panic (\<lambda>e. test_panic_handler M (bytes e)) (test_kernel_main M tests) s = (Hang, s') \<and>
    status (ports (ata s')) = Some (exit_code_u32 Success)"
proof -
  have "list_all2 (test_behaves (m_uart M) sent held status) tests (map (\<lambda>t. (fst t, Ret (), [])) tests)"
    unfolding list_all2_map2 by (rule list.rel_refl_strong) (use assms(3) harness.own_tests_behave [OF assms(1)] in blast)
  from harness_reported [OF assms(1,2) this, of bytes] show ?thesis by (auto simp: verdict_pass)
qed

theorem own_tests_pass_witness:
  "\<exists>s'. on_panic (\<lambda>e. test_panic_handler board_env (bytes e)) (test_kernel_main board_env (own_tests board_env ([], [], [])))
      (board_state :: (_, _, _, nat option, _, _, _, _, _, _, _, _) machine) = (Hang, s') \<and>
    snd (ports (ata s')) = Some (exit_code_u32 Success)"
  by (rule own_tests_pass [OF board.harness_axioms board_state_ready subset_refl])

end
