(* ===== verification/Memory.thy ===== *)
theory Memory
  imports Fixed_Size_Block
begin

text \<open>
  \<open>src/memory.rs\<close> and \<open>init_heap\<close> of \<open>src/allocator.rs\<close>: the allocator of physical frames, the
  translation of addresses by a walk through the page tables, and the mapping of the heap.

  Addresses, frames and pages are their 64-bit (start) addresses. The types of the crate \<open>x86_64\<close> and
  the page tables behind them are a parameter; its documented behaviour is the locale \<open>paging_spec\<close>,
  with the content of the tables as the tree the processor walks. The memory map of the boot loader
  is data.
\<close>

section \<open>Paging\<close>

datatype FrameError = FrameNotPresent | HugeFrame

datatype MapToError = FrameAllocationFailed | ParentEntryHugePage | PageAlreadyMapped

text \<open>
  \<open>entry_frame pt v i\<close> is \<open>entry.frame()\<close> of entry \<open>i\<close> of the page table at virtual address \<open>v\<close>, and
  \<open>map_to\<close> is given the frame allocator as a function on its state.
\<close>

record ('pt, 'fa) paging_ops =
  phys_addr_new :: "u64 \<Rightarrow> u64 outcome"
  phys_add :: "u64 \<Rightarrow> u64 \<Rightarrow> u64 outcome"
  frame_containing :: "u64 \<Rightarrow> u64"
  virt_addr_new :: "u64 \<Rightarrow> u64 outcome"
  virt_add :: "u64 \<Rightarrow> u64 \<Rightarrow> u64 outcome"
  virt_sub :: "u64 \<Rightarrow> u64 \<Rightarrow> u64 outcome"
  page_containing :: "u64 \<Rightarrow> u64"
  page_range_inclusive :: "u64 \<Rightarrow> u64 \<Rightarrow> u64 list"
  table_index :: "nat \<Rightarrow> u64 \<Rightarrow> nat"
  page_offset :: "u64 \<Rightarrow> u64"
  cr3_read :: "'pt \<Rightarrow> u64"
  entry_frame :: "'pt \<Rightarrow> u64 \<Rightarrow> nat \<Rightarrow> (u64, FrameError) result"
  map_to :: "('fa, u64 option) io \<Rightarrow> u64 \<Rightarrow> u64 \<Rightarrow> u64 \<Rightarrow> ('pt \<times> 'fa, (unit, MapToError) result) io"

definition PRESENT :: u64 where "PRESENT = 1"

definition WRITABLE :: u64 where "WRITABLE = 2"

section \<open>Page tables\<close>

definition active_level_4_table :: "('pt, 'fa) paging_ops \<Rightarrow> u64 \<Rightarrow> 'pt \<Rightarrow> u64 outcome" where
  "active_level_4_table P physical_memory_offset pt = virt_add P physical_memory_offset (cr3_read P pt)"

text \<open>The loop of \<open>translate_addr_inner\<close> over the four indices.\<close>

fun walk_tables :: "('pt, 'fa) paging_ops \<Rightarrow> u64 \<Rightarrow> 'pt \<Rightarrow> u64 \<Rightarrow> nat list \<Rightarrow> u64 option outcome" where
  "walk_tables P physical_memory_offset pt frame [] = Ret (Some frame)"
| "walk_tables P physical_memory_offset pt frame (index # indexes) =
     obind (virt_add P physical_memory_offset frame) (\<lambda>virt.
     case entry_frame P pt virt index of
       Ok frame \<Rightarrow> walk_tables P physical_memory_offset pt frame indexes
     | Err FrameNotPresent \<Rightarrow> Ret None
     | Err HugeFrame \<Rightarrow> Panic ''huge pages not supported'')"

definition translate_addr_inner :: "('pt, 'fa) paging_ops \<Rightarrow> u64 \<Rightarrow> u64 \<Rightarrow> 'pt \<Rightarrow> u64 option outcome" where
  "translate_addr_inner P addr physical_memory_offset pt =
     (let table_indexes = [table_index P 4 addr, table_index P 3 addr, table_index P 2 addr, table_index P 1 addr]
      in obind (walk_tables P physical_memory_offset pt (cr3_read P pt) table_indexes) (\<lambda>r. case r of
           None \<Rightarrow> Ret None
         | Some frame \<Rightarrow> obind (phys_add P frame (page_offset P addr)) (\<lambda>p. Ret (Some p))))"

definition translate_addr :: "('pt, 'fa) paging_ops \<Rightarrow> u64 \<Rightarrow> u64 \<Rightarrow> 'pt \<Rightarrow> u64 option outcome" where
  "translate_addr P addr physical_memory_offset pt = translate_addr_inner P addr physical_memory_offset pt"

record OffsetPageTable =
  level_4_table :: u64
  phys_offset :: u64

definition memory_init :: "('pt, 'fa) paging_ops \<Rightarrow> u64 \<Rightarrow> 'pt \<Rightarrow> OffsetPageTable outcome" where
  "memory_init P physical_memory_offset pt =
     obind (active_level_4_table P physical_memory_offset pt) (\<lambda>table.
     Ret \<lparr>level_4_table = table, phys_offset = physical_memory_offset\<rparr>)"

definition create_example_mapping ::
  "('pt, 'fa) paging_ops \<Rightarrow> ('fa, u64 option) io \<Rightarrow> u64 \<Rightarrow> ('pt \<times> 'fa, unit) io" where
  "create_example_mapping P alloc page =
     io_bind (io_lift (phys_addr_new P 0xb8000)) (\<lambda>a.
     let frame = frame_containing P a;
         flags = PRESENT OR WRITABLE
     in io_bind (map_to P alloc page frame flags) (\<lambda>r. case r of
          Ok _ \<Rightarrow> io_ret ()
        | Err _ \<Rightarrow> io_panic ''map_to failed''))"

section \<open>Frames\<close>

datatype MemoryRegionType = Usable | OtherRegion nat

record MemoryRegion =
  region_start :: u64
  region_end :: u64
  region_type :: MemoryRegionType

definition EmptyFrameAllocator_allocate_frame :: "(unit, u64 option) io" where
  "EmptyFrameAllocator_allocate_frame = io_ret None"

record BootInfoFrameAllocator =
  memory_map :: "MemoryRegion list"
  next_frame :: usize

definition BootInfoFrameAllocator_init :: "MemoryRegion list \<Rightarrow> BootInfoFrameAllocator" where
  "BootInfoFrameAllocator_init m = \<lparr>memory_map = m, next_frame = 0\<rparr>"

text \<open>\<open>(a..b).step_by(4096)\<close>.\<close>

function step_range :: "nat \<Rightarrow> nat \<Rightarrow> nat list" where
  "step_range a b = (if a < b then a # step_range (a + 4096) b else [])"
  by pat_completeness auto
termination by (relation "measure (\<lambda>(a, b). b - a)") auto

declare step_range.simps [simp del]

definition region_frames :: "MemoryRegion \<Rightarrow> u64 list" where
  "region_frames r = map of_nat (step_range (unat (region_start r)) (unat (region_end r)))"

definition frame_addresses :: "MemoryRegion list \<Rightarrow> u64 list" where
  "frame_addresses m = concat (map region_frames (filter (\<lambda>r. region_type r = Usable) m))"

text \<open>The iterator \<open>usable_frames\<close> computes its elements on demand; \<open>nth\<close> computes those up to the one it returns.\<close>

definition usable_frames :: "('pt, 'fa) paging_ops \<Rightarrow> BootInfoFrameAllocator \<Rightarrow> u64 outcome list" where
  "usable_frames P self =
     map (\<lambda>addr. obind (phys_addr_new P addr) (\<lambda>a. Ret (frame_containing P a))) (frame_addresses (memory_map self))"

fun iter_nth :: "'a outcome list \<Rightarrow> nat \<Rightarrow> 'a option outcome" where
  "iter_nth [] n = Ret None"
| "iter_nth (x # xs) n = obind x (\<lambda>v. case n of 0 \<Rightarrow> Ret (Some v) | Suc k \<Rightarrow> iter_nth xs k)"

definition allocate_frame :: "bool \<Rightarrow> ('pt, 'fa) paging_ops \<Rightarrow> (BootInfoFrameAllocator, u64 option) io" where
  "allocate_frame oc P self =
     (case iter_nth (usable_frames P self) (unat (next_frame self)) of
        Ret frame \<Rightarrow> (case add_oc oc (next_frame self) 1 of
            Ret n \<Rightarrow> (Ret frame, self\<lparr>next_frame := n\<rparr>)
          | Panic e \<Rightarrow> (Panic e, self)
          | Hang \<Rightarrow> (Hang, self))
      | Panic e \<Rightarrow> (Panic e, self)
      | Hang \<Rightarrow> (Hang, self))"

section \<open>The heap\<close>

record ('pt, 'fa, 'h) heap_state =
  mapper :: 'pt
  frame_alloc :: 'fa
  ALLOCATOR :: "'h FixedSizeBlockAllocator"

fun map_pages ::
  "('pt, 'fa) paging_ops \<Rightarrow> ('fa, u64 option) io \<Rightarrow> u64 list \<Rightarrow> ('pt \<times> 'fa, (unit, MapToError) result) io" where
  "map_pages P alloc [] = io_ret (Ok ())"
| "map_pages P alloc (page # pages) =
     io_bind (\<lambda>(pt, fa). case alloc fa of (r, fa') \<Rightarrow> (r, (pt, fa'))) (\<lambda>r. case r of
       None \<Rightarrow> io_ret (Err FrameAllocationFailed)
     | Some frame \<Rightarrow>
         let flags = PRESENT OR WRITABLE
         in io_try (map_to P alloc page frame flags) (\<lambda>_. map_pages P alloc pages))"

definition heap_pages :: "('pt, 'fa) paging_ops \<Rightarrow> u64 list outcome" where
  "heap_pages P =
     obind (virt_addr_new P HEAP_START) (\<lambda>heap_start.
     obind (virt_add P heap_start HEAP_SIZE) (\<lambda>e.
     obind (virt_sub P e 1) (\<lambda>heap_end.
     Ret (page_range_inclusive P (page_containing P heap_start) (page_containing P heap_end)))))"

definition init_heap ::
  "('pt, 'fa) paging_ops \<Rightarrow> ('fa, u64 option) io \<Rightarrow> 'h heap_ops \<Rightarrow>
   (('pt, 'fa, 'h) heap_state, (unit, MapToError) result) io" where
  "init_heap P alloc h =
     io_bind (io_lift (heap_pages P)) (\<lambda>page_range.
     io_try (\<lambda>s. case map_pages P alloc page_range (mapper s, frame_alloc s) of
         (r, (pt, fa)) \<Rightarrow> (r, s\<lparr>mapper := pt, frame_alloc := fa\<rparr>)) (\<lambda>_.
     io_bind (\<lambda>s. case fsb_init h HEAP_START HEAP_SIZE (ALLOCATOR s) of (r, a) \<Rightarrow> (r, s\<lparr>ALLOCATOR := a\<rparr>)) (\<lambda>_.
     io_ret (Ok ()))))"

section \<open>The documented behaviour of paging\<close>

text \<open>
  What the processor does: it follows the four table indices of an address from the table in \<open>CR3\<close>.
  \<open>ent pt f i\<close> is entry \<open>i\<close> of the table in frame \<open>f\<close>.
\<close>

fun walk :: "(u64 \<Rightarrow> nat \<Rightarrow> (u64, FrameError) result) \<Rightarrow> u64 \<Rightarrow> nat list \<Rightarrow> (u64, FrameError) result" where
  "walk ent f [] = Ok f"
| "walk ent f (i # is) = (case ent f i of Ok g \<Rightarrow> walk ent g is | Err e \<Rightarrow> Err e)"

definition page_indices :: "u64 \<Rightarrow> nat list" where
  "page_indices a = [unat a div 2 ^ 39 mod 512, unat a div 2 ^ 30 mod 512, unat a div 2 ^ 21 mod 512, unat a div 2 ^ 12 mod 512]"

definition page_start :: "u64 \<Rightarrow> u64" where
  "page_start a = of_nat (unat a div 4096 * 4096)"

definition is_frame :: "u64 \<Rightarrow> bool" where
  "is_frame f \<longleftrightarrow> unat f < 2 ^ 52 \<and> 4096 dvd unat f"

text \<open>
  The frame allocator gives a frame in each of the next \<open>n\<close> calls; \<open>advance\<close> is its state after them.
\<close>

primrec advance :: "('fa, u64 option) io \<Rightarrow> nat \<Rightarrow> 'fa \<Rightarrow> 'fa" where
  "advance alloc 0 fa = fa"
| "advance alloc (Suc n) fa = advance alloc n (snd (alloc fa))"

definition has_frames :: "('fa, u64 option) io \<Rightarrow> nat \<Rightarrow> 'fa \<Rightarrow> bool" where
  "has_frames alloc n fa \<longleftrightarrow> (\<forall>k < n. \<exists>f. fst (alloc (advance alloc k fa)) = Ret (Some f) \<and> is_frame f)"

locale paging_spec =
  fixes P :: "('pt, 'fa) paging_ops" and ent :: "'pt \<Rightarrow> u64 \<Rightarrow> nat \<Rightarrow> (u64, FrameError) result"
    and offset :: u64
  assumes phys_addr_new_law: "phys_addr_new P a = (if unat a < 2 ^ 52 then Ret a else Panic ''physical address must not have any set bits in positions 52 to 64'')"
    and phys_add_law: "unat a + unat b < 2 ^ 52 \<Longrightarrow> phys_add P a b = Ret (a + b)"
    and frame_containing_law: "frame_containing P a = page_start a"
    and virt_addr_new_law: "unat a < 2 ^ 47 \<Longrightarrow> virt_addr_new P a = Ret a"
    and virt_add_law: "unat a + unat b < 2 ^ 47 \<Longrightarrow> virt_add P a b = Ret (a + b)"
    and virt_sub_law: "unat b \<le> unat a \<Longrightarrow> unat a < 2 ^ 47 \<Longrightarrow> virt_sub P a b = Ret (a - b)"
    and page_containing_law: "page_containing P a = page_start a"
    and page_range_law: "page_range_inclusive P p q = map of_nat (step_range (unat p) (Suc (unat q)))"
    and table_index_law: "[table_index P 4 a, table_index P 3 a, table_index P 2 a, table_index P 1 a] = page_indices a"
    and page_offset_law: "page_offset P a = of_nat (unat a mod 4096)"
    and cr3_law: "is_frame (cr3_read P pt)"
    and offset_law: "is_frame f \<Longrightarrow> \<exists>v. virt_add P offset f = Ret v \<and> (\<forall>pt i. entry_frame P pt v i = ent pt f i)"
    and entry_law: "ent pt f i = Ok g \<Longrightarrow> is_frame g"
    and map_to_law: "page_start p = p \<Longrightarrow> unat p < 2 ^ 48 \<Longrightarrow> is_frame f \<Longrightarrow> has_frames alloc 3 fa \<Longrightarrow>
      walk (ent pt) (cr3_read P pt) (page_indices p) = Err FrameNotPresent \<Longrightarrow>
      \<exists>k pt'. k \<le> 3 \<and> map_to P alloc p f fl (pt, fa) = (Ret (Ok ()), (pt', advance alloc k fa)) \<and>
        walk (ent pt') (cr3_read P pt') (page_indices p) = Ok f \<and>
        (\<forall>a. unat a < 2 ^ 48 \<longrightarrow> page_start a \<noteq> p \<longrightarrow>
          walk (ent pt') (cr3_read P pt') (page_indices a) = walk (ent pt) (cr3_read P pt) (page_indices a))"

section \<open>Lemmas on frames\<close>

lemma step_range_set: "x \<in> set (step_range a b) \<longleftrightarrow> a \<le> x \<and> x < b \<and> 4096 dvd x - a"
proof (induction a b rule: step_range.induct)
  case (1 a b)
  have "a < b \<Longrightarrow> a \<le> x \<and> x < b \<and> 4096 dvd x - a \<longleftrightarrow> x = a \<or> a + 4096 \<le> x \<and> x < b \<and> 4096 dvd x - (a + 4096)"
  proof (cases "a + 4096 \<le> x")
    case True
    have "x - a = x - (a + 4096) + 4096" using True by simp
    then have "4096 dvd x - a \<longleftrightarrow> 4096 dvd x - (a + 4096)" by (simp only: dvd_add_triv_right_iff)
    then show "a < b \<Longrightarrow> ?thesis" using True by auto
  next
    case False
    then show "a < b \<Longrightarrow> ?thesis" by (auto dest: dvd_imp_le)
  qed
  then show ?case using 1 by (auto simp: step_range.simps [of a b])
qed

lemma distinct_step_range: "distinct (step_range a b)"
proof (induction a b rule: step_range.induct)
  case (1 a b)
  then show ?case by (auto simp: step_range.simps [of a b] step_range_set)
qed

lemma aligned_below:
  assumes "4096 dvd a" and "4096 dvd b" and "a < (b :: nat)"
  shows "a + 4096 \<le> b"
proof -
  have "4096 \<le> b - a" using dvd_diff_nat [OF assms(2,1)] assms(3) by (intro dvd_imp_le) simp_all
  then show ?thesis using assms(3) by simp
qed

definition apart :: "MemoryRegion \<Rightarrow> MemoryRegion \<Rightarrow> bool" where
  "apart r r' \<longleftrightarrow> unat (region_end r) \<le> unat (region_start r') \<or> unat (region_end r') \<le> unat (region_start r)"

definition region_ok :: "MemoryRegion \<Rightarrow> bool" where
  "region_ok r \<longleftrightarrow> 4096 dvd unat (region_start r) \<and> 4096 dvd unat (region_end r) \<and> unat (region_end r) \<le> 2 ^ 52"

definition map_ok :: "MemoryRegion list \<Rightarrow> bool" where
  "map_ok m \<longleftrightarrow> list_all region_ok (filter (\<lambda>r. region_type r = Usable) m) \<and>
     sorted_wrt apart (filter (\<lambda>r. region_type r = Usable) m)"

lemma unat_of_step:
  assumes "x \<in> set (step_range (unat (s :: u64)) (unat (e :: u64)))"
  shows "unat (of_nat x :: u64) = x"
proof -
  have "x < 2 ^ 64" using assms unsigned_less [of e, where 'a = nat] by (simp add: step_range_set)
  then show ?thesis by (simp add: unat_of_nat)
qed

lemma region_frames_member:
  assumes "a \<in> set (region_frames r)"
  shows "unat (region_start r) \<le> unat a" and "unat a < unat (region_end r)" and "4096 dvd unat a - unat (region_start r)"
proof -
  obtain x where x: "x \<in> set (step_range (unat (region_start r)) (unat (region_end r)))" "a = of_nat x"
    using assms by (auto simp: region_frames_def)
  have "unat a = x" using unat_of_step [OF x(1)] x(2) by simp
  then show "unat (region_start r) \<le> unat a" "unat a < unat (region_end r)" "4096 dvd unat a - unat (region_start r)"
    using x(1) by (simp_all add: step_range_set)
qed

lemma distinct_region_frames: "distinct (region_frames r)"
  unfolding region_frames_def distinct_map
  by (intro conjI distinct_step_range inj_on_inverseI [of _ unat] unat_of_step)

lemma frame_addresses_frames:
  assumes "map_ok m" and "a \<in> set (frame_addresses m)"
  obtains r where "r \<in> set m" and "region_type r = Usable" and "unat (region_start r) \<le> unat a"
    and "unat a + 4096 \<le> unat (region_end r)" and "is_frame a"
proof -
  obtain r where r: "r \<in> set m" "region_type r = Usable" "a \<in> set (region_frames r)"
    using assms(2) by (auto simp: frame_addresses_def)
  note m = region_frames_member [OF r(3)]
  have b: "4096 dvd unat (region_start r)" "4096 dvd unat (region_end r)" "unat (region_end r) \<le> 2 ^ 52"
    using assms(1) r(1,2) by (auto simp: map_ok_def region_ok_def list_all_iff)
  have d: "4096 dvd unat a" by (rule dvd_diffD [OF m(3) b(1) m(1)])
  have "is_frame a" using d m(2) b(3) by (simp add: is_frame_def)
  then show ?thesis using that [OF r(1,2) m(1) aligned_below [OF d b(2) m(2)]] by simp
qed

lemma distinct_regions: "sorted_wrt apart rs \<Longrightarrow> distinct (concat (map region_frames rs))"
proof (induction rs)
  case Nil
  then show ?case by simp
next
  case (Cons r rs)
  have "a \<notin> set (region_frames r')" if "r' \<in> set rs" "a \<in> set (region_frames r)" for r' a
    using Cons.prems that(1) region_frames_member(1,2) [OF that(2)] region_frames_member(1,2) [of a r'] by (auto simp: apart_def)
  then show ?case using Cons distinct_region_frames [of r] by auto
qed

lemma distinct_frame_addresses: "map_ok m \<Longrightarrow> distinct (frame_addresses m)"
  by (simp add: map_ok_def frame_addresses_def distinct_regions)

lemma iter_nth_Ret: "iter_nth (map Ret xs) n = Ret (if n < length xs then Some (xs ! n) else None)"
  by (induction xs arbitrary: n) (auto split: nat.splits)

lemma page_start_frame: "is_frame f \<Longrightarrow> page_start f = f"
  by (simp add: is_frame_def page_start_def)

lemma length_frame_addresses:
  assumes "map_ok m"
  shows "length (frame_addresses m) \<le> 2 ^ 52"
proof -
  have "unat a < 2 ^ 52" if a: "a \<in> set (frame_addresses m)" for a
    by (rule frame_addresses_frames [OF assms a]) (simp add: is_frame_def)
  then have "unat ` set (frame_addresses m) \<subseteq> {..<2 ^ 52}" by blast
  then have "card (unat ` set (frame_addresses m)) \<le> 2 ^ 52" using card_mono [of "{..<2 ^ 52 :: nat}"] by simp
  moreover have "inj_on unat (set (frame_addresses m))" by (simp add: inj_on_def word_unat_eq_iff)
  ultimately show ?thesis using distinct_card [OF distinct_frame_addresses [OF assms]] by (simp add: card_image)
qed

primrec allocate_frames :: "bool \<Rightarrow> ('pt, 'fa) paging_ops \<Rightarrow> nat \<Rightarrow> (BootInfoFrameAllocator, u64 option list) io" where
  "allocate_frames oc P 0 = io_ret []"
| "allocate_frames oc P (Suc n) =
     io_bind (allocate_frame oc P) (\<lambda>f. io_bind (allocate_frames oc P n) (\<lambda>fs. io_ret (f # fs)))"

lemma advance_add: "advance alloc (j + k) fa = advance alloc k (advance alloc j fa)"
  by (induction j arbitrary: fa) simp_all

lemma has_frames_advance: "has_frames alloc (j + n) fa \<Longrightarrow> has_frames alloc n (advance alloc j fa)"
  unfolding has_frames_def by (auto simp flip: advance_add)

lemma has_frames_less: "has_frames alloc n fa \<Longrightarrow> k \<le> n \<Longrightarrow> has_frames alloc k fa"
  by (auto simp: has_frames_def)

context paging_spec
begin

lemma usable_frames_eq:
  assumes "map_ok m" and "memory_map self = m"
  shows "usable_frames P self = map Ret (frame_addresses m)"
proof -
  have "obind (phys_addr_new P a) (\<lambda>a. Ret (frame_containing P a)) = Ret a" if a: "a \<in> set (frame_addresses m)" for a
    by (rule frame_addresses_frames [OF assms(1) a])
      (simp add: phys_addr_new_law frame_containing_law page_start_frame, simp add: is_frame_def)
  then show ?thesis by (simp add: usable_frames_def assms(2))
qed

lemma allocate_frame_eq:
  assumes "map_ok m" and "memory_map self = m" and "unat (next_frame self) < 2 ^ 63"
  shows "allocate_frame oc P self =
    (Ret (if unat (next_frame self) < length (frame_addresses m) then Some (frame_addresses m ! unat (next_frame self)) else None),
     self\<lparr>next_frame := next_frame self + 1\<rparr>)"
proof -
  have "add_oc oc (next_frame self) 1 = Ret (next_frame self + 1)"
    using assms(3) by (intro add_oc_Ret) simp
  then show ?thesis by (simp add: allocate_frame_def usable_frames_eq [OF assms(1,2)] iter_nth_Ret)
qed

lemma allocate_frames_eq:
  assumes "map_ok m" and "memory_map self = m" and "unat (next_frame self) + n < 2 ^ 63"
  shows "\<exists>self'. allocate_frames oc P n self = (Ret (map (\<lambda>i. if i < length (frame_addresses m) then Some (frame_addresses m ! i) else None)
    [unat (next_frame self)..<unat (next_frame self) + n]), self')"
  using assms(2,3)
proof (induction n arbitrary: self)
  case 0
  then show ?case by simp
next
  case (Suc n)
  let ?s = "self\<lparr>next_frame := next_frame self + 1\<rparr>"
  have u: "unat (next_frame self + 1) = Suc (unat (next_frame self))"
    using Suc.prems(2) unat_add_nowrap [of "next_frame self" 1] by simp
  have "\<exists>self'. allocate_frames oc P n ?s = (Ret (map (\<lambda>i. if i < length (frame_addresses m) then Some (frame_addresses m ! i) else None)
      [unat (next_frame ?s)..<unat (next_frame ?s) + n]), self')"
    using Suc.prems u by (intro Suc.IH) simp_all
  then show ?case
    using allocate_frame_eq [OF assms(1) Suc.prems(1), of oc] Suc.prems(2) u
    by (auto simp: io_bind_def upt_conv_Cons simp del: upt_Suc)
qed

lemma advance_allocate:
  assumes "map_ok m" and "memory_map self = m" and "unat (next_frame self) + k < 2 ^ 63"
  shows "memory_map (advance (allocate_frame oc P) k self) = m \<and>
    unat (next_frame (advance (allocate_frame oc P) k self)) = unat (next_frame self) + k"
  using assms(2,3)
proof (induction k arbitrary: self)
  case 0
  then show ?case by simp
next
  case (Suc k)
  let ?s = "self\<lparr>next_frame := next_frame self + 1\<rparr>"
  have u: "unat (next_frame self + 1) = Suc (unat (next_frame self))"
    using Suc.prems(2) unat_add_nowrap [of "next_frame self" 1] by simp
  show ?case
    using Suc.IH [of ?s] Suc.prems u allocate_frame_eq [OF assms(1) Suc.prems(1), of oc] by simp
qed

lemma allocate_nth:
  assumes "map_ok m" and "memory_map self = m" and "unat (next_frame self) + n \<le> length (frame_addresses m)" and "k < n"
  shows "fst (allocate_frame oc P (advance (allocate_frame oc P) k self)) = Ret (Some (frame_addresses m ! (unat (next_frame self) + k)))"
proof -
  have l: "unat (next_frame self) + k < 2 ^ 63" "unat (next_frame self) + k < length (frame_addresses m)"
    using assms(3,4) length_frame_addresses [OF assms(1)] by simp_all
  note a = advance_allocate [OF assms(1,2) l(1), of oc]
  show ?thesis using allocate_frame_eq [OF assms(1) conjunct1 [OF a], of oc] a l by simp
qed

lemma translate_walk:
  assumes "is_frame f"
  shows "walk_tables P offset pt f is = (case walk (ent pt) f is of
      Ok g \<Rightarrow> Ret (Some g) | Err FrameNotPresent \<Rightarrow> Ret None | Err HugeFrame \<Rightarrow> Panic ''huge pages not supported'')"
  using assms
proof (induction "is" arbitrary: f)
  case Nil
  then show ?case by simp
next
  case (Cons i "is")
  obtain v where v: "virt_add P offset f = Ret v" "entry_frame P pt v i = ent pt f i" using offset_law [OF Cons.prems] by blast
  then show ?case using Cons.IH entry_law [of pt f i] by (auto split: result.splits FrameError.splits)
qed

lemma walk_frame: "walk (ent pt) f is = Ok g \<Longrightarrow> is_frame f \<Longrightarrow> is_frame g"
  by (induction "is" arbitrary: f) (auto split: result.splits dest: entry_law)

lemma translate_addr_eq:
  "translate_addr P a offset pt = (case walk (ent pt) (cr3_read P pt) (page_indices a) of
      Ok f \<Rightarrow> Ret (Some (f + of_nat (unat a mod 4096)))
    | Err FrameNotPresent \<Rightarrow> Ret None
    | Err HugeFrame \<Rightarrow> Panic ''huge pages not supported'')"
proof -
  have "phys_add P f (page_offset P a) = Ret (f + of_nat (unat a mod 4096))" if f: "is_frame f" for f
  proof -
    obtain k where k: "unat f = 4096 * k" using f unfolding is_frame_def by (elim conjE dvdE)
    have "unat (of_nat (unat a mod 4096) :: u64) = unat a mod 4096" by (simp add: unat_of_nat)
    moreover have "k < 2 ^ 40" using f k by (simp add: is_frame_def)
    moreover have "unat a mod 4096 < 4096" by simp
    ultimately have "4096 * k + unat (of_nat (unat a mod 4096) :: u64) < 2 ^ 52" by simp
    then show ?thesis using k by (simp add: page_offset_law phys_add_law)
  qed
  then show ?thesis
    using walk_frame [OF _ cr3_law, of pt pt "page_indices a"]
    unfolding translate_addr_def translate_addr_inner_def Let_def table_index_law translate_walk [OF cr3_law]
    by (simp split: result.split FrameError.split)
qed

end

section \<open>Mapping the heap\<close>

definition heap_addr :: "u64 \<Rightarrow> bool" where
  "heap_addr a \<longleftrightarrow> unat HEAP_START \<le> unat a \<and> unat a < unat HEAP_START + unat HEAP_SIZE"

text \<open>The frame a page gets is the one of some call of the allocator.\<close>

definition nth_frame :: "('fa, u64 option) io \<Rightarrow> 'fa \<Rightarrow> nat \<Rightarrow> u64" where
  "nth_frame alloc fa k = (case fst (alloc (advance alloc k fa)) of Ret (Some f) \<Rightarrow> f | _ \<Rightarrow> 0)"

lemma nth_frame_advance: "nth_frame alloc (advance alloc j fa) k = nth_frame alloc fa (j + k)"
  by (simp add: nth_frame_def advance_add)

lemma has_frames_first:
  assumes "has_frames alloc n fa" and "0 < n"
  obtains f where "alloc fa = (Ret (Some f), advance alloc 1 fa)" and "is_frame f" and "nth_frame alloc fa 0 = f"
proof -
  obtain f where f: "fst (alloc fa) = Ret (Some f)" "is_frame f"
    using assms unfolding has_frames_def by (metis advance.simps(1))
  have "alloc fa = (Ret (Some f), advance alloc 1 fa)" using f(1) by (simp add: prod_eq_iff)
  then show ?thesis using that f by (simp add: nth_frame_def)
qed

definition is_page :: "u64 \<Rightarrow> bool" where
  "is_page p \<longleftrightarrow> page_start p = p \<and> unat p < 2 ^ 48"

context paging_spec
begin

abbreviation xlate :: "'pt \<Rightarrow> u64 \<Rightarrow> (u64, FrameError) result" where
  "xlate pt a \<equiv> walk (ent pt) (cr3_read P pt) (page_indices a)"

lemma map_pages_ok:
  assumes "distinct pages" and "list_all is_page pages" and "list_all (\<lambda>p. xlate pt p = Err FrameNotPresent) pages"
    and "has_frames alloc (4 * length pages) fa"
  shows "\<exists>pt' k ks. map_pages P alloc pages (pt, fa) = (Ret (Ok ()), (pt', advance alloc k fa)) \<and>
    length ks = length pages \<and> sorted_wrt (<) ks \<and> list_all (\<lambda>j. j < 4 * length pages) ks \<and>
    (\<forall>i < length pages. xlate pt' (pages ! i) = Ok (nth_frame alloc fa (ks ! i))) \<and>
    (\<forall>a. unat a < 2 ^ 48 \<longrightarrow> page_start a \<notin> set pages \<longrightarrow> xlate pt' a = xlate pt a)"
  using assms
proof (induction pages arbitrary: pt fa)
  case Nil
  show ?case by (intro exI [of _ pt] exI [of _ 0] exI [of _ "[]"]) simp
next
  case (Cons p pages)
  have p: "page_start p = p" "unat p < 2 ^ 48" "xlate pt p = Err FrameNotPresent" "p \<notin> set pages"
    using Cons.prems by (simp_all add: is_page_def)
  obtain f where f: "alloc fa = (Ret (Some f), advance alloc 1 fa)" "is_frame f" "nth_frame alloc fa 0 = f"
    by (rule has_frames_first [OF Cons.prems(4)]) simp
  have "has_frames alloc (1 + 3) fa" using Cons.prems(4) by (rule has_frames_less) simp
  note h3 = has_frames_advance [OF this]
  obtain k pt1 where m: "k \<le> 3" "map_to P alloc p f (PRESENT OR WRITABLE) (pt, advance alloc 1 fa) = (Ret (Ok ()), (pt1, advance alloc (1 + k) fa))"
    "xlate pt1 p = Ok f" "\<forall>a. unat a < 2 ^ 48 \<longrightarrow> page_start a \<noteq> p \<longrightarrow> xlate pt1 a = xlate pt a"
    using map_to_law [OF p(1,2) f(2) h3 p(3), of "PRESENT OR WRITABLE"] unfolding advance_add [symmetric] by blast
  have keep: "xlate pt1 q = xlate pt q" if "q \<in> set pages" for q
    using m(4) that Cons.prems(2) p(4) by (auto simp: list_all_iff is_page_def)
  have pre: "distinct pages" "list_all is_page pages" "list_all (\<lambda>p. xlate pt1 p = Err FrameNotPresent) pages"
    "has_frames alloc (4 * length pages) (advance alloc (1 + k) fa)"
    using Cons.prems(1-3) keep has_frames_advance [of alloc "1 + k" "4 * length pages" fa]
      has_frames_less [OF Cons.prems(4), of "1 + k + 4 * length pages"] m(1) by (simp_all add: list_all_iff)
  obtain pt' k' ks where r: "map_pages P alloc pages (pt1, advance alloc (1 + k) fa) = (Ret (Ok ()), (pt', advance alloc k' (advance alloc (1 + k) fa)))"
    "length ks = length pages" "sorted_wrt (<) ks" "list_all (\<lambda>j. j < 4 * length pages) ks"
    "\<forall>i < length pages. xlate pt' (pages ! i) = Ok (nth_frame alloc (advance alloc (1 + k) fa) (ks ! i))"
    "\<forall>a. unat a < 2 ^ 48 \<longrightarrow> page_start a \<notin> set pages \<longrightarrow> xlate pt' a = xlate pt1 a"
    using Cons.IH [OF pre] by blast
  let ?ks = "0 # map ((+) (1 + k)) ks"
  have run: "map_pages P alloc (p # pages) (pt, fa) = (Ret (Ok ()), (pt', advance alloc (1 + k + k') fa))"
    using f(1) m(2) r(1) unfolding advance_add [of alloc "1 + k" k', symmetric] by (simp add: io_bind_def io_try_def del: advance.simps)
  have "xlate pt' ((p # pages) ! i) = Ok (nth_frame alloc fa (?ks ! i))" if "i < length (p # pages)" for i
  proof (cases i)
    case 0
    then show ?thesis using r(6) p m(3) f(3) by simp
  next
    case (Suc j)
    have "nth_frame alloc (advance alloc (1 + k) fa) (ks ! j) = nth_frame alloc fa (1 + k + ks ! j)" by (rule nth_frame_advance)
    then show ?thesis using r(2,5) that Suc by simp
  qed
  moreover have "sorted_wrt (<) ?ks" using r(3) by (simp add: sorted_wrt_map)
  moreover have "list_all (\<lambda>j. j < 4 * length (p # pages)) ?ks" using r(4) m(1) by (auto simp: list_all_iff)
  moreover have "xlate pt' a = xlate pt a" if "unat a < 2 ^ 48" "page_start a \<notin> set (p # pages)" for a
    using that r(6) m(4) by simp
  ultimately show ?case using run r(2) by (intro exI [of _ pt'] exI [of _ "1 + k + k'"] exI [of _ ?ks]) simp
qed

end

lemma unat_page_start: "unat (page_start a) = unat a div 4096 * 4096"
proof -
  have "unat a div 4096 * 4096 < 2 ^ LENGTH(64)" by (rule le_less_trans [OF _ unsigned_less [of a]]) simp
  then show ?thesis unfolding page_start_def by (intro of_nat_inverse [OF refl])
qed

lemma page_start_idem [simp]: "page_start (page_start a) = page_start a"
  unfolding page_start_def [of "page_start a"] unat_page_start by (simp add: page_start_def)

lemma page_indices_start: "page_indices (page_start a) = page_indices a"
proof -
  have "n * 4096 div (4096 * d) = n div d" for n d :: nat by (simp add: mult.commute)
  from this [of "unat a div 4096" "2 ^ 27"] this [of "unat a div 4096" "2 ^ 18"] this [of "unat a div 4096" "2 ^ 9"]
  show ?thesis by (simp add: page_indices_def unat_page_start div_mult2_eq [symmetric])
qed

lemma step_range_length: "length (step_range a b) = (b - a + 4095) div 4096"
proof (induction a b rule: step_range.induct)
  case (1 a b)
  show ?case
  proof (cases "a < b")
    case True
    have "(b - a + 4095) div 4096 = Suc ((b - (a + 4096) + 4095) div 4096)"
    proof (cases "a + 4096 \<le> b")
      case True
      then have e: "b - a + 4095 = b - (a + 4096) + 4095 + 4096" by simp
      show ?thesis unfolding e by simp
    next
      case False
      then have e: "b - a + 4095 = (b - a - 1) + 4096" and "b - a - 1 < 4096" using True by simp_all
      then show ?thesis unfolding e using False by simp
    qed
    then show ?thesis using 1 True by (simp add: step_range.simps [of a b])
  qed (simp add: step_range.simps [of a b])
qed

lemma heap_bounds: "unat HEAP_START = 0x444444440000" "unat HEAP_SIZE = 102400"
  "unat (page_start (HEAP_START + HEAP_SIZE - 1)) = 0x444444458000" "page_start HEAP_START = HEAP_START"
  by (simp_all add: unat_page_start HEAP_START_def HEAP_SIZE_def page_start_def)

context paging_spec
begin

lemma heap_pages_eq: "heap_pages P = Ret (map of_nat (step_range 0x444444440000 0x444444458001))"
proof -
  have "virt_addr_new P HEAP_START = Ret HEAP_START" by (rule virt_addr_new_law) (simp add: heap_bounds)
  moreover have "virt_add P HEAP_START HEAP_SIZE = Ret (HEAP_START + HEAP_SIZE)" by (rule virt_add_law) (simp add: heap_bounds)
  moreover have "virt_sub P (HEAP_START + HEAP_SIZE) 1 = Ret (HEAP_START + HEAP_SIZE - 1)"
    by (rule virt_sub_law) (simp_all add: HEAP_START_def HEAP_SIZE_def)
  ultimately show ?thesis
    by (simp add: heap_pages_def page_containing_law page_range_law heap_bounds)
qed

lemma heap_pages_facts:
  assumes "heap_pages P = Ret pages"
  shows "distinct pages" and "length pages = 25" and "p \<in> set pages \<longleftrightarrow> heap_addr p \<and> page_start p = p"
    and "list_all is_page pages"
proof -
  let ?xs = "step_range 0x444444440000 0x444444458001"
  have pages: "pages = map of_nat ?xs" using assms by (simp add: heap_pages_eq)
  have u: "unat (of_nat x :: u64) = x" if "x \<in> set ?xs" for x
    using that by (simp add: step_range_set unat_of_nat)
  have inj: "inj_on (of_nat :: nat \<Rightarrow> u64) (set ?xs)" by (rule inj_on_inverseI [of _ unat]) (rule u)
  show "distinct pages" unfolding pages distinct_map using distinct_step_range inj by blast
  show "length pages = 25" unfolding pages by (simp add: step_range_length)
  have start: "page_start p = p \<longleftrightarrow> 4096 dvd unat p" for p
    unfolding word_unat_eq_iff unat_page_start by (metis dvd_div_mult_self dvd_triv_right)
  have A: "4096 dvd (0x444444440000 :: nat)" "4096 dvd (0x444444459000 :: nat)" by simp_all
  have in_range: "x \<in> set ?xs \<longleftrightarrow> (0x444444440000 \<le> x \<and> x < 0x444444459000) \<and> 4096 dvd x" for x
  proof
    assume "x \<in> set ?xs"
    then have x: "0x444444440000 \<le> x" "x < 0x444444458001" "4096 dvd x - 0x444444440000" by (simp_all add: step_range_set)
    show "(0x444444440000 \<le> x \<and> x < 0x444444459000) \<and> 4096 dvd x" using x(1,2) dvd_diffD [OF x(3) A(1) x(1)] by linarith
  next
    assume "(0x444444440000 \<le> x \<and> x < 0x444444459000) \<and> 4096 dvd x"
    then have x: "0x444444440000 \<le> x" "x < 0x444444459000" "4096 dvd x" by simp_all
    then have "x < 0x444444458001" using aligned_below [OF x(3) A(2) x(2)] by linarith
    then show "x \<in> set ?xs" unfolding step_range_set using x(1) dvd_diff_nat [OF x(3) A(1)] by blast
  qed
  show mem: "p \<in> set pages \<longleftrightarrow> heap_addr p \<and> page_start p = p" for p
  proof -
    have "p \<in> set pages \<longleftrightarrow> unat p \<in> set ?xs" unfolding pages using u by (auto intro: rev_image_eqI)
    then show ?thesis unfolding in_range start heap_addr_def heap_bounds by simp
  qed
  show "list_all is_page pages" using mem by (auto simp: list_all_iff is_page_def heap_addr_def heap_bounds)
qed

end

context paging_spec
begin

lemma translate_None: "translate_addr P a offset pt = Ret None \<Longrightarrow> xlate pt a = Err FrameNotPresent"
  by (simp add: translate_addr_eq split: result.splits FrameError.splits)

lemma init_heap_ok:
  assumes "list_all (\<lambda>p. xlate (mapper s) p = Err FrameNotPresent) pages" and "heap_pages P = Ret pages"
    and "has_frames alloc 100 (frame_alloc s)" and "fsb_init h HEAP_START HEAP_SIZE (ALLOCATOR s) = (Ret (), a)"
  obtains s' ks where "init_heap P alloc h s = (Ret (Ok ()), s')" and "ALLOCATOR s' = a"
    and "length ks = 25" and "sorted_wrt (<) ks" and "list_all (\<lambda>j. j < 100) ks"
    and "\<forall>i < 25. xlate (mapper s') (pages ! i) = Ok (nth_frame alloc (frame_alloc s) (ks ! i))"
proof -
  note f = heap_pages_facts [OF assms(2)]
  have hf: "has_frames alloc (4 * length pages) (frame_alloc s)" using assms(3) f(2) by simp
  obtain pt' k ks where m: "map_pages P alloc pages (mapper s, frame_alloc s) = (Ret (Ok ()), (pt', advance alloc k (frame_alloc s)))"
    "length ks = length pages" "sorted_wrt (<) ks" "list_all (\<lambda>j. j < 4 * length pages) ks"
    "\<forall>i < length pages. xlate pt' (pages ! i) = Ok (nth_frame alloc (frame_alloc s) (ks ! i))"
    using map_pages_ok [OF f(1,4) assms(1), of alloc "frame_alloc s"] hf by blast
  show ?thesis
    by (rule that [of "s\<lparr>mapper := pt', frame_alloc := advance alloc k (frame_alloc s), ALLOCATOR := a\<rparr>" ks])
      (use m assms(2,4) f(2) in \<open>simp_all add: init_heap_def io_bind_def io_try_def\<close>)
qed

lemma has_frames_allocate:
  assumes "map_ok m" and "memory_map fa = m" and "unat (next_frame fa) + n \<le> length (frame_addresses m)"
  shows "has_frames (allocate_frame oc P) n fa"
    and "k < n \<Longrightarrow> nth_frame (allocate_frame oc P) fa k = frame_addresses m ! (unat (next_frame fa) + k)"
proof -
  have "is_frame (frame_addresses m ! (unat (next_frame fa) + k))" if k: "k < n" for k
  proof -
    have "frame_addresses m ! (unat (next_frame fa) + k) \<in> set (frame_addresses m)" using k assms(3) by simp
    then show ?thesis by (rule frame_addresses_frames [OF assms(1)])
  qed
  then show "has_frames (allocate_frame oc P) n fa" using allocate_nth [OF assms] by (simp add: has_frames_def)
  show "k < n \<Longrightarrow> nth_frame (allocate_frame oc P) fa k = frame_addresses m ! (unat (next_frame fa) + k)"
    using allocate_nth [OF assms, of k oc] by (simp add: nth_frame_def)
qed

end

section \<open>Reference page tables\<close>

text \<open>
  Tables in which every inner entry is present: the frame of a table of the tree encodes its level and
  the indices on the way to it, and the last level looks the page up in a function. They meet the
  contract for every offset of the physical memory.
\<close>

definition enc :: "nat \<Rightarrow> nat \<Rightarrow> u64" where
  "enc level path = of_nat ((level * 2 ^ 27 + path) * 4096)"

definition checked_frame :: "u64 option \<Rightarrow> (u64, FrameError) result" where
  "checked_frame g = (case g of Some f \<Rightarrow> if is_frame f then Ok f else Err FrameNotPresent | None \<Rightarrow> Err FrameNotPresent)"

definition ref_ent :: "(nat \<Rightarrow> u64 option) \<Rightarrow> u64 \<Rightarrow> nat \<Rightarrow> (u64, FrameError) result" where
  "ref_ent pt f i =
     (let n = unat f div 4096; level = n div 2 ^ 27; path = n mod 2 ^ 27
      in checked_frame (if level < 3 then Some (enc (Suc level) (path * 512 + i)) else pt (path * 512 + i)))"

definition ref_paging :: "u64 \<Rightarrow> (nat \<Rightarrow> u64 option, 'fa) paging_ops" where
  "ref_paging off =
     \<lparr>phys_addr_new = (\<lambda>a. if unat a < 2 ^ 52 then Ret a else Panic ''physical address must not have any set bits in positions 52 to 64''),
      phys_add = (\<lambda>a b. Ret (a + b)), frame_containing = page_start, virt_addr_new = Ret, virt_add = (\<lambda>a b. Ret (a + b)),
      virt_sub = (\<lambda>a b. Ret (a - b)), page_containing = page_start,
      page_range_inclusive = (\<lambda>p q. map of_nat (step_range (unat p) (Suc (unat q)))),
      table_index = (\<lambda>level a. page_indices a ! (4 - level)), page_offset = (\<lambda>a. of_nat (unat a mod 4096)),
      cr3_read = (\<lambda>pt. 0), entry_frame = (\<lambda>pt v i. ref_ent pt (v - off) i),
      map_to = (\<lambda>alloc p f fl (pt, fa). case checked_frame (pt (unat p div 4096)) of
          Err _ \<Rightarrow> (Ret (Ok ()), (pt(unat p div 4096 := Some f), fa))
        | Ok _ \<Rightarrow> (Ret (Err PageAlreadyMapped), (pt, fa)))\<rparr>"

lemma unat_enc:
  assumes "level \<le> 3" and "path < 2 ^ 27"
  shows "unat (enc level path) = (level * 2 ^ 27 + path) * 4096" and "is_frame (enc level path)"
proof -
  have "(level * 2 ^ 27 + path) * 4096 < 2 ^ 52" using assms by simp
  then show u: "unat (enc level path) = (level * 2 ^ 27 + path) * 4096"
    unfolding enc_def by (intro of_nat_inverse [OF refl]) simp
  show "is_frame (enc level path)" using \<open>_ < 2 ^ 52\<close> unfolding is_frame_def u by simp
qed

lemma ref_ent_enc:
  assumes "level \<le> 3" and "path < 2 ^ 27"
  shows "ref_ent pt (enc level path) i = checked_frame (if level < 3 then Some (enc (level + 1) (path * 512 + i)) else pt (path * 512 + i))"
  using assms by (simp add: ref_ent_def unat_enc)

lemma ref_ent_inner:
  assumes "level < 3" and "path * 512 + i < 2 ^ 27"
  shows "ref_ent pt (enc level path) i = Ok (enc (level + 1) (path * 512 + i))"
  using assms ref_ent_enc [of level path pt i] unat_enc(2) [of "level + 1" "path * 512 + i"] by (simp add: checked_frame_def)

lemma ref_walk:
  assumes "unat a < 2 ^ 48"
  shows "walk (ref_ent pt) 0 (page_indices a) = checked_frame (pt (unat a div 4096))"
proof -
  let ?x = "unat a"
  have d: "?x div 2 ^ 39 = ?x div 2 ^ 30 div 512" "?x div 2 ^ 30 = ?x div 2 ^ 21 div 512" "?x div 2 ^ 21 = ?x div 2 ^ 12 div 512"
    by (simp_all add: div_mult2_eq [symmetric])
  have e: "?x div 2 ^ 39 * 512 + ?x div 2 ^ 30 mod 512 = ?x div 2 ^ 30" "?x div 2 ^ 30 * 512 + ?x div 2 ^ 21 mod 512 = ?x div 2 ^ 21"
    "?x div 2 ^ 21 * 512 + ?x div 2 ^ 12 mod 512 = ?x div 2 ^ 12"
    unfolding d by (simp_all only: div_mult_mod_eq)
  have b: "?x div 2 ^ 39 < 512" "?x div 2 ^ 30 < 2 ^ 18" "?x div 2 ^ 21 < 2 ^ 27" using assms by (simp_all add: div_less_iff_less_mult)
  have m: "?x div 2 ^ 39 mod 512 = ?x div 2 ^ 39" using b(1) by simp
  have "ref_ent pt 0 (?x div 2 ^ 39) = Ok (enc 1 (?x div 2 ^ 39))"
    using ref_ent_inner [of 0 0 "?x div 2 ^ 39" pt] b(1) by (simp add: enc_def)
  moreover have "ref_ent pt (enc 1 (?x div 2 ^ 39)) (?x div 2 ^ 30 mod 512) = Ok (enc 2 (?x div 2 ^ 30))"
    using ref_ent_inner [of 1 "?x div 2 ^ 39" "?x div 2 ^ 30 mod 512" pt] b(2) unfolding e by (simp only: one_add_one) simp
  moreover have "ref_ent pt (enc 2 (?x div 2 ^ 30)) (?x div 2 ^ 21 mod 512) = Ok (enc 3 (?x div 2 ^ 21))"
    using ref_ent_inner [of 2 "?x div 2 ^ 30" "?x div 2 ^ 21 mod 512" pt] b(3) unfolding e by simp
  moreover have "ref_ent pt (enc 3 (?x div 2 ^ 21)) (?x div 2 ^ 12 mod 512) = checked_frame (pt (?x div 2 ^ 12))"
    using ref_ent_enc [OF _ b(3), of 3 pt "?x div 2 ^ 12 mod 512"] unfolding e by simp
  ultimately show ?thesis
    unfolding page_indices_def m walk.simps by (simp only: result.case) (simp split: result.split)
qed

lemma checked_frame_Ok: "checked_frame g = Ok f \<Longrightarrow> is_frame f"
  by (auto simp: checked_frame_def split: option.splits if_splits)

lemma ref_map_to:
  assumes "page_start p = p" and "unat p < 2 ^ 48" and "is_frame f" and "walk (ref_ent pt) 0 (page_indices p) = Err FrameNotPresent"
  shows "\<exists>pt'. map_to (ref_paging off) alloc p f fl (pt, fa) = (Ret (Ok ()), (pt', fa)) \<and>
    walk (ref_ent pt') 0 (page_indices p) = Ok f \<and>
    (\<forall>a. unat a < 2 ^ 48 \<longrightarrow> page_start a \<noteq> p \<longrightarrow> walk (ref_ent pt') 0 (page_indices a) = walk (ref_ent pt) 0 (page_indices a))"
proof -
  let ?pt = "pt(unat p div 4096 := Some f)"
  have "checked_frame (pt (unat p div 4096)) = Err FrameNotPresent" using assms(4) by (simp add: ref_walk [OF assms(2)])
  then have "map_to (ref_paging off) alloc p f fl (pt, fa) = (Ret (Ok ()), (?pt, fa))" by (simp add: ref_paging_def)
  moreover have "walk (ref_ent ?pt) 0 (page_indices p) = Ok f"
    using assms(3) by (simp add: ref_walk [OF assms(2)] checked_frame_def)
  moreover have "walk (ref_ent ?pt) 0 (page_indices a) = walk (ref_ent pt) 0 (page_indices a)"
    if "unat a < 2 ^ 48" "page_start a \<noteq> p" for a
  proof -
    have "unat a div 4096 \<noteq> unat p div 4096" using that(2) assms(1) by (auto simp: page_start_def)
    then show ?thesis by (simp add: ref_walk [OF that(1)])
  qed
  ultimately show ?thesis by blast
qed

interpretation ref_pg: paging_spec "ref_paging off" ref_ent off
proof
  fix p f alloc fa pt fl
  assume "page_start p = p" "unat p < 2 ^ 48" "is_frame f" "has_frames alloc 3 fa"
    "walk (ref_ent pt) (cr3_read (ref_paging off) pt) (page_indices p) = Err FrameNotPresent"
  then have "\<exists>pt'. map_to (ref_paging off) alloc p f fl (pt, fa) = (Ret (Ok ()), (pt', fa)) \<and>
      walk (ref_ent pt') 0 (page_indices p) = Ok f \<and>
      (\<forall>a. unat a < 2 ^ 48 \<longrightarrow> page_start a \<noteq> p \<longrightarrow> walk (ref_ent pt') 0 (page_indices a) = walk (ref_ent pt) 0 (page_indices a))"
    by (intro ref_map_to) (simp_all add: ref_paging_def)
  then show "\<exists>k pt'. k \<le> 3 \<and> map_to (ref_paging off) alloc p f fl (pt, fa) = (Ret (Ok ()), (pt', advance alloc k fa)) \<and>
      walk (ref_ent pt') (cr3_read (ref_paging off) pt') (page_indices p) = Ok f \<and>
      (\<forall>a. unat a < 2 ^ 48 \<longrightarrow> page_start a \<noteq> p \<longrightarrow>
        walk (ref_ent pt') (cr3_read (ref_paging off) pt') (page_indices a) = walk (ref_ent pt) (cr3_read (ref_paging off) pt) (page_indices a))"
    by (intro exI [of _ 0]) (simp add: ref_paging_def)
next
  fix pt f i g
  assume "ref_ent pt f i = Ok g"
  then show "is_frame g" by (simp add: ref_ent_def Let_def checked_frame_Ok)
qed (simp_all add: ref_paging_def page_indices_def is_frame_def)

section \<open>Too few frames\<close>

text \<open>\<open>map_to\<close> returns an error when it cannot go on; what it takes from the allocator it takes by calling it.\<close>

locale paging_returns = paging_spec P ent offset
  for P :: "('pt, 'fa) paging_ops" and ent :: "'pt \<Rightarrow> u64 \<Rightarrow> nat \<Rightarrow> (u64, FrameError) result" and offset :: u64 +
  assumes map_to_returns: "page_start p = p \<Longrightarrow> unat p < 2 ^ 48 \<Longrightarrow> is_frame f \<Longrightarrow> (\<And>j. j \<le> 3 \<Longrightarrow> \<exists>r. fst (alloc (advance alloc j fa)) = Ret r) \<Longrightarrow>
      \<exists>k r pt'. k \<le> 3 \<and> map_to P alloc p f fl (pt, fa) = (Ret r, (pt', advance alloc k fa))"

interpretation ref_pgr: paging_returns "ref_paging off" ref_ent off
proof
  fix p f alloc fa pt fl
  show "\<exists>k r pt'. k \<le> 3 \<and> map_to (ref_paging off) alloc p f fl (pt, fa) = (Ret r, (pt', advance alloc k fa))"
    by (intro exI [of _ 0]) (simp add: ref_paging_def split: result.split)
qed

lemma map_pages_short:
  assumes "paging_returns P ent offset" and "map_ok m" and "memory_map fa = m" and "list_all is_page pages" and "pages \<noteq> []"
    and "unat (next_frame fa) + 4 * length pages < 2 ^ 63" and "length (frame_addresses m) < unat (next_frame fa) + length pages"
  shows "\<exists>e pt' fa'. map_pages P (allocate_frame oc P) pages (pt, fa) = (Ret (Err e), (pt', fa'))"
  using assms(3-7)
proof (induction pages arbitrary: fa pt)
  case Nil
  then show ?case by simp
next
  case (Cons p pages)
  have sp: "paging_spec P ent offset" using assms(1) by (simp add: paging_returns_def)
  let ?n = "unat (next_frame fa)" and ?al = "allocate_frame oc P" and ?L = "frame_addresses m"
  let ?fa = "fa\<lparr>next_frame := next_frame fa + 1\<rparr>"
  have l: "?n < 2 ^ 63" using Cons.prems(4) by simp
  note a = paging_spec.allocate_frame_eq [OF sp assms(2) Cons.prems(1) l, of oc]
  have n1: "unat (next_frame ?fa) = ?n + 1" using Cons.prems(4) unat_add_nowrap [of "next_frame fa" 1] by simp
  show ?case
  proof (cases "?n < length ?L")
    case False
    then show ?thesis using a by (simp add: io_bind_def)
  next
    case True
    have adv: "memory_map (advance ?al j ?fa) = m" "unat (next_frame (advance ?al j ?fa)) = ?n + 1 + j" if "j \<le> 3" for j
      using paging_spec.advance_allocate [OF sp assms(2), of ?fa j oc] Cons.prems(1,4) n1 that by simp_all
    have ret: "\<exists>r. fst (?al (advance ?al j ?fa)) = Ret r" if "j \<le> 3" for j
      using paging_spec.allocate_frame_eq [OF sp assms(2) adv(1) [OF that], of oc] adv(2) [OF that] Cons.prems(4) that by simp
    have p: "page_start p = p" "unat p < 2 ^ 48" "is_frame (?L ! ?n)"
      using Cons.prems(2) True frame_addresses_frames [OF assms(2), of "?L ! ?n"] by (auto simp: is_page_def)
    obtain k r pt' where k: "k \<le> 3" "map_to P ?al p (?L ! ?n) (PRESENT OR WRITABLE) (pt, ?fa) = (Ret r, (pt', advance ?al k ?fa))"
      using paging_returns.map_to_returns [OF assms(1) p, of ?al ?fa "PRESENT OR WRITABLE" pt] ret by blast
    show ?thesis
    proof (cases r)
      case (Err e)
      then show ?thesis using a True k(2) by (simp add: io_bind_def io_try_def)
    next
      case (Ok u)
      have ne: "pages \<noteq> []" using True Cons.prems(5) by auto
      have "\<exists>e pt'' fa'. map_pages P ?al pages (pt', advance ?al k ?fa) = (Ret (Err e), (pt'', fa'))"
        by (rule Cons.IH) (use adv [OF k(1)] Cons.prems k(1) ne in simp_all)
      then show ?thesis using a True k(2) Ok by (simp add: io_bind_def io_try_def)
    qed
  qed
qed

text \<open>With fewer frames than the heap has pages \<open>init_heap\<close> fails and leaves the allocator as it was.\<close>

lemma init_heap_short:
  assumes "paging_returns P ent offset" and "map_ok m" and "length (frame_addresses m) < 25" and "frame_alloc s = BootInfoFrameAllocator_init m"
  shows "\<exists>e pt fa. init_heap P (allocate_frame oc P) h s = (Ret (Err e), s\<lparr>mapper := pt, frame_alloc := fa\<rparr>)"
proof -
  have sp: "paging_spec P ent offset" using assms(1) by (simp add: paging_returns_def)
  obtain pages where p: "heap_pages P = Ret pages" using paging_spec.heap_pages_eq [OF sp] by blast
  note f = paging_spec.heap_pages_facts [OF sp p]
  have "pages \<noteq> []" using f(2) by auto
  then have "\<exists>e pt' fa'. map_pages P (allocate_frame oc P) pages (mapper s, frame_alloc s) = (Ret (Err e), (pt', fa'))"
    using f(2,4) assms(3,4) by (intro map_pages_short [OF assms(1,2)]) (simp_all add: BootInfoFrameAllocator_init_def)
  then obtain e pt fa where "map_pages P (allocate_frame oc P) pages (mapper s, frame_alloc s) = (Ret (Err e), (pt, fa))" by blast
  then show ?thesis using p by (intro exI [of _ e] exI [of _ pt] exI [of _ fa]) (simp add: init_heap_def io_bind_def io_try_def)
qed

section \<open>Properties\<close>

text \<open>A machine with one usable region of 200 frames above a reserved one.\<close>

definition small_map :: "MemoryRegion list" where
  "small_map = [\<lparr>region_start = 0, region_end = 0x100000, region_type = OtherRegion 1\<rparr>,
     \<lparr>region_start = 0x100000, region_end = 0x1C8000, region_type = Usable\<rparr>]"

definition small_paging :: "(nat \<Rightarrow> u64 option, BootInfoFrameAllocator) paging_ops" where
  "small_paging = ref_paging 0xF00000000000"

lemma small_map_ok: "map_ok small_map"
  by (simp add: map_ok_def small_map_def region_ok_def)

lemma small_map_frames: "length (frame_addresses small_map) = 200"
  by (simp add: small_map_def frame_addresses_def region_frames_def step_range_length)

lemma small_paging_spec: "paging_spec small_paging ref_ent 0xF00000000000"
  unfolding small_paging_def by (rule ref_pg.paging_spec_axioms)





lemma init_heap_translates:
  assumes "paging_spec P ent offset" and "map_ok m" and "frame_alloc s = \<lparr>memory_map = m, next_frame = n\<rparr>"
    and "unat n + 100 \<le> length (frame_addresses m)"
    and "\<forall>a. heap_addr a \<longrightarrow> translate_addr P a offset (mapper s) = Ret None"
    and "fsb_init h HEAP_START HEAP_SIZE (ALLOCATOR s) = (Ret (), alloc')"
  shows "\<exists>s' g. init_heap P (allocate_frame oc P) h s = (Ret (Ok ()), s') \<and> ALLOCATOR s' = alloc' \<and>
    (\<forall>a. heap_addr a \<longrightarrow> translate_addr P a offset (mapper s') = Ret (Some (g (page_start a) + of_nat (unat a mod 4096))) \<and>
       g (page_start a) \<in> set (frame_addresses m)) \<and>
    (\<forall>a b. heap_addr a \<longrightarrow> heap_addr b \<longrightarrow> g (page_start a) = g (page_start b) \<longrightarrow> page_start a = page_start b)"
proof -
  let ?al = "allocate_frame oc P" and ?fa = "frame_alloc s"
  obtain pages where pages: "heap_pages P = Ret pages" using paging_spec.heap_pages_eq [OF assms(1)] by blast
  note f = paging_spec.heap_pages_facts [OF assms(1) pages]
  have fa: "memory_map ?fa = m" "unat (next_frame ?fa) + 100 \<le> length (frame_addresses m)" using assms(3,4) by simp_all
  note h = paging_spec.has_frames_allocate [OF assms(1,2) fa]
  have "list_all (\<lambda>p. walk (ent (mapper s)) (cr3_read P (mapper s)) (page_indices p) = Err FrameNotPresent) pages"
    unfolding list_all_iff using assms(5) f(3) paging_spec.translate_None [OF assms(1)] by blast
  then obtain s' ks where s': "init_heap P ?al h s = (Ret (Ok ()), s')" "ALLOCATOR s' = alloc'"
    and ks: "length ks = 25" "sorted_wrt (<) ks" "list_all (\<lambda>j. j < 100) ks"
    and x: "\<forall>i < 25. walk (ent (mapper s')) (cr3_read P (mapper s')) (page_indices (pages ! i)) = Ok (nth_frame ?al ?fa (ks ! i))"
    by (rule paging_spec.init_heap_ok [OF assms(1) _ pages h(1) assms(6)])
  define g where "g p = (case walk (ent (mapper s')) (cr3_read P (mapper s')) (page_indices p) of Ok q \<Rightarrow> q | Err e \<Rightarrow> 0)" for p
  have g: "g (pages ! i) = frame_addresses m ! (unat (next_frame ?fa) + ks ! i)" "ks ! i < 100" if "i < 25" for i
    using x h(2) [of "ks ! i" oc] ks(1,3) that by (simp_all add: g_def list_all_length)
  have page: "\<exists>i < 25. page_start a = pages ! i" if "heap_addr a" for a
  proof -
    have "page_start a \<in> set pages"
      unfolding f(3) using that by (simp add: heap_addr_def unat_page_start heap_bounds) linarith
    then show ?thesis using f(2) by (auto simp: in_set_conv_nth)
  qed
  have tr: "translate_addr P a offset (mapper s') = Ret (Some (g (page_start a) + of_nat (unat a mod 4096)))" if "heap_addr a" for a
    using page [OF that] x page_indices_start [of a] by (auto simp: paging_spec.translate_addr_eq [OF assms(1)] g_def)
  have pos: "unat (next_frame ?fa) + ks ! i < length (frame_addresses m)" if "i < 25" for i
    using g(2) [OF that] fa(2) by linarith
  have inj: "page_start a = page_start b" if a: "heap_addr a" and b: "heap_addr b" and e: "g (page_start a) = g (page_start b)" for a b
  proof -
    obtain i where i: "i < 25" "page_start a = pages ! i" using page [OF a] by blast
    obtain j where j: "j < 25" "page_start b = pages ! j" using page [OF b] by blast
    have "ks ! i = ks ! j"
      using e nth_eq_iff_index_eq [OF distinct_frame_addresses [OF assms(2)] pos [OF i(1)] pos [OF j(1)]]
      by (simp add: i(2) j(2) g(1) [OF i(1)] g(1) [OF j(1)])
    moreover have "distinct ks" using ks(2) by (simp add: strict_sorted_iff)
    ultimately show ?thesis using ks(1) i j by (simp add: nth_eq_iff_index_eq)
  qed
  have "g (page_start a) \<in> set (frame_addresses m)" if a: "heap_addr a" for a
  proof -
    obtain i where i: "i < 25" "page_start a = pages ! i" using page [OF a] by blast
    then show ?thesis using nth_mem [OF pos [OF i(1)]] g(1) [OF i(1)] by simp
  qed
  then show ?thesis using s' tr inj by (intro exI [of _ s'] exI [of _ g]) blast
qed

text \<open>The heap of the reference allocator, and page tables in which nothing is mapped.\<close>

lemma small_heap_init:
  obtains h0 where "heap_init (ll_heap_ops True) HEAP_START HEAP_SIZE (heap_empty (ll_heap_ops True)) = (Ret (), h0)"
    and "fsb_init (ll_heap_ops True) HEAP_START HEAP_SIZE (FixedSizeBlockAllocator_new (ll_heap_ops True) (\<lambda>_. None)) =
      (Ret (), (FixedSizeBlockAllocator_new (ll_heap_ops True) (\<lambda>_. None))\<lparr>fallback_allocator := h0\<rparr>)"
proof -
  have "8 dvd unat HEAP_START" "0 < unat HEAP_START" "16 \<le> unat HEAP_SIZE" "unat HEAP_START + unat HEAP_SIZE \<le> 2 ^ 63"
    by (simp_all add: heap_bounds)
  from ll_init_inv [OF this, of True "\<lambda>_. ListNode_new 0"] obtain h0 where
    h0: "heap_init (ll_heap_ops True) HEAP_START HEAP_SIZE (heap_empty (ll_heap_ops True)) = (Ret (), h0)"
    by (auto simp: ll_heap_ops_def)
  then show ?thesis by (rule that) (use h0 in \<open>simp add: fsb_init_def on_fallback_def FixedSizeBlockAllocator_new_def\<close>)
qed

lemma small_heap_box:
  obtains h0 p h1 where "heap_init (ll_heap_ops True) HEAP_START HEAP_SIZE (heap_empty (ll_heap_ops True)) = (Ret (), h0)"
    and "heap_allocate_first_fit (ll_heap_ops True) (block_layout 0) h0 = (Ret (Ok p), h1)" and "p \<noteq> 0"
proof -
  have b: "8 dvd unat HEAP_START" "0 < unat HEAP_START" "16 \<le> unat HEAP_SIZE" "unat HEAP_START + unat HEAP_SIZE \<le> 2 ^ 63"
    by (simp_all add: heap_bounds)
  let ?s = "LinkedListAllocator_new (\<lambda>_. ListNode_new 0)"
  have "region_list (ll_mem ?s) (node_next (ll_head ?s)) []" by (simp add: LinkedListAllocator_new_def ListNode_new_def)
  from add_free_region_effect [OF this b(1,3), of True] obtain h0 where
    h0: "add_free_region True HEAP_START HEAP_SIZE ?s = (Ret (), h0)" "region_list (ll_mem h0) (node_next (ll_head h0)) [(HEAP_START, HEAP_SIZE)]"
    by auto
  have inv: "regions_inv (unat HEAP_START) (unat HEAP_START + unat HEAP_SIZE) [(HEAP_START, HEAP_SIZE)] []"
    using b by (auto simp: regions_inv_def Linked_List.region_ok_def)
  have acc: "ll_accepts (block_layout 0)" using ll_accepts_block by simp
  have "\<exists>p h1. ll_alloc True (block_layout 0) h0 = (Ret p, h1) \<and> p \<noteq> 0"
  proof (cases rule: ll_alloc_cases [OF h0(2) inv acc, of True, case_names none some])
    case (none sz al)
    have "size_align (block_layout 0) = Ret (16, 8)"
      by (simp add: size_align_def block_layout_def BLOCK_SIZES_def layout_align_to_def from_size_align_def layout_valid_def is_power_of_two_def
        LIST_NODE_ALIGN_def LIST_NODE_SIZE_def pad_to_align_def max_def upt_rec)
    then have "alloc_from_region True HEAP_START HEAP_SIZE 16 8 = Ret (Err ())" using none by (simp add: misfits_def)
    then have False by (simp add: alloc_from_region_def HEAP_START_def HEAP_SIZE_def checked_add_def end_addr_def add_oc_def sub_oc_def LIST_NODE_SIZE_def)
    then show ?thesis ..
  next
    case (some sz al pre r post a s')
    then show ?thesis using b(2) by (auto simp: ll_block_ok_def)
  qed
  then show ?thesis using that h0(1) by (auto simp: ll_heap_ops_def ll_init_def io_bind_def)
qed

lemma small_unmapped: "heap_addr a \<Longrightarrow> translate_addr small_paging a 0xF00000000000 (\<lambda>_. None) = Ret None"
proof -
  assume "heap_addr a"
  then have "unat a < 2 ^ 48" by (simp add: heap_addr_def heap_bounds)
  then show ?thesis
    using ref_walk [of a "\<lambda>_. None"] ref_pg.translate_addr_eq [of "0xF00000000000" a "\<lambda>_. None"]
    by (simp add: checked_frame_def small_paging_def ref_paging_def)
qed



end
