(* ===== verification/Task.thy ===== *)
theory Task
  imports Crates "HOL-Library.RBT_Mapping"
begin

text \<open>
  \<open>src/task/mod.rs\<close>, \<open>src/task/executor.rs\<close> and \<open>src/task/simple_executor.rs\<close>: tasks and the two
  executors. Both executors run any \<open>Future\<close>, so what a poll does is a parameter: from the future and
  the state \<^typ>\<open>'w\<close> of the rest of the kernel it gives the result, the next state of the future, the
  wakers called meanwhile (by the future or by interrupt handlers that ran during the poll) and the
  new state of the kernel. A \<open>BTreeMap\<close> is a \<open>mapping\<close>; the task queue that the executor and its
  wakers share through an \<open>Arc\<close> is one field of the state.
\<close>

section \<open>Tasks\<close>

datatype TaskId = TaskId u64

instantiation TaskId :: linorder
begin

fun less_eq_TaskId :: "TaskId \<Rightarrow> TaskId \<Rightarrow> bool" where
  "less_eq_TaskId (TaskId a) (TaskId b) \<longleftrightarrow> a \<le> b"

fun less_TaskId :: "TaskId \<Rightarrow> TaskId \<Rightarrow> bool" where
  "less_TaskId (TaskId a) (TaskId b) \<longleftrightarrow> a < b"

instance
proof
  fix x y z :: TaskId
  show "x < y \<longleftrightarrow> x \<le> y \<and> \<not> y \<le> x" by (cases x; cases y) auto
  show "x \<le> x" by (cases x) simp
  show "x \<le> y \<Longrightarrow> y \<le> z \<Longrightarrow> x \<le> z" by (cases x; cases y; cases z) simp
  show "x \<le> y \<Longrightarrow> y \<le> x \<Longrightarrow> x = y" by (cases x; cases y) simp
  show "x \<le> y \<or> y \<le> x" by (cases x; cases y) auto
qed

end

text \<open>\<open>NEXT_ID\<close> is passed in and returned; \<open>fetch_add\<close> wraps around.\<close>

definition TaskId_new :: "u64 \<Rightarrow> TaskId \<times> u64" where
  "TaskId_new next_id = (TaskId next_id, next_id + 1)"

record 'f Task =
  task_id :: TaskId
  future :: 'f

definition Task_new :: "'f \<Rightarrow> u64 \<Rightarrow> 'f Task \<times> u64" where
  "Task_new f next_id = (case TaskId_new next_id of (tid, n) \<Rightarrow> (\<lparr>task_id = tid, future = f\<rparr>, n))"

section \<open>The executor\<close>

record TaskWaker =
  waker_id :: TaskId

definition TaskWaker_new :: "TaskId \<Rightarrow> TaskWaker" where
  "TaskWaker_new tid = \<lparr>waker_id = tid\<rparr>"

record ('f, 'q) Executor =
  tasks :: "(TaskId, 'f Task) mapping"
  task_queue :: 'q
  waker_cache :: "(TaskId, TaskWaker) mapping"

record ('f, 'q, 'c, 'w) exec_state = "('f, 'q) Executor" +
  exec_cpu :: 'c
  world :: 'w

record ('f, 'q, 'c, 'w) exec_env =
  ex_queue :: "(TaskId, 'q) array_queue"
  ex_irq :: "'c irq_ops"
  ex_poll :: "TaskWaker \<Rightarrow> 'f \<Rightarrow> 'w \<Rightarrow> (('f \<times> unit poll) outcome \<times> TaskWaker list) \<times> 'w"
  ex_interrupts :: "'w \<Rightarrow> TaskWaker list \<times> 'w"

definition Executor_new :: "(TaskId, 'q) array_queue \<Rightarrow> ('f, 'q) Executor" where
  "Executor_new Q = \<lparr>tasks = Mapping.empty, task_queue = aq_new Q 100, waker_cache = Mapping.empty\<rparr>"

definition spawn ::
  "('f, 'q, 'c, 'w) exec_env \<Rightarrow> 'f Task \<Rightarrow> (('f, 'q, 'c, 'w) exec_state, unit) io" where
  "spawn E task s =
     (let tid = task_id task;
          previous = Mapping.lookup (tasks s) tid;
          s = s\<lparr>tasks := Mapping.update tid task (tasks s)\<rparr>
      in if previous \<noteq> None then (Panic ''task with same ID already in tasks!'', s)
         else (case aq_push (ex_queue E) tid (task_queue s) of
             (Ok _, q) \<Rightarrow> (Ret (), s\<lparr>task_queue := q\<rparr>)
           | (Err _, q) \<Rightarrow> (Panic ''queue full'', s\<lparr>task_queue := q\<rparr>)))"

definition wake_task ::
  "('f, 'q, 'c, 'w) exec_env \<Rightarrow> TaskWaker \<Rightarrow> (('f, 'q, 'c, 'w) exec_state, unit) io" where
  "wake_task E waker s =
     (case aq_push (ex_queue E) (waker_id waker) (task_queue s) of
       (Ok _, q) \<Rightarrow> (Ret (), s\<lparr>task_queue := q\<rparr>)
     | (Err _, q) \<Rightarrow> (Panic ''task_queue full'', s\<lparr>task_queue := q\<rparr>))"

text \<open>\<open>wake\<close> and \<open>wake_by_ref\<close> both call \<open>wake_task\<close>; several wakers are called one after the other.\<close>

fun wake_all ::
  "('f, 'q, 'c, 'w) exec_env \<Rightarrow> TaskWaker list \<Rightarrow> (('f, 'q, 'c, 'w) exec_state, unit) io" where
  "wake_all E [] = io_ret ()"
| "wake_all E (waker # wakers) = io_bind (wake_task E waker) (\<lambda>_. wake_all E wakers)"

text \<open>The interrupts that arrive at a point of the executor where they are enabled.\<close>

definition deliver ::
  "('f, 'q, 'c, 'w) exec_env \<Rightarrow> (('f, 'q, 'c, 'w) exec_state, unit) io" where
  "deliver E s =
     (if are_enabled (ex_irq E) (exec_cpu s)
      then (case ex_interrupts E (world s) of (wakers, w) \<Rightarrow> wake_all E wakers (s\<lparr>world := w\<rparr>))
      else (Ret (), s))"

text \<open>One turn of the loop of \<open>run_ready_tasks\<close>; the result says whether the loop goes on.\<close>

definition finish_poll ::
  "TaskId \<Rightarrow> 'f Task \<Rightarrow> ('f \<times> unit poll) outcome \<Rightarrow> (('f, 'q, 'c, 'w) exec_state, bool) io" where
  "finish_poll tid task r s = (case r of
       Ret (f, Ready _) \<Rightarrow> (Ret True, s\<lparr>tasks := Mapping.delete tid (tasks s), waker_cache := Mapping.delete tid (waker_cache s)\<rparr>)
     | Ret (f, Pending) \<Rightarrow> (Ret True, s\<lparr>tasks := Mapping.update tid (task\<lparr>future := f\<rparr>) (tasks s)\<rparr>)
     | Panic e \<Rightarrow> (Panic e, s)
     | Hang \<Rightarrow> (Hang, s))"

definition cached_waker :: "TaskId \<Rightarrow> (TaskId, TaskWaker) mapping \<Rightarrow> TaskWaker \<times> (TaskId, TaskWaker) mapping" where
  "cached_waker tid cache = (case Mapping.lookup cache tid of
       Some waker \<Rightarrow> (waker, cache)
     | None \<Rightarrow> (TaskWaker_new tid, Mapping.update tid (TaskWaker_new tid) cache))"

definition poll_task ::
  "('f, 'q, 'c, 'w) exec_env \<Rightarrow> TaskId \<Rightarrow> 'f Task \<Rightarrow> (('f, 'q, 'c, 'w) exec_state, bool) io" where
  "poll_task E tid task s =
     (case cached_waker tid (waker_cache s) of (waker, cache) \<Rightarrow>
      case ex_poll E waker (future task) (world s) of ((r, wakers), w) \<Rightarrow>
        io_bind (wake_all E wakers) (\<lambda>_. finish_poll tid task r) (s\<lparr>waker_cache := cache, world := w\<rparr>))"

definition run_ready_step ::
  "('f, 'q, 'c, 'w) exec_env \<Rightarrow> (('f, 'q, 'c, 'w) exec_state, bool) io" where
  "run_ready_step E =
     io_bind (deliver E) (\<lambda>_ s.
     case aq_pop (ex_queue E) (task_queue s) of
       (None, q) \<Rightarrow> (Ret False, s\<lparr>task_queue := q\<rparr>)
     | (Some tid, q) \<Rightarrow>
         (case Mapping.lookup (tasks s) tid of
            None \<Rightarrow> (Ret True, s\<lparr>task_queue := q\<rparr>)
          | Some task \<Rightarrow> poll_task E tid task (s\<lparr>task_queue := q\<rparr>)))"

text \<open>The loop itself need not end; \<^const>\<open>None\<close> is a loop that runs forever.\<close>

partial_function (option) run_ready_tasks ::
  "('f, 'q, 'c, 'w) exec_env \<Rightarrow> ('f, 'q, 'c, 'w) exec_state \<Rightarrow> (unit outcome \<times> ('f, 'q, 'c, 'w) exec_state) option" where
  "run_ready_tasks E s = (case run_ready_step E s of
       (Ret continue, s') \<Rightarrow> if continue then run_ready_tasks E s' else Some (Ret (), s')
     | (Panic e, s') \<Rightarrow> Some (Panic e, s')
     | (Hang, s') \<Rightarrow> Some (Hang, s'))"

text \<open>\<open>sleep_if_idle\<close> returns whether it halted the processor.\<close>

definition sleep_if_idle ::
  "('f, 'q, 'c, 'w) exec_env \<Rightarrow> (('f, 'q, 'c, 'w) exec_state, bool) io" where
  "sleep_if_idle E =
     io_bind (deliver E) (\<lambda>_ s.
     let s = s\<lparr>exec_cpu := irq_disable (ex_irq E) (exec_cpu s)\<rparr>
     in (Ret (aq_is_empty (ex_queue E) (task_queue s)), s\<lparr>exec_cpu := irq_enable (ex_irq E) (exec_cpu s)\<rparr>))"

partial_function (option) run_until_idle ::
  "('f, 'q, 'c, 'w) exec_env \<Rightarrow> ('f, 'q, 'c, 'w) exec_state \<Rightarrow> (unit outcome \<times> ('f, 'q, 'c, 'w) exec_state) option" where
  "run_until_idle E s = (case run_ready_tasks E s of
       None \<Rightarrow> None
     | Some (Panic e, s1) \<Rightarrow> Some (Panic e, s1)
     | Some (Hang, s1) \<Rightarrow> Some (Hang, s1)
     | Some (Ret _, s1) \<Rightarrow>
         (if \<not> aq_is_empty (ex_queue E) (task_queue s1) then run_until_idle E s1
          else if Mapping.is_empty (tasks s1)
          then Some (Ret (), s1\<lparr>exec_cpu := irq_enable (ex_irq E) (exec_cpu s1)\<rparr>)
          else (case deliver E (s1\<lparr>exec_cpu := irq_enable (ex_irq E) (exec_cpu s1)\<rparr>) of
              (Ret _, s2) \<Rightarrow> run_until_idle E (s2\<lparr>exec_cpu := irq_disable (ex_irq E) (exec_cpu s2)\<rparr>)
            | (Panic e, s2) \<Rightarrow> Some (Panic e, s2)
            | (Hang, s2) \<Rightarrow> Some (Hang, s2))))"

text \<open>The first turns of the endless loop \<open>run\<close>.\<close>

primrec run_turns ::
  "('f, 'q, 'c, 'w) exec_env \<Rightarrow> nat \<Rightarrow> ('f, 'q, 'c, 'w) exec_state \<Rightarrow> (unit outcome \<times> ('f, 'q, 'c, 'w) exec_state) option" where
  "run_turns E 0 s = Some (Ret (), s)"
| "run_turns E (Suc n) s = (case run_ready_tasks E s of
       None \<Rightarrow> None
     | Some (Panic e, s1) \<Rightarrow> Some (Panic e, s1)
     | Some (Hang, s1) \<Rightarrow> Some (Hang, s1)
     | Some (Ret _, s1) \<Rightarrow> (case sleep_if_idle E s1 of
         (Ret _, s2) \<Rightarrow> run_turns E n s2
       | (Panic e, s2) \<Rightarrow> Some (Panic e, s2)
       | (Hang, s2) \<Rightarrow> Some (Hang, s2)))"

section \<open>The simple executor\<close>

text \<open>
  A \<open>RawWaker\<close> is a pointer with its virtual table; the dummy one clones to itself and does nothing
  when woken or dropped.
\<close>

codatatype RawWaker = RawWaker (rw_data: u64) (rw_clone: "u64 \<Rightarrow> RawWaker") (rw_wake: "u64 \<Rightarrow> unit")
  (rw_wake_by_ref: "u64 \<Rightarrow> unit") (rw_drop: "u64 \<Rightarrow> unit")

definition no_op :: "u64 \<Rightarrow> unit" where
  "no_op ptr = ()"

primcorec dummy_raw_waker :: RawWaker where
  "dummy_raw_waker = RawWaker 0 (\<lambda>_. dummy_raw_waker) no_op no_op no_op"

definition dummy_waker :: RawWaker where
  "dummy_waker = dummy_raw_waker"

record 'f SimpleExecutor =
  simple_queue :: "'f Task list"

definition SimpleExecutor_new :: "'f SimpleExecutor" where
  "SimpleExecutor_new = \<lparr>simple_queue = []\<rparr>"

definition simple_spawn :: "'f Task \<Rightarrow> 'f SimpleExecutor \<Rightarrow> 'f SimpleExecutor" where
  "simple_spawn task x = x\<lparr>simple_queue := simple_queue x @ [task]\<rparr>"

type_synonym ('f, 'w) simple_poll = "RawWaker \<Rightarrow> 'f \<Rightarrow> 'w \<Rightarrow> ('f \<times> unit poll) outcome \<times> 'w"

partial_function (option) simple_run ::
  "('f, 'w) simple_poll \<Rightarrow> 'f SimpleExecutor \<Rightarrow> 'w \<Rightarrow> (unit outcome \<times> 'f SimpleExecutor \<times> 'w) option" where
  "simple_run P x w = (case simple_queue x of
       [] \<Rightarrow> Some (Ret (), x, w)
     | task # rest \<Rightarrow>
         (let x = x\<lparr>simple_queue := rest\<rparr>
          in case P dummy_waker (future task) w of
              (Ret (f, Ready _), w') \<Rightarrow> simple_run P x w'
            | (Ret (f, Pending), w') \<Rightarrow> simple_run P (simple_spawn (task\<lparr>future := f\<rparr>) x) w'
            | (Panic e, w') \<Rightarrow> Some (Panic e, x, w')
            | (Hang, w') \<Rightarrow> Some (Hang, x, w')))"

section \<open>Invariant of the executor\<close>

definition exec_inv :: "('q \<Rightarrow> TaskId list) \<Rightarrow> ('q \<Rightarrow> nat) \<Rightarrow> ('f, 'q, 'c, 'w) exec_state \<Rightarrow> bool" where
  "exec_inv items cap s \<longleftrightarrow>
     (\<forall>tid t. Mapping.lookup (tasks s) tid = Some t \<longrightarrow> task_id t = tid) \<and>
     (\<forall>tid wk. Mapping.lookup (waker_cache s) tid = Some wk \<longrightarrow> waker_id wk = tid \<and> Mapping.lookup (tasks s) tid \<noteq> None) \<and>
     cap (task_queue s) = 100 \<and> length (items (task_queue s)) \<le> 100"

definition ids_below :: "u64 \<Rightarrow> ('f, 'q, 'c, 'w) exec_state \<Rightarrow> bool" where
  "ids_below n s \<longleftrightarrow> (\<forall>k. Mapping.lookup (tasks s) (TaskId k) \<noteq> None \<longrightarrow> k < n)"

text \<open>
  The states of the executor between its calls, with \<open>NEXT_ID\<close>: tasks are spawned with fresh
  identifiers until \<open>NEXT_ID\<close> wraps around.
\<close>

inductive exec_reach ::
  "('f, 'q, 'c, 'w) exec_env \<Rightarrow> u64 \<Rightarrow> ('f, 'q, 'c, 'w) exec_state \<Rightarrow> bool" for E where
  start: "exec_reach E 0 (Executor.extend (Executor_new (ex_queue E)) (exec_state.fields c w))"
| spawned: "exec_reach E n s \<Longrightarrow> Task_new f n = (t, n') \<Longrightarrow> n' \<noteq> 0 \<Longrightarrow> spawn E t s = (Ret (), s') \<Longrightarrow> exec_reach E n' s'"
| polled: "exec_reach E n s \<Longrightarrow> run_ready_step E s = (Ret b, s') \<Longrightarrow> exec_reach E n s'"
| slept: "exec_reach E n s \<Longrightarrow> sleep_if_idle E s = (Ret b, s') \<Longrightarrow> exec_reach E n s'"
| interrupted: "exec_reach E n s \<Longrightarrow> deliver E s = (Ret (), s') \<Longrightarrow> exec_reach E n s'"

lemma lookup_delete_if: "Mapping.lookup (Mapping.delete k m) k' = (if k = k' then None else Mapping.lookup m k')"
  by (cases "k = k'") (simp_all add: lookup_delete lookup_delete_neq)

lemma cached_waker_lookup:
  "cached_waker tid cache = (wk, cache') \<Longrightarrow>
     Mapping.lookup cache' k = (if k = tid then Some wk else Mapping.lookup cache k)"
  "cached_waker tid cache = (wk, cache') \<Longrightarrow>
     (\<forall>x. Mapping.lookup cache tid = Some x \<longrightarrow> waker_id x = tid) \<Longrightarrow> waker_id wk = tid"
  by (auto simp: cached_waker_def TaskWaker_new_def lookup_update' split: option.splits)

locale executor = queue_spec "ex_queue E" items cap
  for E :: "('f, 'q, 'c, 'w) exec_env" and items :: "'q \<Rightarrow> TaskId list" and cap :: "'q \<Rightarrow> nat"
begin

lemma wake_task_cases:
  obtains (ok) q where "length (items (task_queue s)) < cap (task_queue s)" and "wake_task E wk s = (Ret (), s\<lparr>task_queue := q\<rparr>)"
      and "items q = items (task_queue s) @ [waker_id wk]" and "cap q = cap (task_queue s)"
  | (full) q where "cap (task_queue s) \<le> length (items (task_queue s))"
      and "wake_task E wk s = (Panic ''task_queue full'', s\<lparr>task_queue := q\<rparr>)"
      and "items q = items (task_queue s)" and "cap q = cap (task_queue s)"
  by (rule push_cases [of "task_queue s" "waker_id wk"]) (simp_all add: wake_task_def)

lemma wake_all_effect:
  assumes "length (items (task_queue s)) \<le> cap (task_queue s)"
  shows "\<exists>q. snd (wake_all E wks s) = s\<lparr>task_queue := q\<rparr> \<and> cap q = cap (task_queue s) \<and> length (items q) \<le> cap q \<and>
    (if length (items (task_queue s)) + length wks \<le> cap (task_queue s)
     then fst (wake_all E wks s) = Ret () \<and> items q = items (task_queue s) @ map waker_id wks
     else fst (wake_all E wks s) = Panic ''task_queue full'')"
  using assms
proof (induction wks arbitrary: s)
  case Nil
  then show ?case by (intro exI [of _ "task_queue s"]) simp
next
  case (Cons wk wks)
  show ?case
  proof (cases rule: wake_task_cases [of s wk])
    case (ok q)
    have "length (items (task_queue (s\<lparr>task_queue := q\<rparr>))) \<le> cap (task_queue (s\<lparr>task_queue := q\<rparr>))" using ok by simp
    from Cons.IH [OF this] obtain q' where "snd (wake_all E wks (s\<lparr>task_queue := q\<rparr>)) = s\<lparr>task_queue := q'\<rparr>"
      "cap q' = cap q" "length (items q') \<le> cap q'"
      "if length (items q) + length wks \<le> cap q
       then fst (wake_all E wks (s\<lparr>task_queue := q\<rparr>)) = Ret () \<and> items q' = items q @ map waker_id wks
       else fst (wake_all E wks (s\<lparr>task_queue := q\<rparr>)) = Panic ''task_queue full''" by auto
    then show ?thesis using ok by (intro exI [of _ q']) (simp add: io_bind_def)
  next
    case (full q)
    then show ?thesis using Cons.prems by (intro exI [of _ q]) (simp add: io_bind_def)
  qed
qed

lemma wake_all_fits:
  assumes "length (items (task_queue s)) + length wks \<le> cap (task_queue s)"
  obtains q where "wake_all E wks s = (Ret (), s\<lparr>task_queue := q\<rparr>)" and "items q = items (task_queue s) @ map waker_id wks"
    and "cap q = cap (task_queue s)"
  using wake_all_effect [of s wks] assms by (cases "wake_all E wks s") auto

lemma wake_all_Ret:
  assumes "wake_all E wks s = (Ret x, s')" and "length (items (task_queue s)) \<le> cap (task_queue s)"
  shows "\<exists>q. s' = s\<lparr>task_queue := q\<rparr> \<and> cap q = cap (task_queue s) \<and> length (items q) \<le> cap q \<and>
    items q = items (task_queue s) @ map waker_id wks"
  using wake_all_effect [OF assms(2), of wks] assms(1)
  by (cases "length (items (task_queue s)) + length wks \<le> cap (task_queue s)") auto

lemma deliver_Ret:
  assumes "deliver E s = (Ret x, s')" and "length (items (task_queue s)) \<le> cap (task_queue s)"
  shows "\<exists>q w ids. s' = s\<lparr>world := w, task_queue := q\<rparr> \<and> cap q = cap (task_queue s) \<and> length (items q) \<le> cap q \<and>
    items q = items (task_queue s) @ ids"
proof (cases "are_enabled (ex_irq E) (exec_cpu s)")
  case True
  obtain wks w where i: "ex_interrupts E (world s) = (wks, w)" by fastforce
  then have "wake_all E wks (s\<lparr>world := w\<rparr>) = (Ret x, s')" using assms(1) True by (simp add: deliver_def)
  from wake_all_Ret [OF this] assms(2) obtain q where q: "s' = s\<lparr>world := w, task_queue := q\<rparr>" "cap q = cap (task_queue s)"
    "length (items q) \<le> cap q" "items q = items (task_queue s) @ map waker_id wks" by auto
  then show ?thesis by blast
next
  case False
  then have "s' = s\<lparr>world := world s, task_queue := task_queue s\<rparr>" using assms(1) by (simp add: deliver_def)
  then show ?thesis using assms(2) by (intro exI [of _ "task_queue s"] exI [of _ "world s"] exI [of _ "[]"]) simp
qed

lemma deliver_inv:
  assumes "deliver E s = (Ret x, s')" and "exec_inv items cap s"
  shows "exec_inv items cap s'" and "tasks s' = tasks s"
  using deliver_Ret [OF assms(1)] assms(2) by (auto simp: exec_inv_def)

lemma poll_task_inv:
  assumes "poll_task E tid t s = (Ret b, s')" and "exec_inv items cap s" and "Mapping.lookup (tasks s) tid = Some t"
  shows "exec_inv items cap s'" and "Mapping.lookup (tasks s') k \<noteq> None \<Longrightarrow> Mapping.lookup (tasks s) k \<noteq> None"
proof -
  obtain wk cache where c: "cached_waker tid (waker_cache s) = (wk, cache)" by fastforce
  obtain r wks w where p: "ex_poll E wk (future t) (world s) = ((r, wks), w)" by (metis surj_pair)
  let ?s = "s\<lparr>waker_cache := cache, world := w\<rparr>"
  obtain u s1 where s1: "wake_all E wks ?s = (Ret u, s1)" "finish_poll tid t r s1 = (Ret b, s')"
    using assms(1) c p by (auto simp: poll_task_def elim: io_bind_RetE)
  obtain q where q: "s1 = ?s\<lparr>task_queue := q\<rparr>" "cap q = 100" "length (items q) \<le> 100"
    using wake_all_Ret [OF s1(1)] assms(2) by (auto simp: exec_inv_def)
  have i: "\<forall>k t. Mapping.lookup (tasks s) k = Some t \<longrightarrow> task_id t = k"
    "\<forall>k wk. Mapping.lookup (waker_cache s) k = Some wk \<longrightarrow> waker_id wk = k \<and> Mapping.lookup (tasks s) k \<noteq> None"
    using assms(2) by (simp_all add: exec_inv_def)
  note l = cached_waker_lookup [OF c]
  show "exec_inv items cap s'"
    using s1(2) q i l assms(3)
    by (auto simp: finish_poll_def exec_inv_def lookup_update' lookup_delete_if split: outcome.splits poll.splits if_splits)
  show "Mapping.lookup (tasks s') k \<noteq> None \<Longrightarrow> Mapping.lookup (tasks s) k \<noteq> None"
    using s1(2) q assms(3)
    by (auto simp: finish_poll_def lookup_update' lookup_delete_if split: outcome.splits poll.splits if_splits)
qed

end

context executor
begin

lemma run_ready_step_inv:
  assumes "run_ready_step E s = (Ret b, s')" and "exec_inv items cap s"
  shows "exec_inv items cap s'" and "Mapping.lookup (tasks s') k \<noteq> None \<Longrightarrow> Mapping.lookup (tasks s) k \<noteq> None"
proof -
  from assms(1) obtain x s1 where d: "deliver E s = (Ret x, s1)" and
    r: "(case aq_pop (ex_queue E) (task_queue s1) of
       (None, q) \<Rightarrow> (Ret False, s1\<lparr>task_queue := q\<rparr>)
     | (Some tid, q) \<Rightarrow> (case Mapping.lookup (tasks s1) tid of
            None \<Rightarrow> (Ret True, s1\<lparr>task_queue := q\<rparr>)
          | Some task \<Rightarrow> poll_task E tid task (s1\<lparr>task_queue := q\<rparr>))) = (Ret b, s')"
    unfolding run_ready_step_def by (rule io_bind_RetE)
  note i = deliver_inv [OF d assms(2)]
  obtain p q where q: "aq_pop (ex_queue E) (task_queue s1) = (p, q)" "cap q = cap (task_queue s1)"
    "length (items q) \<le> length (items (task_queue s1))"
    by (cases rule: pop_cases [of "task_queue s1"]) auto
  have i': "exec_inv items cap (s1\<lparr>task_queue := q\<rparr>)" using i(1) q(2,3) by (simp add: exec_inv_def)
  show "exec_inv items cap s'"
  proof (cases "\<exists>tid t. p = Some tid \<and> Mapping.lookup (tasks s1) tid = Some t")
    case True
    then obtain tid t where "p = Some tid" "Mapping.lookup (tasks s1) tid = Some t" by blast
    then show ?thesis using r q(1) poll_task_inv(1) [OF _ i'] by simp
  qed (use r q(1) i' in \<open>auto split: option.splits\<close>)
  show "Mapping.lookup (tasks s') k \<noteq> None \<Longrightarrow> Mapping.lookup (tasks s) k \<noteq> None"
    using r q(1) poll_task_inv(2) [OF _ i', of _ _ b s' k] i(2) by (auto split: option.splits)
qed

lemma spawn_cases:
  assumes "Mapping.lookup (tasks s) (task_id t) = None"
  obtains (ok) q where "length (items (task_queue s)) < cap (task_queue s)"
      and "spawn E t s = (Ret (), s\<lparr>tasks := Mapping.update (task_id t) t (tasks s), task_queue := q\<rparr>)"
      and "items q = items (task_queue s) @ [task_id t]" and "cap q = cap (task_queue s)"
  | (full) s' where "cap (task_queue s) \<le> length (items (task_queue s))" and "spawn E t s = (Panic ''queue full'', s')"
  using assms by (cases rule: push_cases [of "task_queue s" "task_id t"]) (simp_all add: spawn_def Let_def)

lemma spawn_inv:
  assumes "spawn E t s = (Ret x, s')" and "exec_inv items cap s"
  shows "exec_inv items cap s'" and "Mapping.lookup (tasks s') k = (if k = task_id t then Some t else Mapping.lookup (tasks s) k)"
proof -
  have n: "Mapping.lookup (tasks s) (task_id t) = None" using assms(1) by (auto simp: spawn_def Let_def split: if_splits)
  obtain q where q: "length (items (task_queue s)) < cap (task_queue s)"
      "s' = s\<lparr>tasks := Mapping.update (task_id t) t (tasks s), task_queue := q\<rparr>"
      "items q = items (task_queue s) @ [task_id t]" "cap q = cap (task_queue s)"
    using assms(1) by (cases rule: spawn_cases [OF n]) auto
  show "exec_inv items cap s'" using q assms(2) n by (auto simp: exec_inv_def lookup_update')
  show "Mapping.lookup (tasks s') k = (if k = task_id t then Some t else Mapping.lookup (tasks s) k)"
    using q(2) by (simp add: lookup_update')
qed

lemma sleep_inv:
  assumes "sleep_if_idle E s = (Ret b, s')" and "exec_inv items cap s"
  shows "exec_inv items cap s'" and "tasks s' = tasks s" and "b \<longleftrightarrow> items (task_queue s') = []"
proof -
  obtain x s1 where d: "deliver E s = (Ret x, s1)"
    and s': "s' = s1\<lparr>exec_cpu := irq_enable (ex_irq E) (irq_disable (ex_irq E) (exec_cpu s1))\<rparr>"
    "b = aq_is_empty (ex_queue E) (task_queue s1)"
    using assms(1) by (auto simp: sleep_if_idle_def Let_def elim: io_bind_RetE)
  then show "exec_inv items cap s'" "tasks s' = tasks s" "b \<longleftrightarrow> items (task_queue s') = []"
    using deliver_inv [OF d assms(2)] by (auto simp: exec_inv_def is_empty_law)
qed

lemma reach_inv:
  assumes "exec_reach E n s"
  shows "exec_inv items cap s \<and> ids_below n s"
  using assms
proof (induction rule: exec_reach.induct)
  case (start c w)
  then show ?case using new_law [of 100]
    by (simp add: exec_inv_def ids_below_def Executor_new_def Executor.defs exec_state.defs)
next
  case (spawned n s f t n' s')
  have t: "task_id t = TaskId n" "n' = n + 1" using spawned.hyps(2) by (auto simp: Task_new_def TaskId_new_def)
  have "n < n'" using spawned.hyps(3) t(2) unatSuc [of n] by (simp add: word_less_nat_alt add.commute)
  then show ?case
    using spawn_inv [OF spawned.hyps(4)] spawned.IH t(1) by (auto simp: ids_below_def intro: less_trans)
next
  case (polled n s b s')
  then show ?case using run_ready_step_inv [OF polled.hyps(2)] by (auto simp: ids_below_def)
next
  case (slept n s b s')
  then show ?case using sleep_inv [OF slept.hyps(2)] by (auto simp: ids_below_def)
next
  case (interrupted n s s')
  then show ?case using deliver_inv [OF interrupted.hyps(2)] by (auto simp: ids_below_def)
qed

end

section \<open>Every woken task is polled\<close>

text \<open>
  The polls of a run, recorded in the state: \<open>logged E\<close> behaves like \<open>E\<close> and appends the identifier of
  every polled task to a log.
\<close>

definition logged :: "('f, 'q, 'c, 'w) exec_env \<Rightarrow> ('f, 'q, 'c, 'w \<times> TaskId list) exec_env" where
  "logged E =
     \<lparr>ex_queue = ex_queue E, ex_irq = ex_irq E,
      ex_poll = (\<lambda>wk f (w, log). case ex_poll E wk f w of (r, w') \<Rightarrow> (r, (w', log @ [waker_id wk]))),
      ex_interrupts = (\<lambda>(w, log). case ex_interrupts E w of (wks, w') \<Rightarrow> (wks, (w', log)))\<rparr>"

text \<open>
  Polls return, and the number of wake-ups the rest of the kernel can still cause is bounded.
\<close>

definition bounded_wakes :: "('f, 'q, 'c, 'w) exec_env \<Rightarrow> ('w \<Rightarrow> nat) \<Rightarrow> bool" where
  "bounded_wakes E budget \<longleftrightarrow>
     (\<forall>wk f w r wks w'. ex_poll E wk f w = ((r, wks), w') \<longrightarrow> (\<exists>x. r = Ret x) \<and> length wks + budget w' \<le> budget w) \<and>
     (\<forall>w wks w'. ex_interrupts E w = (wks, w') \<longrightarrow> length wks + budget w' \<le> budget w)"

definition keeps_log :: "('f, 'q, 'c, 'w) exec_env \<Rightarrow> ('w \<Rightarrow> TaskId list) \<Rightarrow> bool" where
  "keeps_log E lg \<longleftrightarrow>
     (\<forall>wk f w r wks w'. ex_poll E wk f w = ((r, wks), w') \<longrightarrow> lg w' = lg w @ [waker_id wk]) \<and>
     (\<forall>w wks w'. ex_interrupts E w = (wks, w') \<longrightarrow> lg w' = lg w)"

lemma logged_laws:
  "keeps_log (logged E) snd"
  "bounded_wakes E budget \<Longrightarrow> bounded_wakes (logged E) (budget \<circ> fst)"
  by (auto simp: keeps_log_def bounded_wakes_def logged_def split: prod.splits)

definition live :: "('f, 'q, 'c, 'w) exec_state \<Rightarrow> TaskId \<Rightarrow> bool" where
  "live s tid \<longleftrightarrow> Mapping.lookup (tasks s) tid \<noteq> None"

context executor
begin

lemma deliver_bounded:
  assumes "bounded_wakes E budget" and "keeps_log E lg" and "cap (task_queue s) = 100"
    and "length (items (task_queue s)) + budget (world s) \<le> 100"
  obtains q w ids where "deliver E s = (Ret (), s\<lparr>world := w, task_queue := q\<rparr>)" and "items q = items (task_queue s) @ ids"
    and "cap q = 100" and "length ids + budget w \<le> budget (world s)" and "lg w = lg (world s)"
proof (cases "are_enabled (ex_irq E) (exec_cpu s)")
  case True
  obtain wks w where i: "ex_interrupts E (world s) = (wks, w)" by fastforce
  then have b: "length wks + budget w \<le> budget (world s)" "lg w = lg (world s)"
    using assms(1,2) unfolding bounded_wakes_def keeps_log_def by blast+
  obtain q where q: "wake_all E wks (s\<lparr>world := w\<rparr>) = (Ret (), s\<lparr>world := w, task_queue := q\<rparr>)"
    "items q = items (task_queue s) @ map waker_id wks" "cap q = 100"
    using wake_all_fits [of "s\<lparr>world := w\<rparr>" wks] b(1) assms(3,4) by auto
  show ?thesis by (rule that [of q w "map waker_id wks"]) (use i b q True in \<open>simp_all add: deliver_def\<close>)
next
  case False
  then show ?thesis using that [of "task_queue s" "world s" "[]"] assms(3) by (simp add: deliver_def)
qed

lemma poll_task_bounded:
  assumes "bounded_wakes E budget" and "keeps_log E lg" and "exec_inv items cap s"
    and "length (items (task_queue s)) + budget (world s) \<le> 100" and "Mapping.lookup (tasks s) tid = Some t"
  obtains s' ids where "poll_task E tid t s = (Ret True, s')" and "exec_inv items cap s'"
    and "items (task_queue s') = items (task_queue s) @ ids" and "length ids + budget (world s') \<le> budget (world s)"
    and "lg (world s') = lg (world s) @ [tid]" and "\<forall>k. k \<noteq> tid \<longrightarrow> live s' k = live s k"
proof -
  obtain wk cache where c: "cached_waker tid (waker_cache s) = (wk, cache)" by fastforce
  have wk: "waker_id wk = tid" using cached_waker_lookup(2) [OF c] assms(3) by (auto simp: exec_inv_def)
  obtain r wks w where p: "ex_poll E wk (future t) (world s) = ((r, wks), w)" by (metis surj_pair)
  then have b: "length wks + budget w \<le> budget (world s)" "lg w = lg (world s) @ [tid]" and "\<exists>x. r = Ret x"
    using assms(1,2) wk unfolding bounded_wakes_def keeps_log_def by blast+
  then obtain f pl where r: "r = Ret (f, pl)" by auto
  let ?s = "s\<lparr>waker_cache := cache, world := w\<rparr>"
  have "cap (task_queue s) = 100" using assms(3) by (simp add: exec_inv_def)
  then obtain q where q: "wake_all E wks ?s = (Ret (), ?s\<lparr>task_queue := q\<rparr>)" "items q = items (task_queue s) @ map waker_id wks"
    using wake_all_fits [of ?s wks] b(1) assms(4) by auto
  obtain s' where s': "finish_poll tid t r (?s\<lparr>task_queue := q\<rparr>) = (Ret True, s')" "task_queue s' = q" "world s' = w"
    "\<forall>k. k \<noteq> tid \<longrightarrow> live s' k = live s k"
    by (cases pl) (simp_all add: r finish_poll_def live_def lookup_delete_if lookup_update')
  have run: "poll_task E tid t s = (Ret True, s')"
    using c p q(1) s'(1) by (simp add: poll_task_def io_bind_def)
  show ?thesis
    by (rule that [of s' "map waker_id wks", OF run poll_task_inv(1) [OF run assms(3,5)] _ _ _ s'(4)])
      (use s'(2,3) q(2) b in simp_all)
qed

lemma run_ready_step_bounded:
  assumes "bounded_wakes E budget" and "keeps_log E lg" and "exec_inv items cap s"
    and "length (items (task_queue s)) + budget (world s) \<le> 100"
  obtains b s' l where "run_ready_step E s = (Ret b, s')" and "exec_inv items cap s'" and "lg (world s') = lg (world s) @ l"
    and "b \<Longrightarrow> length (items (task_queue s')) + budget (world s') < length (items (task_queue s)) + budget (world s)"
    and "\<not> b \<Longrightarrow> items (task_queue s') = [] \<and> items (task_queue s) = []"
    and "\<forall>k \<in> set (items (task_queue s)). live s k \<longrightarrow> k \<in> set l \<or> (k \<in> set (items (task_queue s')) \<and> live s' k)"
proof -
  have cap: "cap (task_queue s) = 100" using assms(3) by (simp add: exec_inv_def)
  obtain q w ids where d: "deliver E s = (Ret (), s\<lparr>world := w, task_queue := q\<rparr>)" "items q = items (task_queue s) @ ids"
    "cap q = 100" "length ids + budget w \<le> budget (world s)" "lg w = lg (world s)"
    by (rule deliver_bounded [OF assms(1,2) cap assms(4)])
  let ?s = "s\<lparr>world := w, task_queue := q\<rparr>"
  have i: "exec_inv items cap ?s" by (rule deliver_inv(1) [OF d(1) assms(3)])
  show ?thesis
  proof (cases rule: pop_cases [of q])
    case (empty q')
    then have e: "items (task_queue s) = []" "ids = []" using d(2) by simp_all
    have run: "run_ready_step E s = (Ret False, ?s\<lparr>task_queue := q'\<rparr>)"
      using d(1) empty(2) by (simp add: run_ready_step_def io_bind_def)
    show ?thesis
      by (rule that [OF run, of "[]"]) (use i empty e d in \<open>simp_all add: exec_inv_def\<close>)
  next
    case (some tid rest q')
    let ?s' = "?s\<lparr>task_queue := q'\<rparr>"
    have i': "exec_inv items cap ?s'" using i some by (simp add: exec_inv_def)
    have "length (items q) = length (items (task_queue s)) + length ids" using d(2) by simp
    then have len: "Suc (length rest) + budget w \<le> length (items (task_queue s)) + budget (world s)"
      using some(1) d(4) by simp
    have "set (items (task_queue s)) \<subseteq> set (items q)" using d(2) by simp
    then have mem: "set (items (task_queue s)) \<subseteq> insert tid (set rest)" using some(1) by simp
    show ?thesis
    proof (cases "Mapping.lookup (tasks s) tid")
      case None
      have run: "run_ready_step E s = (Ret True, ?s')"
        using d(1) some(2) None by (simp add: run_ready_step_def io_bind_def)
      show ?thesis
        by (rule that [OF run i', of "[]"]) (use some(3) d(5) None len mem in \<open>auto simp: live_def\<close>)
    next
      case (Some t)
      have le: "length (items (task_queue ?s')) + budget (world ?s') \<le> 100" using len assms(4) some(3) by simp
      have l: "Mapping.lookup (tasks ?s') tid = Some t" using Some by simp
      obtain s' l where s': "poll_task E tid t ?s' = (Ret True, s')" "exec_inv items cap s'"
        "items (task_queue s') = items (task_queue ?s') @ l" "length l + budget (world s') \<le> budget (world ?s')"
        "lg (world s') = lg (world ?s') @ [tid]" "\<forall>k. k \<noteq> tid \<longrightarrow> live s' k = live ?s' k"
        by (rule poll_task_bounded [OF assms(1,2) i' le l])
      have run: "run_ready_step E s = (Ret True, s')"
        using d(1) some(2) Some s'(1) by (simp add: run_ready_step_def io_bind_def)
      show ?thesis
        by (rule that [OF run s'(2), of "[tid]"])
          (use s'(3-6) some(3) d(5) len mem in \<open>auto simp: live_def\<close>)
    qed
  qed
qed

end

context executor
begin

lemma run_ready_tasks_bounded:
  assumes "bounded_wakes E budget" and "keeps_log E lg" and "exec_inv items cap s"
    and "length (items (task_queue s)) + budget (world s) \<le> 100"
  shows "\<exists>s' l. run_ready_tasks E s = Some (Ret (), s') \<and> exec_inv items cap s' \<and> items (task_queue s') = [] \<and>
    lg (world s') = lg (world s) @ l \<and> (\<forall>k \<in> set (items (task_queue s)). live s k \<longrightarrow> k \<in> set l)"
  using assms(3,4)
proof (induction "length (items (task_queue s)) + budget (world s)" arbitrary: s rule: less_induct)
  case less
  obtain b s1 l where s1: "run_ready_step E s = (Ret b, s1)" "exec_inv items cap s1" "lg (world s1) = lg (world s) @ l"
    "b \<Longrightarrow> length (items (task_queue s1)) + budget (world s1) < length (items (task_queue s)) + budget (world s)"
    "\<not> b \<Longrightarrow> items (task_queue s1) = [] \<and> items (task_queue s) = []"
    "\<forall>k \<in> set (items (task_queue s)). live s k \<longrightarrow> k \<in> set l \<or> (k \<in> set (items (task_queue s1)) \<and> live s1 k)"
    by (rule run_ready_step_bounded [OF assms(1,2) less.prems]) blast
  show ?case
  proof (cases b)
    case True
    obtain s' l' where s': "run_ready_tasks E s1 = Some (Ret (), s')" "exec_inv items cap s'" "items (task_queue s') = []"
      "lg (world s') = lg (world s1) @ l'" "\<forall>k \<in> set (items (task_queue s1)). live s1 k \<longrightarrow> k \<in> set l'"
      using less.hyps [OF s1(4) [OF True] s1(2)] s1(4) [OF True] less.prems(2) by auto
    have "run_ready_tasks E s = Some (Ret (), s')" using s1(1) s'(1) True by (simp add: run_ready_tasks.simps [of E s])
    then show ?thesis using s' s1(3,6) by (intro exI [of _ s'] exI [of _ "l @ l'"]) auto
  next
    case False
    then have "run_ready_tasks E s = Some (Ret (), s1)" using s1(1) by (simp add: run_ready_tasks.simps [of E s])
    then show ?thesis using s1(2,3,5) False by (intro exI [of _ s1] exI [of _ l]) auto
  qed
qed

end

lemma executor_logged: "queue_spec (ex_queue E) items cap \<Longrightarrow> executor (logged E) items cap"
  by (simp add: executor_def logged_def)

section \<open>Termination of the simple executor\<close>

text \<open>Every pending poll brings the future closer to its end, and no poll panics.\<close>

definition finite_polls :: "('f, 'w) simple_poll \<Rightarrow> ('f \<Rightarrow> nat) \<Rightarrow> bool" where
  "finite_polls P rank \<longleftrightarrow> (\<forall>wk f w. \<exists>f' r w'. P wk f w = (Ret (f', r), w') \<and> (r = Pending \<longrightarrow> rank f' < rank f))"

lemma simple_run_ends:
  assumes "finite_polls P rank"
  shows "\<exists>w'. simple_run P x w = Some (Ret (), \<lparr>simple_queue = []\<rparr>, w')"
proof (induction "sum_list (map (\<lambda>t. Suc (rank (future t))) (simple_queue x))" arbitrary: x w rule: less_induct)
  case less
  show ?case
  proof (cases "simple_queue x")
    case Nil
    then show ?thesis by (simp add: simple_run.simps)
  next
    case (Cons t rest)
    obtain f r w1 where p: "P dummy_waker (future t) w = (Ret (f, r), w1)" "r = Pending \<longrightarrow> rank f < rank (future t)"
      using assms unfolding finite_polls_def by blast
    show ?thesis
    proof (cases r)
      case (Ready u)
      have "\<exists>w'. simple_run P (x\<lparr>simple_queue := rest\<rparr>) w1 = Some (Ret (), \<lparr>simple_queue = []\<rparr>, w')"
        by (rule less.hyps) (simp add: Cons)
      then show ?thesis using Cons p(1) Ready by (subst simple_run.simps) simp
    next
      case Pending
      have "\<exists>w'. simple_run P (simple_spawn (t\<lparr>future := f\<rparr>) (x\<lparr>simple_queue := rest\<rparr>)) w1 = Some (Ret (), \<lparr>simple_queue = []\<rparr>, w')"
        by (rule less.hyps) (use Cons p(2) Pending in \<open>simp add: simple_spawn_def\<close>)
      then show ?thesis using Cons p(1) Pending by (subst simple_run.simps) simp
    qed
  qed
qed

section \<open>Properties\<close>

text \<open>
  C12. In every reachable state of the executor each task is stored under its own identifier, every
  cached waker wakes the task it is cached for, wakers are cached only for tasks that still exist, and
  the queue of ready tasks has at most 100 entries.
\<close>

theorem executor_invariant:
  assumes "executor E items cap" and "exec_reach E n s"
  shows "(\<forall>tid t. Mapping.lookup (tasks s) tid = Some t \<longrightarrow> task_id t = tid) \<and>
    (\<forall>tid wk. Mapping.lookup (waker_cache s) tid = Some wk \<longrightarrow> waker_id wk = tid \<and> Mapping.lookup (tasks s) tid \<noteq> None) \<and>
    length (items (task_queue s)) \<le> 100"
  using executor.reach_inv [OF assms] by (simp add: exec_inv_def)

text \<open>
  A world of countdown futures: a future \<open>k\<close> wakes itself and pends while \<open>k\<close> and the number of
  wake-ups left are positive. Interrupts wake nobody.
\<close>

definition count_env :: "(nat, nat \<times> TaskId list, bool, nat) exec_env" where
  "count_env = \<lparr>ex_queue = list_queue, ex_irq = flag_irq,
     ex_poll = (\<lambda>wk k w. if 0 < k \<and> 0 < w then ((Ret (k - 1, Pending), [wk]), w - 1) else ((Ret (0, Ready ()), []), w)),
     ex_interrupts = (\<lambda>w. ([], w))\<rparr>"

definition count_start :: "(nat, nat \<times> TaskId list, bool, nat) exec_state" where
  "count_start = Executor.extend (Executor_new list_queue) (exec_state.fields True 3)"

lemma count_executor: "executor count_env snd fst"
  using lq.queue_spec_axioms by (simp add: executor_def count_env_def)

interpretation count_ex: executor count_env snd fst
  by (rule count_executor)

lemma count_start_reach: "exec_reach count_env 0 count_start"
  using exec_reach.start [of count_env True 3] by (simp add: count_env_def count_start_def)

theorem executor_invariant_witness:
  "exec_reach count_env 0 count_start \<and> length (snd (task_queue count_start)) \<le> 100"
  using executor_invariant [OF count_executor count_start_reach] count_start_reach by simp

text \<open>
  C14. A new task can be spawned exactly while the queue of ready tasks is not full: its identifier is
  never in use, so the only panic is the one for a full queue, and waking any task panics in the same
  states.
\<close>

theorem spawn_panics_iff_full:
  assumes "executor E items cap" and "exec_reach E n s" and "Task_new f n = (t, n')"
  shows "(length (items (task_queue s)) < 100 \<longrightarrow> (\<exists>s'. spawn E t s = (Ret (), s')) \<and> (\<exists>s'. wake_task E wk s = (Ret (), s'))) \<and>
    (100 \<le> length (items (task_queue s)) \<longrightarrow> (\<exists>s'. spawn E t s = (Panic ''queue full'', s')) \<and>
       (\<exists>s'. wake_task E wk s = (Panic ''task_queue full'', s')))"
proof -
  have i: "cap (task_queue s) = 100" "ids_below n s"
    using executor.reach_inv [OF assms(1,2)] by (simp_all add: exec_inv_def)
  have "task_id t = TaskId n" using assms(3) by (auto simp: Task_new_def TaskId_new_def)
  then have new: "Mapping.lookup (tasks s) (task_id t) = None" using i(2) by (auto simp: ids_below_def)
  show ?thesis
    using i(1)
    by (cases rule: executor.spawn_cases [OF assms(1) new]; cases rule: executor.wake_task_cases [OF assms(1), of s wk]) auto
qed

theorem spawn_panics_iff_full_witness:
  "\<exists>s'. spawn count_env \<lparr>task_id = TaskId 0, future = 5\<rparr> count_start = (Ret (), s')"
proof -
  have "Task_new (5 :: nat) 0 = (\<lparr>task_id = TaskId 0, future = 5\<rparr>, 1)" by (simp add: Task_new_def TaskId_new_def)
  moreover have "snd (task_queue count_start) = []"
    by (simp add: count_start_def Executor_new_def Executor.defs list_queue_def)
  ultimately show ?thesis
    using spawn_panics_iff_full [OF count_executor count_start_reach, of 5 "\<lparr>task_id = TaskId 0, future = 5\<rparr>" 1 "\<lparr>waker_id = TaskId 0\<rparr>"] by simp
qed

text \<open>
  C13. If the polls return and the wake-ups still to come fit into the queue with those already in it,
  \<open>run_ready_tasks\<close> returns without a panic, with an empty queue, and every task that was ready when it
  started has been polled.
\<close>

theorem run_ready_tasks_serves:
  assumes "queue_spec (ex_queue E) items cap" and "bounded_wakes E budget" and "exec_inv items cap s"
    and "length (items (task_queue s)) + budget (fst (world s)) \<le> 100"
  shows "\<exists>s' polled. run_ready_tasks (logged E) s = Some (Ret (), s') \<and> items (task_queue s') = [] \<and>
    snd (world s') = snd (world s) @ polled \<and>
    (\<forall>tid \<in> set (items (task_queue s)). Mapping.lookup (tasks s) tid \<noteq> None \<longrightarrow> tid \<in> set polled)"
  using executor.run_ready_tasks_bounded [OF executor_logged [OF assms(1)] logged_laws(2) [OF assms(2)] logged_laws(1) assms(3)] assms(4)
  by (auto simp: live_def)

definition count_logged :: "(nat, nat \<times> TaskId list, bool, nat \<times> TaskId list) exec_state" where
  "count_logged = \<lparr>tasks = Mapping.update (TaskId 0) \<lparr>task_id = TaskId 0, future = 2\<rparr> Mapping.empty,
     task_queue = (100, [TaskId 0]), waker_cache = Mapping.empty, exec_cpu = True, world = (3, [])\<rparr>"

theorem run_ready_tasks_serves_witness:
  "\<exists>s' polled. run_ready_tasks (logged count_env) count_logged = Some (Ret (), s') \<and> snd (task_queue s') = [] \<and>
    snd (world s') = snd (world count_logged) @ polled \<and> TaskId 0 \<in> set polled"
proof -
  have "bounded_wakes count_env (\<lambda>w. w)" by (auto simp: bounded_wakes_def count_env_def split: if_splits)
  moreover have "exec_inv snd fst count_logged"
    by (auto simp: exec_inv_def count_logged_def lookup_update' lookup_empty split: if_splits)
  moreover have "queue_spec (ex_queue count_env) snd fst" using count_executor by (simp add: executor_def)
  ultimately obtain s' polled where "run_ready_tasks (logged count_env) count_logged = Some (Ret (), s')"
    "snd (task_queue s') = []" "snd (world s') = snd (world count_logged) @ polled"
    "\<forall>tid \<in> set (snd (task_queue count_logged)). Mapping.lookup (tasks count_logged) tid \<noteq> None \<longrightarrow> tid \<in> set polled"
    using run_ready_tasks_serves [of count_env snd fst "\<lambda>w. w" count_logged] by (auto simp: count_logged_def)
  then show ?thesis by (intro exI [of _ s'] exI [of _ polled]) (simp add: count_logged_def lookup_update')
qed

text \<open>
  The executor never sleeps while a task is ready: it halts the processor exactly when the queue
  is empty at the moment of halting, after all interrupts that came before, and always with
  interrupts enabled again.
\<close>

theorem sleep_only_when_idle:
  assumes "executor E items cap" and "irq_spec (ex_irq E)" and "exec_inv items cap s"
    and "sleep_if_idle E s = (Ret halted, s')"
  shows "(halted \<longleftrightarrow> items (task_queue s') = []) \<and> are_enabled (ex_irq E) (exec_cpu s')"
proof -
  have "are_enabled (ex_irq E) (exec_cpu s')"
    using assms(4) irq_spec.enable_law [OF assms(2)] by (auto simp: sleep_if_idle_def Let_def elim: io_bind_RetE)
  then show ?thesis using executor.sleep_inv(3) [OF assms(1,4,3)] by blast
qed

theorem sleep_only_when_idle_witness:
  "sleep_if_idle count_env count_start = (Ret True, count_start) \<and>
   ((True \<longleftrightarrow> snd (task_queue count_start) = []) \<and> are_enabled (ex_irq count_env) (exec_cpu count_start))"
proof -
  have s: "sleep_if_idle count_env count_start = (Ret True, count_start)"
    by (simp add: sleep_if_idle_def deliver_def io_bind_def count_env_def count_start_def flag_irq_def list_queue_def
        Executor_new_def Executor.defs exec_state.defs)
  moreover have "irq_spec (ex_irq count_env)" using fi.irq_spec_axioms by (simp add: count_env_def)
  ultimately show ?thesis
    using sleep_only_when_idle [OF count_executor _ _ s] executor.reach_inv [OF count_executor count_start_reach] by blast
qed



end
