(* ===== verification/Boot.thy ===== *)
theory Boot
  imports Kernel Memory Task
begin

text \<open>
  \<open>src/main.rs\<close>: \<open>kernel_main\<close> brings the machine up and starts the executor with the three tasks of the
  kernel. The state extends that of the machine by page tables, heap, \<open>NEXT_ID\<close> and the interrupts still to
  come: each point where the code can be interrupted takes one batch of \<open>arrivals\<close> if interrupts are
  enabled. The allocations that the executor's collections make are not modelled.
\<close>

section \<open>State\<close>

text \<open>The wakers of the kernel are those of its executor.\<close>

record ('c, 'm, 'q, 'k, 'p, 'r, 'a, 'i, 'g, 'sel, 'u, 'pt, 'h) board =
    "('c, 'm, 'q, 'k, TaskWaker, 'p, 'r, 'a, 'i, 'g, 'sel, 'u) machine" +
  page_tables :: 'pt
  heap_allocator :: "'h FixedSizeBlockAllocator"
  NEXT_ID :: u64
  arrivals :: "InterruptIndex list list"

record ('c, 'm, 'q, 'k, 'p, 'r, 'a, 'i, 'g, 'sel, 'u, 'pt, 'h, 'tq, 'd, 'e) board_ops =
  b_machine :: "('c, 'm, 'q, 'k, TaskWaker, 'p, 'r, 'a, 'i, 'g, 'sel, 'u) machine_env"
  b_paging :: "('pt, BootInfoFrameAllocator) paging_ops"
  b_heap :: "'h heap_ops"
  b_tasks :: "(TaskId, 'tq) array_queue"
  b_decoder :: "('d, 'e) decoder"
  b_oc :: bool
  b_info :: "u8 list \<times> u8 list \<times> u8 list"

record BootInfo =
  boot_memory_map :: "MemoryRegion list"
  physical_memory_offset :: u64

type_synonym ('c, 'm, 'q, 'k, 'p, 'r, 'a, 'i, 'g, 'sel, 'u, 'pt, 'h, 'x) board_io =
  "(('c, 'm, 'q, 'k, 'p, 'r, 'a, 'i, 'g, 'sel, 'u, 'pt, 'h) board, 'x) io"

abbreviation b_kernel ::
  "('c, 'm, 'q, 'k, 'p, 'r, 'a, 'i, 'g, 'sel, 'u, 'pt, 'h, 'tq, 'd, 'e) board_ops \<Rightarrow>
   ('c, 'm, 'q, 'k, TaskWaker, 'p, 'r, 'a, 'i) kernel_env" where
  "b_kernel B \<equiv> m_kernel (b_machine B)"

section \<open>Interrupts that arrive\<close>

text \<open>
  The interrupts of one batch, one after the other; the result is the wakers they called. The waker
  lists of the state are emptied, so each waker is reported once.
\<close>

definition take_woken :: "('c, 'm, 'q, 'k, 'p, 'r, 'a, 'i, 'g, 'sel, 'u, 'pt, 'h, TaskWaker list) board_io" where
  "take_woken s = (Ret (kbd_woken s @ woken (ata s)), s\<lparr>kbd_woken := [], ata := (ata s)\<lparr>woken := []\<rparr>\<rparr>)"

fun take_interrupts ::
  "('c, 'm, 'q, 'k, 'p, 'r, 'a, 'i, 'g, 'sel, 'u, 'pt, 'h, 'tq, 'd, 'e) board_ops \<Rightarrow> InterruptIndex list \<Rightarrow>
   ('c, 'm, 'q, 'k, 'p, 'r, 'a, 'i, 'g, 'sel, 'u, 'pt, 'h, TaskWaker list) board_io" where
  "take_interrupts B [] = take_woken"
| "take_interrupts B (i # is) =
     io_bind (interrupt (b_kernel B) (b_info B) i) (\<lambda>_.
     io_bind take_woken (\<lambda>ws.
     io_bind (take_interrupts B is) (\<lambda>ws'.
     io_ret (ws @ ws'))))"

definition next_batch :: "InterruptIndex list list \<Rightarrow> InterruptIndex list" where
  "next_batch bs = (case bs of [] \<Rightarrow> [] | b # _ \<Rightarrow> b)"

definition batch ::
  "('c, 'm, 'q, 'k, 'p, 'r, 'a, 'i, 'g, 'sel, 'u, 'pt, 'h, 'tq, 'd, 'e) board_ops \<Rightarrow> ('c, 'm, 'q, 'k, 'p, 'r, 'a, 'i, 'g, 'sel, 'u, 'pt, 'h, TaskWaker list) board_io" where
  "batch B s = take_interrupts B (next_batch (arrivals s)) (s\<lparr>arrivals := tl (arrivals s)\<rparr>)"

definition arrive ::
  "('c, 'm, 'q, 'k, 'p, 'r, 'a, 'i, 'g, 'sel, 'u, 'pt, 'h, 'tq, 'd, 'e) board_ops \<Rightarrow> ('c, 'm, 'q, 'k, 'p, 'r, 'a, 'i, 'g, 'sel, 'u, 'pt, 'h, unit) board_io" where
  "arrive B s =
     (if are_enabled (env_irq (k_vga (b_kernel B))) (cpu s) then io_bind (batch B) (\<lambda>_. io_ret ()) s else (Ret (), s))"

section \<open>Tasks\<close>

definition async_number :: u32 where "async_number = 42"

definition b_println ::
  "('c, 'm, 'q, 'k, 'p, 'r, 'a, 'i, 'g, 'sel, 'u, 'pt, 'h, 'tq, 'd, 'e) board_ops \<Rightarrow> u8 list \<Rightarrow> ('c, 'm, 'q, 'k, 'p, 'r, 'a, 'i, 'g, 'sel, 'u, 'pt, 'h, unit) board_io" where
  "b_println B args = println_args (k_vga (b_kernel B)) args"

definition example_task ::
  "('c, 'm, 'q, 'k, 'p, 'r, 'a, 'i, 'g, 'sel, 'u, 'pt, 'h, 'tq, 'd, 'e) board_ops \<Rightarrow> ('c, 'm, 'q, 'k, 'p, 'r, 'a, 'i, 'g, 'sel, 'u, 'pt, 'h, unit) board_io" where
  "example_task B = b_println B (bytes ''async number: '' @ show_dec (unat async_number))"

fun print_sector_bytes ::
  "('c, 'm, 'q, 'k, 'p, 'r, 'a, 'i, 'g, 'sel, 'u, 'pt, 'h, 'tq, 'd, 'e) board_ops \<Rightarrow> nat \<Rightarrow> u8 list \<Rightarrow> ('c, 'm, 'q, 'k, 'p, 'r, 'a, 'i, 'g, 'sel, 'u, 'pt, 'h, unit) board_io" where
  "print_sector_bytes B i [] = io_ret ()"
| "print_sector_bytes B i (byte # bs) =
     io_bind (b_println B (show_byte byte @ bytes '' '')) (\<lambda>_.
     io_bind (if (i + 1) mod 8 = 0 then b_println B [] else io_ret ()) (\<lambda>_.
     print_sector_bytes B (Suc i) bs))"

text \<open>
  The task \<open>test_disk_read\<close>, which suspends only while it waits for the sector; the parts of
  \<open>read_sector_async\<close> before and after its \<open>await\<close> run in the polls around it.
\<close>

datatype disk_task = DiskNotStarted | AwaitingSector

definition disk_task_finish ::
  "('c, 'm, 'q, 'k, 'p, 'r, 'a, 'i, 'g, 'sel, 'u, 'pt, 'h, 'tq, 'd, 'e) board_ops \<Rightarrow> u8 list \<Rightarrow> ('c, 'm, 'q, 'k, 'p, 'r, 'a, 'i, 'g, 'sel, 'u, 'pt, 'h, unit) board_io" where
  "disk_task_finish B sector_data =
     io_bind (b_println B (bytes ''Sector 0 first 16 bytes:'')) (\<lambda>_.
     io_bind (print_sector_bytes B 0 (take 16 sector_data)) (\<lambda>_.
     b_println B ([0x0A] @ bytes ''Disk read test complete'')))"

definition test_disk_read ::
  "('c, 'm, 'q, 'k, 'p, 'r, 'a, 'i, 'g, 'sel, 'u, 'pt, 'h, 'tq, 'd, 'e) board_ops \<Rightarrow> TaskWaker \<Rightarrow> disk_task \<Rightarrow>
   ('c, 'm, 'q, 'k, 'p, 'r, 'a, 'i, 'g, 'sel, 'u, 'pt, 'h, disk_task \<times> unit poll) board_io" where
  "test_disk_read B w f =
     io_bind (if f = DiskNotStarted
       then io_bind (b_println B (bytes ''Attempting to read sector 0 from disk...'')) (\<lambda>_. on_ata (k_vga (b_kernel B)) (start_read (k_ata (b_kernel B)) 0))
       else io_ret ()) (\<lambda>_.
     io_bind (on_ata (k_vga (b_kernel B)) (SectorRead_poll (k_ata (b_kernel B)) (io_ret ()) (io_ret ()) 0 w)) (\<lambda>r. case r of
       Pending \<Rightarrow> io_ret (AwaitingSector, Pending)
     | Ready sector_data \<Rightarrow>
         io_bind (on_ata (k_vga (b_kernel B)) (log_msg (ReadResult (sector_data ! 0) (sector_data ! 1) (sector_data ! 2) (sector_data ! 3)))) (\<lambda>_.
         io_bind (disk_task_finish B sector_data) (\<lambda>_. io_ret (AwaitingSector, Ready ())))))"

datatype 'd kernel_future = ExampleTask | DiskReadTask disk_task | KeypressTask "'d keypresses"

definition poll_future ::
  "('c, 'm, 'q, 'k, 'p, 'r, 'a, 'i, 'g, 'sel, 'u, 'pt, 'h, 'tq, 'd, 'e) board_ops \<Rightarrow> TaskWaker \<Rightarrow> 'd kernel_future \<Rightarrow>
   ('c, 'm, 'q, 'k, 'p, 'r, 'a, 'i, 'g, 'sel, 'u, 'pt, 'h, 'd kernel_future \<times> unit poll) board_io" where
  "poll_future B w f s = (case f of
       ExampleTask \<Rightarrow> io_bind (example_task B) (\<lambda>_. io_ret (ExampleTask, Ready ())) s
     | DiskReadTask g \<Rightarrow> io_bind (test_disk_read B w g) (\<lambda>(g', r). io_ret (DiskReadTask g', r)) s
     | KeypressTask g \<Rightarrow> (case print_keypresses_poll (k_kbd (b_kernel B)) (b_decoder B) w g s of
           None \<Rightarrow> (Hang, s)
         | Some (r, s') \<Rightarrow> io_bind (\<lambda>s. (r, s)) (\<lambda>(g', r). io_ret (KeypressTask g', r)) s'))"

text \<open>
  What the executor is given: the polls and the batches of interrupts, with the wakers they called. A
  batch always returns from a state between two steps of the kernel.
\<close>

definition kernel_exec ::
  "('c, 'm, 'q, 'k, 'p, 'r, 'a, 'i, 'g, 'sel, 'u, 'pt, 'h, 'tq, 'd, 'e) board_ops \<Rightarrow>
   ('d kernel_future, 'tq, 'c, ('c, 'm, 'q, 'k, 'p, 'r, 'a, 'i, 'g, 'sel, 'u, 'pt, 'h) board) exec_env" where
  "kernel_exec B = \<lparr>ex_queue = b_tasks B, ex_irq = env_irq (k_vga (b_kernel B)),
     ex_poll = (\<lambda>w f s. case poll_future B w f s of (r, s1) \<Rightarrow>
       case take_woken s1 of (_, s2) \<Rightarrow> ((r, kbd_woken s1 @ woken (ata s1)), s2)),
     ex_interrupts = (\<lambda>s. case batch B s of (Ret ws, s') \<Rightarrow> (ws, s') | (_, s') \<Rightarrow> ([], s'))\<rparr>"

section \<open>\<open>kernel_main\<close>\<close>

text \<open>\<open>Box::new\<close> of an \<open>i32\<close>; a null pointer is \<open>handle_alloc_error\<close>.\<close>

definition box_new_i32 ::
  "('c, 'm, 'q, 'k, 'p, 'r, 'a, 'i, 'g, 'sel, 'u, 'pt, 'h, 'tq, 'd, 'e) board_ops \<Rightarrow> ('c, 'm, 'q, 'k, 'p, 'r, 'a, 'i, 'g, 'sel, 'u, 'pt, 'h, usize) board_io" where
  "box_new_i32 B =
     io_bind (\<lambda>s. case fsb_alloc (b_heap B) \<lparr>l_size = 4, l_align = 4\<rparr> (heap_allocator s) of (r, a) \<Rightarrow> (r, s\<lparr>heap_allocator := a\<rparr>)) (\<lambda>p.
     if p = 0 then io_panic ''memory allocation of 4 bytes failed'' else io_ret p)"

definition boot_heap ::
  "('c, 'm, 'q, 'k, 'p, 'r, 'a, 'i, 'g, 'sel, 'u, 'pt, 'h, 'tq, 'd, 'e) board_ops \<Rightarrow> BootInfo \<Rightarrow> ('c, 'm, 'q, 'k, 'p, 'r, 'a, 'i, 'g, 'sel, 'u, 'pt, 'h, unit) board_io" where
  "boot_heap B boot_info =
     io_bind (io_lift (virt_addr_new (b_paging B) (physical_memory_offset boot_info))) (\<lambda>phys_mem_offset.
     io_bind (\<lambda>s. (memory_init (b_paging B) phys_mem_offset (page_tables s), s)) (\<lambda>tables.
     let frame_allocator = BootInfoFrameAllocator_init (boot_memory_map boot_info) in
     io_bind (\<lambda>s. case init_heap (b_paging B) (allocate_frame (b_oc B) (b_paging B)) (b_heap B)
           \<lparr>mapper = page_tables s, frame_alloc = frame_allocator, ALLOCATOR = heap_allocator s\<rparr> of
         (r, hs) \<Rightarrow> (r, s\<lparr>page_tables := mapper hs, heap_allocator := ALLOCATOR hs\<rparr>)) (\<lambda>r. case r of
       Ok _ \<Rightarrow> io_ret ()
     | Err e \<Rightarrow> io_panic ''heap initialization failed'')))"

text \<open>The first two statements, and the interrupts that come as soon as they are enabled.\<close>

definition boot_init ::
  "('c, 'm, 'q, 'k, 'p, 'r, 'a, 'i, 'g, 'sel, 'u, 'pt, 'h, 'tq, 'd, 'e) board_ops \<Rightarrow> ('c, 'm, 'q, 'k, 'p, 'r, 'a, 'i, 'g, 'sel, 'u, 'pt, 'h, unit) board_io" where
  "boot_init B =
     io_bind (b_println B (bytes ''Hello World!'')) (\<lambda>_.
     io_bind (kernel_init (b_machine B)) (\<lambda>_.
     arrive B))"

definition boot_hardware ::
  "('c, 'm, 'q, 'k, 'p, 'r, 'a, 'i, 'g, 'sel, 'u, 'pt, 'h, 'tq, 'd, 'e) board_ops \<Rightarrow> BootInfo \<Rightarrow> ('c, 'm, 'q, 'k, 'p, 'r, 'a, 'i, 'g, 'sel, 'u, 'pt, 'h, unit) board_io" where
  "boot_hardware B boot_info =
     io_bind (boot_init B) (\<lambda>_.
     io_bind (boot_heap B boot_info) (\<lambda>_.
     io_bind (arrive B) (\<lambda>_.
     io_bind (box_new_i32 B) (\<lambda>heap_value.
     io_bind (b_println B (bytes ''heap_value at 0x'' @ show_hex (unat heap_value))) (\<lambda>_.
     io_bind (arrive B) (\<lambda>_.
     io_bind (on_ata (k_vga (b_kernel B)) (ata_init (k_ata (b_kernel B)) AtaDriver_new)) (\<lambda>ata_driver.
     io_bind (arrive B) (\<lambda>_.
     b_println B (bytes ''It did not crash!'')))))))))"

definition main_panic ::
  "('c, 'm, 'q, 'k, 'p, 'r, 'a, 'i, 'g, 'sel, 'u, 'pt, 'h, 'tq, 'd, 'e) board_ops \<Rightarrow> u8 list \<Rightarrow> ('c, 'm, 'q, 'k, 'p, 'r, 'a, 'i, 'g, 'sel, 'u, 'pt, 'h, unit) board_io" where
  "main_panic B info = io_bind (b_println B info) (\<lambda>_. hlt_loop)"

definition spawn_new ::
  "('c, 'm, 'q, 'k, 'p, 'r, 'a, 'i, 'g, 'sel, 'u, 'pt, 'h, 'tq, 'd, 'e) board_ops \<Rightarrow> 'd kernel_future \<Rightarrow>
   (('d kernel_future, 'tq, 'c, ('c, 'm, 'q, 'k, 'p, 'r, 'a, 'i, 'g, 'sel, 'u, 'pt, 'h) board) exec_state, unit) io" where
  "spawn_new B f x =
     (case Task_new f (NEXT_ID (world x)) of (task, n) \<Rightarrow>
        spawn (kernel_exec B) task (x\<lparr>world := (world x)\<lparr>NEXT_ID := n\<rparr>\<rparr>))"

definition start_executor ::
  "('c, 'm, 'q, 'k, 'p, 'r, 'a, 'i, 'g, 'sel, 'u, 'pt, 'h, 'tq, 'd, 'e) board_ops \<Rightarrow> ('c, 'm, 'q, 'k, 'p, 'r, 'a, 'i, 'g, 'sel, 'u, 'pt, 'h) board \<Rightarrow>
   ('d kernel_future, 'tq, 'c, ('c, 'm, 'q, 'k, 'p, 'r, 'a, 'i, 'g, 'sel, 'u, 'pt, 'h) board) exec_state" where
  "start_executor B s = Executor.extend (Executor_new (b_tasks B)) (exec_state.fields (cpu s) s)"

definition spawn_tasks ::
  "('c, 'm, 'q, 'k, 'p, 'r, 'a, 'i, 'g, 'sel, 'u, 'pt, 'h, 'tq, 'd, 'e) board_ops \<Rightarrow>
   (('d kernel_future, 'tq, 'c, ('c, 'm, 'q, 'k, 'p, 'r, 'a, 'i, 'g, 'sel, 'u, 'pt, 'h) board) exec_state, unit) io" where
  "spawn_tasks B =
     io_bind (spawn_new B ExampleTask) (\<lambda>_.
     io_bind (spawn_new B (DiskReadTask DiskNotStarted)) (\<lambda>_.
     spawn_new B (KeypressTask NotStarted)))"

text \<open>The first \<open>n\<close> turns of the executor; a panic before them runs the panic handler with the text \<open>info\<close>.\<close>

definition kernel_main ::
  "('c, 'm, 'q, 'k, 'p, 'r, 'a, 'i, 'g, 'sel, 'u, 'pt, 'h, 'tq, 'd, 'e) board_ops \<Rightarrow> (string \<Rightarrow> u8 list) \<Rightarrow> BootInfo \<Rightarrow> nat \<Rightarrow>
   ('c, 'm, 'q, 'k, 'p, 'r, 'a, 'i, 'g, 'sel, 'u, 'pt, 'h) board \<Rightarrow>
   (unit outcome \<times> ('d kernel_future, 'tq, 'c, ('c, 'm, 'q, 'k, 'p, 'r, 'a, 'i, 'g, 'sel, 'u, 'pt, 'h) board) exec_state) option" where
  "kernel_main B info boot_info n s =
     (case on_panic (\<lambda>e. main_panic B (info e)) (boot_hardware B boot_info) s of
        (Ret _, s1) \<Rightarrow>
          (case spawn_tasks B (start_executor B s1) of
             (Ret _, x) \<Rightarrow> run_turns (kernel_exec B) n x
           | (Panic e, x) \<Rightarrow> (case main_panic B (info e) (world x) of (r, w) \<Rightarrow> Some (r, x\<lparr>world := w\<rparr>))
           | (Hang, x) \<Rightarrow> Some (Hang, x))
      | (r, s1) \<Rightarrow> Some (r, start_executor B s1))"

section \<open>Steps of the boot\<close>

text \<open>What printing and interrupts leave as it is.\<close>

definition boot_frame ::
  "('c, 'm, 'q, 'k, 'p, 'r, 'a, 'i, 'g, 'sel, 'u, 'pt, 'h) board \<Rightarrow> ('c, 'm, 'q, 'k, 'p, 'r, 'a, 'i, 'g, 'sel, 'u, 'pt, 'h) board \<Rightarrow> bool" where
  "boot_frame s s' \<longleftrightarrow> page_tables s' = page_tables s \<and> heap_allocator s' = heap_allocator s \<and> NEXT_ID s' = NEXT_ID s \<and>
     gdtr s' = gdtr s \<and> cs_reg s' = cs_reg s \<and> task_reg s' = task_reg s \<and> idtr s' = idtr s \<and>
     (SCANCODE_QUEUE s' = None \<longleftrightarrow> SCANCODE_QUEUE s = None) \<and> disk_kept (ata s) (ata s')"

lemma boot_frame_refl: "boot_frame s s"
  by (simp add: boot_frame_def disk_kept_def)

lemma boot_frame_trans: "boot_frame s s1 \<Longrightarrow> boot_frame s1 s2 \<Longrightarrow> boot_frame s s2"
  by (auto simp: boot_frame_def disk_kept_def)

lemma kept_boot_frame: "kept s s' \<Longrightarrow> boot_frame s s'"
  by (cases s; cases s') (simp add: kept_def boot_frame_def)

locale board_spec = kernel_sync "b_kernel B" held items cap registered
  for B :: "('c, 'm, 'q, 'k, 'p, 'r, 'a, 'i, 'g, 'sel, 'u, 'pt, 'h, 'tq, 'd, 'e) board_ops" and held :: "'m \<Rightarrow> bool"
    and items :: "'q \<Rightarrow> u8 list" and cap :: "'q \<Rightarrow> nat" and registered :: "'k \<Rightarrow> TaskWaker option"
begin

text \<open>A call that returns from every ready state and changes nothing the boot relies on.\<close>

definition quiet :: "('c, 'm, 'q, 'k, 'p, 'r, 'a, 'i, 'g, 'sel, 'u, 'pt, 'h, unit) board_io \<Rightarrow> bool" where
  "quiet m \<longleftrightarrow> (\<forall>s. kernel_ready held items cap s \<longrightarrow> (\<exists>s'. m s = (Ret (), s') \<and> kernel_ready held items cap s' \<and>
     boot_frame s s' \<and> are_enabled (env_irq (k_vga (b_kernel B))) (cpu s') = are_enabled (env_irq (k_vga (b_kernel B))) (cpu s)))"

lemma quietE:
  assumes "quiet m" and "kernel_ready held items cap s"
  obtains s' where "m s = (Ret (), s')" and "kernel_ready held items cap s'" and "boot_frame s s'"
    and "are_enabled (env_irq (k_vga (b_kernel B))) (cpu s') = are_enabled (env_irq (k_vga (b_kernel B))) (cpu s)"
  using assms unfolding quiet_def by blast

lemma quiet_println: "quiet (b_println B args)"
  unfolding quiet_def
proof (intro allI impI)
  fix s :: "('c, 'm, 'q, 'k, 'p, 'r, 'a, 'i, 'g, 'sel, 'u, 'pt, 'h) board"
  assume r: "kernel_ready held items cap s"
  have v: "vga_ready held s" using r by (simp add: kernel_ready_def)
  obtain c m w where p: "print_args (k_vga (b_kernel B)) (args @ [0x0A]) s = (Ret (), s\<lparr>writer := w, writer_lock := m, cpu := c\<rparr>)"
    "are_enabled (env_irq (k_vga (b_kernel B))) c = are_enabled (env_irq (k_vga (b_kernel B))) (cpu s)" "writer_ok w" "\<not> held m"
    by (rule print_args_ok [OF v])
  show "\<exists>s'. b_println B args s = (Ret (), s') \<and> kernel_ready held items cap s' \<and> boot_frame s s' \<and>
      are_enabled (env_irq (k_vga (b_kernel B))) (cpu s') = are_enabled (env_irq (k_vga (b_kernel B))) (cpu s)"
    using p r by (auto simp: b_println_def println_args_def kernel_ready_def vga_ready_def kbd_ready_def boot_frame_def disk_kept_def)
qed

lemma driver_call:
  assumes "kernel_ready held items cap s" and "f (ata s) = (r, a)"
  obtains s' where "on_ata (k_vga (b_kernel B)) f s = (r, s')" and "kernel_ready held items cap s'"
    and "are_enabled (env_irq (k_vga (b_kernel B))) (cpu s') = are_enabled (env_irq (k_vga (b_kernel B))) (cpu s)"
    and "write_string (lines_text (new_lines (ata s) a)) (writer s) = Ret (writer s')" and "vga.more s' = vga.more (s\<lparr>ata := a\<rparr>)"
proof -
  have v: "vga_ready held s" using assms(1) by (simp add: kernel_ready_def)
  obtain c m w where o: "on_ata (k_vga (b_kernel B)) f s = (r, s\<lparr>ata := a, writer := w, writer_lock := m, cpu := c\<rparr>)"
    "are_enabled (env_irq (k_vga (b_kernel B))) c = are_enabled (env_irq (k_vga (b_kernel B))) (cpu s)"
    "write_string (lines_text (new_lines (ata s) a)) (writer s) = Ret w" "writer_ok w" "\<not> held m"
    by (rule on_ata_ok [of s f, OF v assms(2)])
  show ?thesis
    by (rule that [OF o(1)]) (use o(2-5) assms(1) in \<open>auto simp: kernel_ready_def vga_ready_def kbd_ready_def\<close>)
qed

lemma take_woken_ready:
  assumes "kernel_ready held items cap s"
  shows "\<exists>s'. take_woken s = (Ret (kbd_woken s @ woken (ata s)), s') \<and> kernel_ready held items cap s' \<and> boot_frame s s' \<and> cpu s' = cpu s"
  using assms by (auto simp: take_woken_def kernel_ready_def vga_ready_def kbd_ready_def boot_frame_def disk_kept_def)

lemma take_interrupts_ready:
  assumes "kernel_ready held items cap s"
  shows "\<exists>ws s'. take_interrupts B is s = (Ret ws, s') \<and> kernel_ready held items cap s' \<and> boot_frame s s' \<and> cpu s' = cpu s"
  using assms
proof (induction "is" arbitrary: s)
  case Nil
  then show ?case using take_woken_ready by fastforce
next
  case (Cons i "is")
  obtain s1 where s1: "interrupt (b_kernel B) (b_info B) i s = (Ret (), s1)" "kernel_ready held items cap s1" "boot_frame s s1" "cpu s1 = cpu s"
    using interrupt_ok [OF Cons.prems, of "b_info B" i] kept_boot_frame by (auto simp: handler_post_def)
  obtain s2 where s2: "take_woken s1 = (Ret (kbd_woken s1 @ woken (ata s1)), s2)" "kernel_ready held items cap s2" "boot_frame s1 s2" "cpu s2 = cpu s1"
    using take_woken_ready [OF s1(2)] by blast
  obtain ws s3 where s3: "take_interrupts B is s2 = (Ret ws, s3)" "kernel_ready held items cap s3" "boot_frame s2 s3" "cpu s3 = cpu s2"
    using Cons.IH [OF s2(2)] by blast
  have "boot_frame s s3" using s1(3) s2(3) s3(3) boot_frame_trans by blast
  then show ?case using s1 s2 s3 by (simp add: io_bind_def)
qed

lemma batch_ready:
  assumes "kernel_ready held items cap s"
  shows "\<exists>ws s'. batch B s = (Ret ws, s') \<and> kernel_ready held items cap s' \<and> boot_frame s s' \<and> cpu s' = cpu s"
proof -
  have "kernel_ready held items cap (s\<lparr>arrivals := tl (arrivals s)\<rparr>)" using assms by (auto simp: kernel_ready_def vga_ready_def kbd_ready_def)
  from take_interrupts_ready [OF this, of "next_batch (arrivals s)"] show ?thesis
    by (auto simp: batch_def boot_frame_def)
qed

lemma quiet_arrive: "quiet (arrive B)"
  unfolding quiet_def arrive_def using batch_ready by (fastforce simp: io_bind_def boot_frame_refl)

end

text \<open>The conditions under which the heap comes up: enough frames, unmapped heap pages, a fresh allocator.\<close>

definition heap_bootable ::
  "('c, 'm, 'q, 'k, 'p, 'r, 'a, 'i, 'g, 'sel, 'u, 'pt, 'h, 'tq, 'd, 'e) board_ops \<Rightarrow> ('pt \<Rightarrow> u64 \<Rightarrow> nat \<Rightarrow> (u64, FrameError) result) \<Rightarrow> u64 \<Rightarrow>
   BootInfo \<Rightarrow> ('c, 'm, 'q, 'k, 'p, 'r, 'a, 'i, 'g, 'sel, 'u, 'pt, 'h) board \<Rightarrow> bool" where
  "heap_bootable B ent offset boot_info s \<longleftrightarrow>
     paging_spec (b_paging B) ent offset \<and> virt_addr_new (b_paging B) (physical_memory_offset boot_info) = Ret offset \<and>
     map_ok (boot_memory_map boot_info) \<and> 100 \<le> length (frame_addresses (boot_memory_map boot_info)) \<and>
     (\<forall>a. heap_addr a \<longrightarrow> translate_addr (b_paging B) a offset (page_tables s) = Ret None) \<and>
     (\<exists>mem h0 p h1. heap_allocator s = FixedSizeBlockAllocator_new (b_heap B) mem \<and>
        heap_init (b_heap B) HEAP_START HEAP_SIZE (heap_empty (b_heap B)) = (Ret (), h0) \<and>
        heap_allocate_first_fit (b_heap B) (block_layout 0) h0 = (Ret (Ok p), h1) \<and> p \<noteq> 0)"

definition heap_mapped ::
  "('pt, BootInfoFrameAllocator) paging_ops \<Rightarrow> u64 \<Rightarrow> MemoryRegion list \<Rightarrow> 'pt \<Rightarrow> bool" where
  "heap_mapped P offset m pt \<longleftrightarrow> (\<exists>g. (\<forall>a. heap_addr a \<longrightarrow>
       translate_addr P a offset pt = Ret (Some (g (page_start a) + of_nat (unat a mod 4096))) \<and> g (page_start a) \<in> set (frame_addresses m)) \<and>
     (\<forall>a b. heap_addr a \<longrightarrow> heap_addr b \<longrightarrow> g (page_start a) = g (page_start b) \<longrightarrow> page_start a = page_start b))"

lemma box_layout: "list_index \<lparr>l_size = 4, l_align = 4\<rparr> = Some 0"
  by (simp add: list_index_def BLOCK_SIZES_def)

lemma boot_heap_ok:
  assumes "heap_bootable B ent offset boot_info s"
  obtains pt al where "boot_heap B boot_info s = (Ret (), s\<lparr>page_tables := pt, heap_allocator := al\<rparr>)"
    and "heap_mapped (b_paging B) offset (boot_memory_map boot_info) pt"
    and "\<exists>p al'. fsb_alloc (b_heap B) \<lparr>l_size = 4, l_align = 4\<rparr> al = (Ret p, al') \<and> p \<noteq> 0"
proof -
  let ?P = "b_paging B" and ?m = "boot_memory_map boot_info"
  obtain mem h0 p h1 where h: "heap_allocator s = FixedSizeBlockAllocator_new (b_heap B) mem"
    "heap_init (b_heap B) HEAP_START HEAP_SIZE (heap_empty (b_heap B)) = (Ret (), h0)"
    "heap_allocate_first_fit (b_heap B) (block_layout 0) h0 = (Ret (Ok p), h1)" "p \<noteq> 0"
    using assms by (auto simp: heap_bootable_def)
  have sp: "paging_spec ?P ent offset" "virt_addr_new ?P (physical_memory_offset boot_info) = Ret offset" "map_ok ?m"
    "100 \<le> length (frame_addresses ?m)" "\<forall>a. heap_addr a \<longrightarrow> translate_addr ?P a offset (page_tables s) = Ret None"
    using assms by (auto simp: heap_bootable_def)
  define al where "al = (heap_allocator s)\<lparr>fallback_allocator := h0\<rparr>"
  have init: "fsb_init (b_heap B) HEAP_START HEAP_SIZE (heap_allocator s) = (Ret (), al)"
    using h(1,2) by (simp add: al_def fsb_init_def on_fallback_def FixedSizeBlockAllocator_new_def)
  let ?hs = "\<lparr>mapper = page_tables s, frame_alloc = BootInfoFrameAllocator_init ?m, ALLOCATOR = heap_allocator s\<rparr>"
  obtain hs' where hs': "init_heap ?P (allocate_frame (b_oc B) ?P) (b_heap B) ?hs = (Ret (Ok ()), hs')" "ALLOCATOR hs' = al"
    "heap_mapped ?P offset ?m (mapper hs')"
    using init_heap_translates [OF sp(1,3), of ?hs 0 "b_heap B" al "b_oc B"] sp(4,5) init
    unfolding heap_mapped_def by (auto simp: BootInfoFrameAllocator_init_def)
  obtain v where v: "virt_add ?P offset (cr3_read ?P (page_tables s)) = Ret v"
    using paging_spec.offset_law [OF sp(1) paging_spec.cr3_law [OF sp(1)]] by blast
  have box: "\<exists>q al'. fsb_alloc (b_heap B) \<lparr>l_size = 4, l_align = 4\<rparr> al = (Ret q, al') \<and> q \<noteq> 0"
    using h by (simp add: fsb_alloc_def box_layout al_def FixedSizeBlockAllocator_new_def fallback_alloc_def on_fallback_def
        heap_alloc_def io_bind_def)
  show ?thesis
    by (rule that [of al "mapper hs'"])
      (use sp(2) v hs' box in \<open>simp_all add: boot_heap_def memory_init_def active_level_4_table_def io_bind_def\<close>)
qed

context board_spec
begin

lemma box_new_ok:
  assumes "fsb_alloc (b_heap B) \<lparr>l_size = 4, l_align = 4\<rparr> (heap_allocator s) = (Ret p, al)" and "p \<noteq> 0"
  shows "box_new_i32 B s = (Ret p, s\<lparr>heap_allocator := al\<rparr>)"
  using assms by (simp add: box_new_i32_def io_bind_def)

end

context board_spec
begin

lemma boot_init_ok:
  assumes "kernel_ready held items cap s"
  obtains s' where "boot_init B s = (Ret (), s')" and "kernel_ready held items cap s'"
    and "are_enabled (env_irq (k_vga (b_kernel B))) (cpu s')" and "idtr s' = Some IDT" and "page_tables s' = page_tables s"
    and "heap_allocator s' = heap_allocator s" and "NEXT_ID s' = NEXT_ID s" and "disk_kept (ata s) (ata s')"
    and "SCANCODE_QUEUE s' = None \<longleftrightarrow> SCANCODE_QUEUE s = None"
proof -
  let ?on = "\<lambda>s. are_enabled (env_irq (k_vga (b_kernel B))) (cpu s)" and ?R = "kernel_ready held items cap"
  obtain s1 where s1: "b_println B (bytes ''Hello World!'') s = (Ret (), s1)" "?R s1" "boot_frame s s1"
    by (rule quietE [OF quiet_println assms])
  have "\<not> held (pics_lock s1)" using s1(2) by (simp add: kernel_ready_def)
  then obtain s2 where s2: "kernel_init (b_machine B) s1 = (Ret (), s2)" "?R s2" "?on s2" "idtr s2 = Some IDT"
    "page_tables s2 = page_tables s1" "heap_allocator s2 = heap_allocator s1" "NEXT_ID s2 = NEXT_ID s1" "ata s2 = ata s1" "SCANCODE_QUEUE s2 = SCANCODE_QUEUE s1"
    using kernel_init_ok [OF vga_sync_axioms, of s1] s1(2) by (auto simp: kernel_ready_def vga_ready_def kbd_ready_def)
  obtain s3 where s3: "arrive B s2 = (Ret (), s3)" "?R s3" "boot_frame s2 s3" "?on s3 = ?on s2"
    by (rule quietE [OF quiet_arrive s2(2)])
  show ?thesis
    by (rule that [of s3]) (use s1 s2 s3 in \<open>simp_all add: boot_init_def io_bind_def boot_frame_def disk_kept_def\<close>)
qed

text \<open>The state after the hardware is up.\<close>

lemma boot_hardware_ok:
  assumes "kernel_ready held items cap s" and "heap_bootable B ent offset boot_info s"
    and "DISK_REQUEST_QUEUE (ata s) = None" and "DISK_WAKER (ata s) = None" and "SCANCODE_QUEUE s = None"
  shows "\<exists>s'. boot_hardware B boot_info s = (Ret (), s') \<and> kernel_ready held items cap s' \<and>
    are_enabled (env_irq (k_vga (b_kernel B))) (cpu s') \<and> idtr s' = Some IDT \<and> DISK_REQUEST_QUEUE (ata s') \<noteq> None \<and>
    heap_mapped (b_paging B) offset (boot_memory_map boot_info) (page_tables s') \<and> NEXT_ID s' = NEXT_ID s \<and> SCANCODE_QUEUE s' = None"
proof -
  let ?on = "\<lambda>s. are_enabled (env_irq (k_vga (b_kernel B))) (cpu s)" and ?R = "kernel_ready held items cap"
  obtain s3 where s3: "boot_init B s = (Ret (), s3)" "?R s3" "?on s3" "idtr s3 = Some IDT" "page_tables s3 = page_tables s"
    "heap_allocator s3 = heap_allocator s" "NEXT_ID s3 = NEXT_ID s" "disk_kept (ata s) (ata s3)" "SCANCODE_QUEUE s3 = None \<longleftrightarrow> SCANCODE_QUEUE s = None"
    by (rule boot_init_ok [OF assms(1)])
  have "heap_bootable B ent offset boot_info s3"
    using assms(2) s3(5,6) by (simp add: heap_bootable_def)
  then obtain pt al where s4: "boot_heap B boot_info s3 = (Ret (), s3\<lparr>page_tables := pt, heap_allocator := al\<rparr>)"
    "heap_mapped (b_paging B) offset (boot_memory_map boot_info) pt"
    "\<exists>p al'. fsb_alloc (b_heap B) \<lparr>l_size = 4, l_align = 4\<rparr> al = (Ret p, al') \<and> p \<noteq> 0"
    by (rule boot_heap_ok)
  let ?s4 = "s3\<lparr>page_tables := pt, heap_allocator := al\<rparr>"
  have "?R ?s4" using s3(2) by (auto simp: kernel_ready_def vga_ready_def kbd_ready_def)
  then obtain s5 where s5: "arrive B ?s4 = (Ret (), s5)" "?R s5" "boot_frame ?s4 s5" "?on s5 = ?on ?s4"
    by (rule quietE [OF quiet_arrive])
  obtain p al' where box: "box_new_i32 B s5 = (Ret p, s5\<lparr>heap_allocator := al'\<rparr>)"
    using s4(3) s5(3) box_new_ok [of s5] by (auto simp: boot_frame_def)
  let ?s6 = "s5\<lparr>heap_allocator := al'\<rparr>"
  have "?R ?s6" using s5(2) by (auto simp: kernel_ready_def vga_ready_def kbd_ready_def)
  then obtain s7 where s7: "b_println B (bytes ''heap_value at 0x'' @ show_hex (unat p)) ?s6 = (Ret (), s7)" "?R s7" "boot_frame ?s6 s7" "?on s7 = ?on ?s6"
    by (rule quietE [OF quiet_println])
  obtain s8 where s8: "arrive B s7 = (Ret (), s8)" "?R s8" "boot_frame s7 s8" "?on s8 = ?on s7"
    by (rule quietE [OF quiet_arrive s7(2)])
  have "DISK_REQUEST_QUEUE (ata s8) = None" "DISK_WAKER (ata s8) = None"
    using assms(3,4) s3(8) s5(3) s7(3) s8(3) by (auto simp: boot_frame_def disk_kept_def)
  then obtain a where a: "ata_init (k_ata (b_kernel B)) AtaDriver_new (ata s8) = (Ret \<lparr>initialized = True\<rparr>, a)" "DISK_REQUEST_QUEUE a \<noteq> None"
    by (simp add: ata_init_lines)
  obtain s9 where s9: "on_ata (k_vga (b_kernel B)) (ata_init (k_ata (b_kernel B)) AtaDriver_new) s8 = (Ret \<lparr>initialized = True\<rparr>, s9)"
    "?R s9" "?on s9 = ?on s8" "vga.more s9 = vga.more (s8\<lparr>ata := a\<rparr>)"
    by (rule driver_call [of s8 "ata_init (k_ata (b_kernel B)) AtaDriver_new", OF s8(2) a(1)])
  have f9: "boot_frame (s8\<lparr>ata := a\<rparr>) s9" using s9(4) by (cases s8; cases s9) (simp add: boot_frame_def disk_kept_def)
  obtain s10 where s10: "arrive B s9 = (Ret (), s10)" "?R s10" "boot_frame s9 s10" "?on s10 = ?on s9"
    by (rule quietE [OF quiet_arrive s9(2)])
  obtain s11 where s11: "b_println B (bytes ''It did not crash!'') s10 = (Ret (), s11)" "?R s11" "boot_frame s10 s11" "?on s11 = ?on s10"
    by (rule quietE [OF quiet_println s10(2)])
  have "boot_hardware B boot_info s = (Ret (), s11)"
    using s3(1) s4(1) s5(1) box s7(1) s8(1) s9(1) s10(1) s11(1) by (simp add: boot_hardware_def io_bind_def)
  then show ?thesis
    using s3(3-9) s4(2) s5(3,4) s7(3,4) s8(3,4) a(2) s9(3) f9 s10(3,4) s11(2-4) assms(5)
    by (simp add: boot_frame_def disk_kept_def)
qed

end

definition task_futures :: "('f, 'q, 'c, 'w) exec_state \<Rightarrow> TaskId \<rightharpoonup> 'f" where
  "task_futures x tid = map_option future (Mapping.lookup (tasks x) tid)"

lemma spawn_new_ok:
  assumes "queue_spec (b_tasks B) titems tcap" and "task_futures x (TaskId (NEXT_ID (world x))) = None"
    and "length (titems (task_queue x)) < tcap (task_queue x)"
  obtains x' where "spawn_new B f x = (Ret (), x')" and "world x' = (world x)\<lparr>NEXT_ID := NEXT_ID (world x) + 1\<rparr>"
    and "task_futures x' = (task_futures x)(TaskId (NEXT_ID (world x)) \<mapsto> f)" and "exec_cpu x' = exec_cpu x"
    and "titems (task_queue x') = titems (task_queue x) @ [TaskId (NEXT_ID (world x))]" and "tcap (task_queue x') = tcap (task_queue x)"
    and "waker_cache x' = waker_cache x"
proof -
  obtain q where q: "aq_push (b_tasks B) (TaskId (NEXT_ID (world x))) (task_queue x) = (Ok (), q)"
    "titems q = titems (task_queue x) @ [TaskId (NEXT_ID (world x))]" "tcap q = tcap (task_queue x)"
    using queue_spec.push_law [OF assms(1,3)] by blast
  let ?x = "x\<lparr>world := (world x)\<lparr>NEXT_ID := NEXT_ID (world x) + 1\<rparr>,
      tasks := Mapping.update (TaskId (NEXT_ID (world x))) \<lparr>task_id = TaskId (NEXT_ID (world x)), future = f\<rparr> (tasks x), task_queue := q\<rparr>"
  have "spawn_new B f x = (Ret (), ?x)"
    using q assms(2) by (simp add: spawn_new_def Task_new_def TaskId_new_def spawn_def kernel_exec_def Let_def task_futures_def)
  moreover have "task_futures ?x = (task_futures x)(TaskId (NEXT_ID (world x)) \<mapsto> f)"
    by (rule ext) (simp add: task_futures_def lookup_update')
  ultimately show ?thesis by (intro that [of ?x]) (use q in simp_all)
qed

text \<open>The three tasks, in the order they were spawned.\<close>

lemma spawn_tasks_ok:
  assumes "queue_spec (b_tasks B) titems tcap" and "NEXT_ID s = 0"
  shows "\<exists>x. spawn_tasks B (start_executor B s) = (Ret (), x) \<and> titems (task_queue x) = [TaskId 0, TaskId 1, TaskId 2] \<and>
    task_futures x = [TaskId 0 \<mapsto> ExampleTask, TaskId 1 \<mapsto> DiskReadTask DiskNotStarted, TaskId 2 \<mapsto> KeypressTask NotStarted] \<and>
    world x = s\<lparr>NEXT_ID := 3\<rparr> \<and> exec_cpu x = cpu s \<and> tcap (task_queue x) = 100 \<and> waker_cache x = Mapping.empty"
proof -
  let ?x = "start_executor B s"
  have x: "task_futures ?x = Map.empty" "titems (task_queue ?x) = []" "tcap (task_queue ?x) = 100" "world ?x = s" "exec_cpu ?x = cpu s"
    "waker_cache ?x = Mapping.empty"
    using queue_spec.new_law [OF assms(1), of 100]
    by (simp_all add: start_executor_def Executor_new_def Executor.defs exec_state.defs task_futures_def lookup_empty fun_eq_iff)
  obtain x1 where x1: "spawn_new B ExampleTask ?x = (Ret (), x1)" "world x1 = s\<lparr>NEXT_ID := 1\<rparr>" "task_futures x1 = [TaskId 0 \<mapsto> ExampleTask]"
    "exec_cpu x1 = cpu s" "titems (task_queue x1) = [TaskId 0]" "tcap (task_queue x1) = 100" "waker_cache x1 = Mapping.empty"
    by (rule spawn_new_ok [OF assms(1), of ?x ExampleTask]) (use x assms(2) in simp_all)
  obtain x2 where x2: "spawn_new B (DiskReadTask DiskNotStarted) x1 = (Ret (), x2)" "world x2 = s\<lparr>NEXT_ID := 2\<rparr>"
    "task_futures x2 = [TaskId 0 \<mapsto> ExampleTask, TaskId 1 \<mapsto> DiskReadTask DiskNotStarted]"
    "exec_cpu x2 = cpu s" "titems (task_queue x2) = [TaskId 0, TaskId 1]" "tcap (task_queue x2) = 100" "waker_cache x2 = Mapping.empty"
    by (rule spawn_new_ok [OF assms(1), of x1 "DiskReadTask DiskNotStarted"]) (use x1 in simp_all)
  obtain x3 where x3: "spawn_new B (KeypressTask NotStarted) x2 = (Ret (), x3)" "world x3 = s\<lparr>NEXT_ID := 3\<rparr>"
    "task_futures x3 = [TaskId 0 \<mapsto> ExampleTask, TaskId 1 \<mapsto> DiskReadTask DiskNotStarted, TaskId 2 \<mapsto> KeypressTask NotStarted]"
    "exec_cpu x3 = cpu s" "titems (task_queue x3) = [TaskId 0, TaskId 1, TaskId 2]" "tcap (task_queue x3) = 100" "waker_cache x3 = Mapping.empty"
    by (rule spawn_new_ok [OF assms(1), of x2 "KeypressTask NotStarted"]) (use x2 in simp_all)
  show ?thesis using x1(1) x2(1) x3 by (simp add: spawn_tasks_def io_bind_def)
qed

section \<open>Turns of the running kernel\<close>

text \<open>The executor between two of its steps: \<open>tids\<close> are ready, interrupts are enabled and no waker is left to report.\<close>

definition executing ::
  "('c, 'm, 'q, 'k, 'p, 'r, 'a, 'i, 'g, 'sel, 'u, 'pt, 'h, 'tq, 'd, 'e) board_ops \<Rightarrow> ('m \<Rightarrow> bool) \<Rightarrow> ('q \<Rightarrow> u8 list) \<Rightarrow> ('q \<Rightarrow> nat) \<Rightarrow>
   ('tq \<Rightarrow> TaskId list) \<Rightarrow> ('tq \<Rightarrow> nat) \<Rightarrow> TaskId list \<Rightarrow> ('d kernel_future, 'tq, 'c, ('c, 'm, 'q, 'k, 'p, 'r, 'a, 'i, 'g, 'sel, 'u, 'pt, 'h) board) exec_state \<Rightarrow> bool" where
  "executing B held items cap titems tcap tids x \<longleftrightarrow>
     titems (task_queue x) = tids \<and> tcap (task_queue x) = 100 \<and> are_enabled (env_irq (k_vga (b_kernel B))) (exec_cpu x) \<and>
     kernel_ready held items cap (world x) \<and> kbd_woken (world x) = [] \<and> woken (ata (world x)) = []"

lemma kernel_exec_queue: "ex_queue (kernel_exec B) = b_tasks B" "ex_irq (kernel_exec B) = env_irq (k_vga (b_kernel B))"
  by (simp_all add: kernel_exec_def)

lemma kernel_ready_arrivals [simp]:
  "kernel_ready held items cap ((s :: ('c, 'm, 'q, 'k, 'p, 'r, 'a, 'i, 'g, 'sel, 'u, 'pt, 'h) board)\<lparr>arrivals := bs\<rparr>) = kernel_ready held items cap s"
  by (simp add: kernel_ready_def vga_ready_def kbd_ready_def)

lemma kernel_ready_woken [simp]:
  "kernel_ready held items cap ((s :: ('c, 'm, 'q, 'k, 'p, 'r, 'a, 'i, 'g, 'sel, 'u, 'pt, 'h) board)\<lparr>kbd_woken := ws, ata := a\<rparr>) = kernel_ready held items cap s"
  by (simp add: kernel_ready_def vga_ready_def kbd_ready_def)

lemma task_futures_frame [simp]:
  "task_futures (x\<lparr>world := w\<rparr>) = task_futures x" "task_futures (x\<lparr>task_queue := q\<rparr>) = task_futures x"
  "task_futures (x\<lparr>exec_cpu := c\<rparr>) = task_futures x"
  by (simp_all add: task_futures_def fun_eq_iff)

lemma cached_waker_fst: "fst (cached_waker k m) = (case Mapping.lookup m k of None \<Rightarrow> \<lparr>waker_id = k\<rparr> | Some w \<Rightarrow> w)"
  by (simp add: cached_waker_def TaskWaker_new_def split: option.split)

lemma take_woken_nothing:
  assumes "kbd_woken s = []" and "woken (ata s) = []"
  shows "take_woken s = (Ret [], s)"
proof -
  have "(ata s)\<lparr>woken := []\<rparr> = ata s" using assms(2) by simp
  then have "s\<lparr>kbd_woken := [], ata := (ata s)\<lparr>woken := []\<rparr>\<rparr> = s" using assms(1) by simp
  then show ?thesis using assms by (simp add: take_woken_def)
qed

locale running = board_spec B held items cap registered
  for B :: "('c, 'm, 'q, 'k, 'p, 'r, 'a, 'i, 'g, 'sel, 'u, 'pt, 'h, 'tq, 'd, 'e) board_ops" and held :: "'m \<Rightarrow> bool"
    and items :: "'q \<Rightarrow> u8 list" and cap :: "'q \<Rightarrow> nat" and registered :: "'k \<Rightarrow> TaskWaker option" +
  fixes titems :: "'tq \<Rightarrow> TaskId list" and tcap :: "'tq \<Rightarrow> nat"
  assumes task_queue_law: "queue_spec (b_tasks B) titems tcap"
begin

abbreviation exe where "exe \<equiv> executing B held items cap titems tcap"

abbreviation same_tasks where "same_tasks x x' \<equiv> task_futures x' = task_futures x \<and> waker_cache x' = waker_cache x"

lemma deliver_none:
  assumes "exe tids x" and "arrivals (world x) = [] # bs"
  shows "deliver (kernel_exec B) x = (Ret (), x\<lparr>world := (world x)\<lparr>arrivals := bs\<rparr>\<rparr>)" and "exe tids (x\<lparr>world := (world x)\<lparr>arrivals := bs\<rparr>\<rparr>)"
proof -
  have "batch B (world x) = (Ret [], (world x)\<lparr>arrivals := bs\<rparr>)"
    using assms take_woken_nothing [of "(world x)\<lparr>arrivals := bs\<rparr>"] by (simp add: executing_def batch_def next_batch_def)
  then show "deliver (kernel_exec B) x = (Ret (), x\<lparr>world := (world x)\<lparr>arrivals := bs\<rparr>\<rparr>)"
    using assms(1) by (simp add: executing_def deliver_def kernel_exec_def)
  show "exe tids (x\<lparr>world := (world x)\<lparr>arrivals := bs\<rparr>\<rparr>)" using assms(1) by (simp add: executing_def)
qed

lemma ready_tasks_none:
  assumes "exe [] x" and "arrivals (world x) = [] # bs"
  obtains x' where "run_ready_tasks (kernel_exec B) x = Some (Ret (), x')" and "exe [] x'" and "world x' = (world x)\<lparr>arrivals := bs\<rparr>"
    and "same_tasks x x'"
proof -
  note d = deliver_none [OF assms]
  have "titems (task_queue x) = []" using assms(1) by (simp add: executing_def)
  then obtain q where q: "aq_pop (b_tasks B) (task_queue x) = (None, q)" "titems q = []" "tcap q = tcap (task_queue x)"
    using queue_spec.pop_empty_law [OF task_queue_law] by blast
  have "run_ready_step (kernel_exec B) x = (Ret False, x\<lparr>world := (world x)\<lparr>arrivals := bs\<rparr>, task_queue := q\<rparr>)"
    using d(1) q(1) by (simp add: run_ready_step_def io_bind_def kernel_exec_queue)
  then have "run_ready_tasks (kernel_exec B) x = Some (Ret (), x\<lparr>world := (world x)\<lparr>arrivals := bs\<rparr>, task_queue := q\<rparr>)"
    by (simp add: run_ready_tasks.simps)
  then show ?thesis
    by (rule that) (use d(2) q(2,3) in \<open>simp_all add: executing_def\<close>)
qed

lemma sleep_executing:
  assumes "deliver (kernel_exec B) x = (Ret (), x1)" and "exe tids x1"
  obtains x' where "sleep_if_idle (kernel_exec B) x = (Ret (tids = []), x')" and "exe tids x'" and "world x' = world x1" and "same_tasks x1 x'"
proof -
  let ?I = "env_irq (k_vga (b_kernel B))"
  let ?c = "irq_enable ?I (irq_disable ?I (exec_cpu x1))"
  have "sleep_if_idle (kernel_exec B) x = (Ret (tids = []), x1\<lparr>exec_cpu := ?c\<rparr>)"
    using assms queue_spec.is_empty_law [OF task_queue_law]
    by (simp add: sleep_if_idle_def io_bind_def Let_def executing_def kernel_exec_queue)
  then show ?thesis
    by (rule that) (use assms(2) enable_law in \<open>simp_all add: executing_def\<close>)
qed

text \<open>An interrupt that calls one waker makes its task ready.\<close>

lemma deliver_wakes:
  assumes "exe [] x" and "arrivals (world x) = [i] # bs"
    and "interrupt (b_kernel B) (b_info B) i ((world x)\<lparr>arrivals := bs\<rparr>) = (Ret (), s)" and "kernel_ready held items cap s"
    and "kbd_woken s @ woken (ata s) = [\<lparr>waker_id = tid\<rparr>]"
  obtains x' where "deliver (kernel_exec B) x = (Ret (), x')" and "exe [tid] x'"
    and "world x' = s\<lparr>kbd_woken := [], ata := (ata s)\<lparr>woken := []\<rparr>\<rparr>" and "same_tasks x x'"
proof -
  let ?s = "s\<lparr>kbd_woken := [], ata := (ata s)\<lparr>woken := []\<rparr>\<rparr>"
  have batch: "batch B (world x) = (Ret [\<lparr>waker_id = tid\<rparr>], ?s)"
    using assms(2,3,5) by (simp add: batch_def next_batch_def io_bind_def take_woken_def)
  have room: "length (titems (task_queue x)) < tcap (task_queue x)" using assms(1) by (simp add: executing_def)
  obtain q where q: "aq_push (b_tasks B) tid (task_queue x) = (Ok (), q)" "titems q = [tid]" "tcap q = 100"
    using queue_spec.push_law [OF task_queue_law room, of tid] assms(1) by (auto simp: executing_def)
  have "deliver (kernel_exec B) x = (Ret (), x\<lparr>world := ?s, task_queue := q\<rparr>)"
    using assms(1) batch q(1) by (simp add: executing_def deliver_def kernel_exec_def wake_task_def io_bind_def)
  then show ?thesis
    by (rule that) (use assms(1,4) q in \<open>simp_all add: executing_def\<close>)
qed

text \<open>The poll of the first ready task; its waker is cached or made anew.\<close>

lemma step_polls:
  assumes "exe (tid # tids) x" and "arrivals (world x) = [] # bs" and "task_futures x tid = Some f"
    and "fst (cached_waker tid (waker_cache x)) = \<lparr>waker_id = tid\<rparr>"
    and "poll_future B \<lparr>waker_id = tid\<rparr> f ((world x)\<lparr>arrivals := bs\<rparr>) = (Ret (f', r), s)"
    and "kernel_ready held items cap s" and "kbd_woken s = []" and "woken (ata s) = []"
  obtains x' where "run_ready_step (kernel_exec B) x = (Ret True, x')" and "exe tids x'" and "world x' = s"
    and "task_futures x' = (task_futures x)(tid := (if r = Pending then Some f' else None))"
    and "\<forall>k. fst (cached_waker k (waker_cache x')) = fst (cached_waker k (waker_cache x))"
proof -
  let ?x = "x\<lparr>world := (world x)\<lparr>arrivals := bs\<rparr>\<rparr>" and ?wk = "\<lparr>waker_id = tid\<rparr>"
  note d = deliver_none [OF assms(1,2)]
  obtain t where t: "Mapping.lookup (tasks x) tid = Some t" "future t = f" using assms(3) by (auto simp: task_futures_def)
  obtain cache where c: "cached_waker tid (waker_cache x) = (?wk, cache)" using assms(4) by (cases "cached_waker tid (waker_cache x)") simp
  have "titems (task_queue x) = tid # tids" using assms(1) by (simp add: executing_def)
  then obtain q where q: "aq_pop (b_tasks B) (task_queue x) = (Some tid, q)" "titems q = tids" "tcap q = 100"
    using queue_spec.pop_law [OF task_queue_law] assms(1) by (force simp: executing_def)
  have p: "ex_poll (kernel_exec B) ?wk f ((world x)\<lparr>arrivals := bs\<rparr>) = ((Ret (f', r), []), s)"
    using assms(5,7,8) take_woken_nothing [of s] by (simp add: kernel_exec_def)
  obtain x' where x': "finish_poll tid t (Ret (f', r)) (?x\<lparr>task_queue := q, waker_cache := cache, world := s\<rparr>) = (Ret True, x')"
    by (cases r) (simp_all add: finish_poll_def)
  have "run_ready_step (kernel_exec B) x = (Ret True, x')"
    using d(1) q(1) t c p x' by (simp add: run_ready_step_def io_bind_def poll_task_def kernel_exec_queue)
  then show ?thesis
  proof (rule that)
    show "\<forall>k. fst (cached_waker k (waker_cache x')) = fst (cached_waker k (waker_cache x))"
      using x' cached_waker_lookup(1) [OF c] assms(4)
      by (cases r) (auto simp: finish_poll_def cached_waker_fst lookup_delete_if)
  qed (use x' assms(1,6-8) q(2,3) t(2) in
      \<open>auto simp: finish_poll_def executing_def task_futures_def lookup_update' lookup_delete_if fun_eq_iff split: poll.splits\<close>)
qed

end

section \<open>From a key press to the screen\<close>

text \<open>
  The executor with the keyboard task \<open>tid\<close> suspended in its loop: \<open>scs\<close> are the scancodes not yet
  read, and with none the task's waker is registered.
\<close>

definition attending ::
  "('c, 'm, 'q, 'k, 'p, 'r, 'a, 'i, 'g, 'sel, 'u, 'pt, 'h, 'tq, 'd, 'e) board_ops \<Rightarrow> ('m \<Rightarrow> bool) \<Rightarrow> ('q \<Rightarrow> u8 list) \<Rightarrow> ('q \<Rightarrow> nat) \<Rightarrow>
   ('k \<Rightarrow> TaskWaker option) \<Rightarrow> ('tq \<Rightarrow> TaskId list) \<Rightarrow> ('tq \<Rightarrow> nat) \<Rightarrow> TaskId \<Rightarrow> 'd \<Rightarrow> TaskId list \<Rightarrow> u8 list \<Rightarrow>
   ('d kernel_future, 'tq, 'c, ('c, 'm, 'q, 'k, 'p, 'r, 'a, 'i, 'g, 'sel, 'u, 'pt, 'h) board) exec_state \<Rightarrow> bool" where
  "attending B held items cap registered titems tcap tid d tids scs x \<longleftrightarrow>
     executing B held items cap titems tcap tids x \<and>
     task_futures x tid = Some (KeypressTask (Reading d)) \<and> fst (cached_waker tid (waker_cache x)) = \<lparr>waker_id = tid\<rparr> \<and>
     SCANCODE_QUEUE (world x) \<noteq> None \<and> scancodes items (world x) = scs \<and>
     (scs = [] \<longrightarrow> registered (KBD_WAKER (world x)) = Some \<lparr>waker_id = tid\<rparr>)"

text \<open>The scancodes the controller gives in the next \<open>n\<close> reads.\<close>

fun port_keys :: "'p port_ops \<Rightarrow> nat \<Rightarrow> 'p \<Rightarrow> u8 list" where
  "port_keys P 0 p = []"
| "port_keys P (Suc n) p = (case port_read8 P 0x60 p of (sc, p') \<Rightarrow> sc # port_keys P n p')"

context running
begin

abbreviation att where "att \<equiv> attending B held items cap registered titems tcap"

text \<open>A key press wakes the waiting task.\<close>

lemma deliver_key:
  assumes "att tid d [] [] x" and "arrivals (world x) = [KeyboardIrq] # bs"
    and "port_read8 (env_ports (k_ata (b_kernel B))) 0x60 (ports (ata (world x))) = (sc, p)"
  obtains x' where "deliver (kernel_exec B) x = (Ret (), x')" and "att tid d [tid] [sc] x'" and "arrivals (world x') = bs"
    and "writer (world x') = writer (world x)" and "ports (ata (world x')) = p"
proof -
  let ?w = "(world x)\<lparr>arrivals := bs\<rparr>" and ?wk = "\<lparr>waker_id = tid\<rparr>"
  have e: "exe [] x" and r: "kernel_ready held items cap ?w" "SCANCODE_QUEUE ?w \<noteq> None" "length (scancodes items ?w) < 100"
    "port_read8 (env_ports (k_ata (b_kernel B))) 0x60 (ports (ata ?w)) = (sc, p)"
    using assms(1,3) by (auto simp: attending_def executing_def scancodes_def)
  obtain s1 q where s1: "interrupt (b_kernel B) (b_info B) KeyboardIrq ?w = (Ret (), s1)" "SCANCODE_QUEUE s1 = Some q" "items q = scancodes items ?w @ [sc]"
    "kbd_woken s1 = kbd_woken ?w @ (case registered (KBD_WAKER ?w) of None \<Rightarrow> [] | Some w \<Rightarrow> [w])"
    "ata s1 = (ata ?w)\<lparr>ports := p\<rparr>" "writer s1 = writer ?w" "kernel_state.more s1 = kernel_state.more ?w" "kernel_ready held items cap s1"
    by (rule keyboard_delivers [OF r])
  have woken: "kbd_woken s1 @ woken (ata s1) = [?wk]" "items q = [sc]"
    using assms(1) s1(3-5) by (simp_all add: attending_def executing_def scancodes_def)
  have arr: "arrivals s1 = bs" using s1(7) by (cases s1; cases "world x") simp
  obtain x' where x': "deliver (kernel_exec B) x = (Ret (), x')" "exe [tid] x'" "world x' = s1\<lparr>kbd_woken := [], ata := (ata s1)\<lparr>woken := []\<rparr>\<rparr>" "same_tasks x x'"
    by (rule deliver_wakes [OF e assms(2) s1(1,8) woken(1)])
  have "att tid d [tid] [sc] x'"
    using assms(1) s1(2) woken(2) x'(2-4) by (simp add: attending_def scancodes_def)
  then show ?thesis using arr s1(5,6) x'(1,3) by (intro that [of x']) simp_all
qed

text \<open>A woken task prints what was typed and waits again.\<close>

lemma poll_typed:
  assumes "att tid d [tid] scs x" and "arrivals (world x) = [] # bs"
  obtains x' where "run_ready_step (kernel_exec B) x = (Ret True, x')" and "att tid (snd (typed (b_decoder B) scs d)) [] [] x'"
    and "arrivals (world x') = bs" and "ports (ata (world x')) = ports (ata (world x))"
    and "write_string (fst (typed (b_decoder B) scs d)) (writer (world x)) = Ret (writer (world x'))"
proof -
  let ?w = "(world x)\<lparr>arrivals := bs\<rparr>" and ?wk = "\<lparr>waker_id = tid\<rparr>" and ?d = "snd (typed (b_decoder B) scs d)"
  have e: "exe [tid] x" and i: "kbd_ready held items cap ?w" "scancodes items ?w = scs" "kbd_woken ?w = []" "woken (ata ?w) = []" "\<not> held (pics_lock ?w)"
    and f: "task_futures x tid = Some (KeypressTask (Reading d))" "fst (cached_waker tid (waker_cache x)) = ?wk"
    using assms(1) by (auto simp: attending_def executing_def kernel_ready_def kbd_ready_def vga_ready_def scancodes_def)
  obtain s' where s': "keypresses_loop (k_kbd (b_kernel B)) (b_decoder B) ?wk d ?w = Some (Ret (Reading ?d, Pending), s')"
    "kbd_ready held items cap s'" "scancodes items s' = []" "registered (KBD_WAKER s') = Some ?wk"
    "write_string (fst (typed (b_decoder B) scs d)) (writer ?w) = Ret (writer s')" "kbd_frame ?w s'"
    using keypresses_loop_drains [OF i(1), of "b_decoder B" ?wk d] unfolding i(2) by blast
  have w: "kbd_woken s' = []" "ata s' = ata (world x)" "pics_lock s' = pics_lock (world x)" "arrivals s' = bs"
    using s'(6) i(3) by (cases s'; cases "world x"; simp add: kbd_frame_def)+
  have p: "poll_future B ?wk (KeypressTask (Reading d)) ?w = (Ret (KeypressTask (Reading ?d), Pending), s')"
    using s'(1) by (simp add: poll_future_def print_keypresses_poll_def io_bind_def)
  have r: "kernel_ready held items cap s'" "woken (ata s') = []" using s'(2) w i(4,5) by (simp_all add: kernel_ready_def kbd_ready_def)
  obtain x' where x': "run_ready_step (kernel_exec B) x = (Ret True, x')" "exe [] x'" "world x' = s'"
    "task_futures x' = (task_futures x)(tid := (if (Pending :: unit poll) = Pending then Some (KeypressTask (Reading ?d)) else None))"
    "\<forall>k. fst (cached_waker k (waker_cache x')) = fst (cached_waker k (waker_cache x))"
    by (rule step_polls [OF e assms(2) f p r(1) w(1) r(2)])
  show ?thesis
    by (rule that [OF x'(1)]) (use x' s' w f(2) in \<open>auto simp: attending_def kbd_ready_def\<close>)
qed

end

context running
begin

text \<open>One key press while the executor sleeps, between turns in which nothing else arrives.\<close>

lemma key_typed:
  assumes "att tid d [] [] x" and "arrivals (world x) = [] # [KeyboardIrq] # [] # [] # [] # bs"
    and "port_read8 (env_ports (k_ata (b_kernel B))) 0x60 (ports (ata (world x))) = (sc, p)"
  obtains x' where "run_turns (kernel_exec B) (Suc (Suc n)) x = run_turns (kernel_exec B) n x'"
    and "att tid (snd (typed (b_decoder B) [sc] d)) [] [] x'" and "arrivals (world x') = bs" and "ports (ata (world x')) = p"
    and "write_string (fst (typed (b_decoder B) [sc] d)) (writer (world x)) = Ret (writer (world x'))"
proof -
  let ?d = "snd (typed (b_decoder B) [sc] d)"
  have "exe [] x" using assms(1) by (simp add: attending_def)
  then obtain x1 where x1: "run_ready_tasks (kernel_exec B) x = Some (Ret (), x1)" "exe [] x1"
    "world x1 = (world x)\<lparr>arrivals := [KeyboardIrq] # [] # [] # [] # bs\<rparr>" "same_tasks x x1" by (rule ready_tasks_none [OF _ assms(2)])
  have a1: "att tid d [] [] x1" using assms(1) x1(2-4) by (simp add: attending_def scancodes_def)
  obtain x2 where x2: "deliver (kernel_exec B) x1 = (Ret (), x2)" "att tid d [tid] [sc] x2" "arrivals (world x2) = [] # [] # [] # bs"
    "writer (world x2) = writer (world x1)" "ports (ata (world x2)) = p"
    by (rule deliver_key [OF a1, of "[] # [] # [] # bs" sc p]) (use assms(3) x1(3) in simp_all)
  have "exe [tid] x2" using x2(2) by (simp add: attending_def)
  then obtain x3 where x3: "sleep_if_idle (kernel_exec B) x1 = (Ret ([tid] = []), x3)" "exe [tid] x3" "world x3 = world x2" "same_tasks x2 x3"
    by (rule sleep_executing [OF x2(1)])
  have a3: "att tid d [tid] [sc] x3" using x2(2) x3(2-4) by (simp add: attending_def)
  have "arrivals (world x3) = [] # [] # [] # bs" using x2(3) x3(3) by simp
  then obtain x4 where x4: "run_ready_step (kernel_exec B) x3 = (Ret True, x4)" "att tid ?d [] [] x4" "arrivals (world x4) = [] # [] # bs"
    "ports (ata (world x4)) = ports (ata (world x3))" "write_string (fst (typed (b_decoder B) [sc] d)) (writer (world x3)) = Ret (writer (world x4))"
    by (rule poll_typed [OF a3])
  have "exe [] x4" using x4(2) by (simp add: attending_def)
  then obtain x5 where x5: "run_ready_tasks (kernel_exec B) x4 = Some (Ret (), x5)" "exe [] x5" "world x5 = (world x4)\<lparr>arrivals := [] # bs\<rparr>" "same_tasks x4 x5"
    by (rule ready_tasks_none [OF _ x4(3)])
  have "arrivals (world x5) = [] # bs" using x5(3) by simp
  note d = deliver_none [OF x5(2) this]
  obtain x7 where x7: "sleep_if_idle (kernel_exec B) x5 = (Ret ([] = ([] :: TaskId list)), x7)" "exe [] x7"
    "world x7 = world (x5\<lparr>world := (world x5)\<lparr>arrivals := bs\<rparr>\<rparr>)" "same_tasks (x5\<lparr>world := (world x5)\<lparr>arrivals := bs\<rparr>\<rparr>) x7"
    by (rule sleep_executing [OF d])
  have "run_ready_tasks (kernel_exec B) x3 = Some (Ret (), x5)" using x4(1) x5(1) by (simp add: run_ready_tasks.simps [of _ x3])
  then have "run_turns (kernel_exec B) (Suc (Suc n)) x = run_turns (kernel_exec B) n x7" using x1(1) x3(1) x7(1) by simp
  then show ?thesis
    by (rule that) (use x1(3) x2(4,5) x3(3) x4 x5(3,4) x7(2-4) in \<open>simp_all add: attending_def scancodes_def\<close>)
qed

lemma keys_typed:
  assumes "att tid d [] [] x" and "arrivals (world x) = concat (replicate n [[], [KeyboardIrq], [], [], []])"
  shows "\<exists>x'. run_turns (kernel_exec B) (2 * n) x = Some (Ret (), x') \<and>
    write_string (fst (typed (b_decoder B) (port_keys (env_ports (k_ata (b_kernel B))) n (ports (ata (world x)))) d)) (writer (world x)) =
      Ret (writer (world x')) \<and>
    att tid (snd (typed (b_decoder B) (port_keys (env_ports (k_ata (b_kernel B))) n (ports (ata (world x)))) d)) [] [] x'"
  using assms
proof (induction n arbitrary: x d)
  case 0
  then show ?case by simp
next
  case (Suc n)
  obtain sc p where sc: "port_read8 (env_ports (k_ata (b_kernel B))) 0x60 (ports (ata (world x))) = (sc, p)" by fastforce
  have "arrivals (world x) = [] # [KeyboardIrq] # [] # [] # [] # concat (replicate n [[], [KeyboardIrq], [], [], []])" using Suc.prems(2) by simp
  then obtain x1 where x1: "run_turns (kernel_exec B) (Suc (Suc (2 * n))) x = run_turns (kernel_exec B) (2 * n) x1"
    "att tid (snd (typed (b_decoder B) [sc] d)) [] [] x1" "arrivals (world x1) = concat (replicate n [[], [KeyboardIrq], [], [], []])"
    "ports (ata (world x1)) = p" "write_string (fst (typed (b_decoder B) [sc] d)) (writer (world x)) = Ret (writer (world x1))"
    by (rule key_typed [OF Suc.prems(1) _ sc])
  have "2 * Suc n = Suc (Suc (2 * n))" by simp
  then show ?case
    using x1(1,4,5) sc Suc.IH [OF x1(2,3)] by (auto simp: write_string_append split: prod.splits simp del: run_turns.simps)
qed

end

section \<open>Properties\<close>


text \<open>A board on the reference instances; a key is printed as the byte of its scancode.\<close>

definition demo_ops ::
  "(bool, bool, nat \<times> u8 list, TaskWaker option, disk_ctl \<times> u32 option, nat \<times> DiskRequest list, TaskWaker option, u8 list,
    Descriptor list, nat, u8 list, nat \<Rightarrow> u64 option, LinkedListAllocator, nat \<times> TaskId list, unit, u8) board_ops" where
  "demo_ops = \<lparr>b_machine = board_env, b_paging = small_paging, b_heap = ll_heap_ops True, b_tasks = list_queue,
     b_decoder = \<lparr>kd_new = (), kd_add_byte = (\<lambda>sc d. (Ok (Some sc), d)), kd_process = (\<lambda>e d. (Some (Unicode [e]), d))\<rparr>,
     b_oc = True, b_info = ([], [], [])\<rparr>"

definition demo_board ::
  "(bool, bool, nat \<times> u8 list, TaskWaker option, disk_ctl \<times> u32 option, nat \<times> DiskRequest list, TaskWaker option, u8 list,
    Descriptor list, nat, u8 list, nat \<Rightarrow> u64 option, LinkedListAllocator) board" where
  "demo_board = machine.extend board_state
     (board.fields (\<lambda>_. None) (FixedSizeBlockAllocator_new (ll_heap_ops True) (\<lambda>_. None)) 0 [[Timer], [KeyboardIrq, PrimaryATA], [], [Timer]])"

interpretation demo: running demo_ops "\<lambda>m. m" snd fst "\<lambda>k. k" snd fst
proof -
  have "kernel_sync (b_kernel demo_ops) (\<lambda>m. m) snd fst (\<lambda>k. k)"
    using flag_kbd.keyboard_sync_axioms by (simp add: kernel_sync_def demo_ops_def board_env_def)
  moreover have "running_axioms demo_ops snd fst"
    using lq.queue_spec_axioms by (simp add: running_axioms_def demo_ops_def)
  ultimately show "running demo_ops (\<lambda>m. m) snd fst (\<lambda>k. k) snd fst" by (simp add: running_def board_spec_def)
qed

interpretation demo_ex: executor "kernel_exec demo_ops" snd fst
  using demo.task_queue_law by (simp add: executor_def kernel_exec_queue)

lemma demo_board_ready: "kernel_ready (\<lambda>m. m) snd fst demo_board"
  using blank_screen_ok by (simp add: kernel_ready_def vga_ready_def demo_board_def board_state_def machine.defs board.defs)

lemma demo_bootable:
  "heap_bootable demo_ops ref_ent 0xF00000000000 \<lparr>boot_memory_map = small_map, physical_memory_offset = 0xF00000000000\<rparr> demo_board"
proof -
  obtain h0 p h1 where "heap_init (ll_heap_ops True) HEAP_START HEAP_SIZE (heap_empty (ll_heap_ops True)) = (Ret (), h0)"
    "heap_allocate_first_fit (ll_heap_ops True) (block_layout 0) h0 = (Ret (Ok p), h1)" "p \<noteq> 0" by (rule small_heap_box)
  then show ?thesis
    using small_paging_spec small_map_ok small_map_frames small_unmapped
    by (auto simp: heap_bootable_def demo_ops_def demo_board_def board_state_def machine.defs board.defs)
      (simp_all add: small_paging_def ref_paging_def)
qed



definition demo_waiting ::
  "(unit kernel_future, nat \<times> TaskId list, bool, (bool, bool, nat \<times> u8 list, TaskWaker option, disk_ctl \<times> u32 option, nat \<times> DiskRequest list,
    TaskWaker option, u8 list, Descriptor list, nat, u8 list, nat \<Rightarrow> u64 option, LinkedListAllocator) board) exec_state" where
  "demo_waiting = \<lparr>tasks = Mapping.update (TaskId 2) \<lparr>task_id = TaskId 2, future = KeypressTask (Reading ())\<rparr> Mapping.empty,
     task_queue = (100, []), waker_cache = Mapping.empty, exec_cpu = True,
     world = demo_board\<lparr>SCANCODE_QUEUE := Some (100, []), KBD_WAKER := Some \<lparr>waker_id = TaskId 2\<rparr>,
       arrivals := concat (replicate 3 [[], [KeyboardIrq], [], [], []])\<rparr>\<rparr>"

lemma demo_waiting_attending: "attending demo_ops (\<lambda>m. m) snd fst (\<lambda>k. k) snd fst (TaskId 2) () [] [] demo_waiting"
  using demo_board_ready
  by (auto simp: attending_def executing_def demo_waiting_def task_futures_def lookup_update' lookup_empty cached_waker_def TaskWaker_new_def
      kernel_ready_def vga_ready_def kbd_ready_def scancodes_def demo_board_def board_state_def machine.defs board.defs ata_start_def
      demo_ops_def board_env_def flag_irq_def)


end
