(* ===== verification/Disk_Task.thy ===== *)
theory Disk_Task
  imports Boot
begin

text \<open>
  The task \<open>test_disk_read\<close> of \<open>src/main.rs\<close> in the running kernel: the executor polls it, it sends a
  command to the drive and waits, the drive's interrupt completes the read and wakes it, and the next
  poll prints the first bytes of the sector.
\<close>

section \<open>What the task prints\<close>

fun hex_lines :: "nat \<Rightarrow> u8 list \<Rightarrow> u8 list" where
  "hex_lines i [] = []"
| "hex_lines i (b # bs) = show_byte b @ bytes '' '' @ [0x0A] @ (if (i + 1) mod 8 = 0 then [0x0A] else []) @ hex_lines (Suc i) bs"

text \<open>The lines of the task, with those the driver prints on its behalf: when it starts, when the interrupt comes, and at the end.\<close>

definition disk_greeting :: "u8 \<Rightarrow> u8 list" where
  "disk_greeting status = bytes ''Attempting to read sector 0 from disk...'' @ [0x0A] @ lines_text (request_lines 0 status)"

definition disk_done :: "u8 list" where
  "disk_done = lines_text [ReadDone 0]"

definition sector_text :: "u8 list \<Rightarrow> u8 list" where
  "sector_text d = bytes ''Sector 0 first 16 bytes:'' @ [0x0A] @ hex_lines 0 (take 16 d) @
     [0x0A] @ bytes ''Disk read test complete'' @ [0x0A]"

definition disk_report :: "u8 list \<Rightarrow> u8 list" where
  "disk_report d = lines_text [ReadResult (d ! 0) (d ! 1) (d ! 2) (d ! 3)] @ sector_text d"

context board_spec
begin

text \<open>A call that prints \<open>shown\<close> and does nothing else.\<close>

definition prints :: "('c, 'm, 'q, 'k, 'p, 'r, 'a, 'i, 'g, 'sel, 'u, 'pt, 'h, unit) board_io \<Rightarrow> u8 list \<Rightarrow> bool" where
  "prints m shown \<longleftrightarrow> (\<forall>s. kernel_ready held items cap s \<longrightarrow> (\<exists>s'. m s = (Ret (), s') \<and> kernel_ready held items cap s' \<and>
     write_string shown (writer s) = Ret (writer s') \<and> vga.more s' = vga.more s \<and>
     are_enabled (env_irq (k_vga (b_kernel B))) (cpu s') = are_enabled (env_irq (k_vga (b_kernel B))) (cpu s)))"

lemma printsE:
  assumes "prints m shown" and "kernel_ready held items cap s"
  obtains s' where "m s = (Ret (), s')" and "kernel_ready held items cap s'" and "write_string shown (writer s) = Ret (writer s')"
    and "vga.more s' = vga.more s" and "are_enabled (env_irq (k_vga (b_kernel B))) (cpu s') = are_enabled (env_irq (k_vga (b_kernel B))) (cpu s)"
  using assms unfolding prints_def by blast

lemma prints_ret: "prints (io_ret ()) []"
  by (simp add: prints_def)

lemma prints_println: "prints (b_println B args) (args @ [0x0A])"
  unfolding prints_def
proof (intro allI impI)
  fix s :: "('c, 'm, 'q, 'k, 'p, 'r, 'a, 'i, 'g, 'sel, 'u, 'pt, 'h) board"
  assume r: "kernel_ready held items cap s"
  have v: "vga_ready held s" using r by (simp add: kernel_ready_def)
  obtain c m w where "print_args (k_vga (b_kernel B)) (args @ [0x0A]) s = (Ret (), s\<lparr>writer := w, writer_lock := m, cpu := c\<rparr>)"
    "are_enabled (env_irq (k_vga (b_kernel B))) c = are_enabled (env_irq (k_vga (b_kernel B))) (cpu s)"
    "write_string (args @ [0x0A]) (writer s) = Ret w" "writer_ok w" "\<not> held m" by (rule print_args_ok [OF v])
  then show "\<exists>s'. b_println B args s = (Ret (), s') \<and> kernel_ready held items cap s' \<and>
      write_string (args @ [0x0A]) (writer s) = Ret (writer s') \<and> vga.more s' = vga.more s \<and>
      are_enabled (env_irq (k_vga (b_kernel B))) (cpu s') = are_enabled (env_irq (k_vga (b_kernel B))) (cpu s)"
    using r by (auto simp: b_println_def println_args_def kernel_ready_def vga_ready_def kbd_ready_def)
qed

lemma prints_bind: "prints m a \<Longrightarrow> prints k b \<Longrightarrow> prints (io_bind m (\<lambda>_. k)) (a @ b)"
  unfolding prints_def by (fastforce simp: io_bind_def write_string_append)

lemma prints_bytes: "prints (print_sector_bytes B i bs) (hex_lines i bs)"
proof (induction bs arbitrary: i)
  case Nil
  show ?case unfolding print_sector_bytes.simps hex_lines.simps by (rule prints_ret)
next
  case (Cons b bs)
  have "prints (if (i + 1) mod 8 = 0 then b_println B [] else io_ret ()) (if (i + 1) mod 8 = 0 then [0x0A] else [])"
    using prints_println [of "[]"] prints_ret by simp
  from prints_bind [OF prints_println prints_bind [OF this Cons.IH], of "show_byte b @ bytes '' ''"] show ?case by simp
qed

lemma prints_finish: "prints (disk_task_finish B d) (sector_text d)"
  using prints_bind [OF prints_println prints_bind [OF prints_bytes prints_println], of "bytes ''Sector 0 first 16 bytes:''" 0 "take 16 d"
      "[0x0A] @ bytes ''Disk read test complete''"]
  by (simp add: disk_task_finish_def sector_text_def)

end

section \<open>The read in the three steps\<close>

text \<open>The driver with the read of sector 0 sent, for a drive that will answer with \<open>d\<close>, and the waker \<open>w\<close> registered.\<close>

definition asking :: "('p, 'r, 'a, 'w) ata_env \<Rightarrow> ('p \<Rightarrow> bool) \<Rightarrow> ('a \<Rightarrow> 'w option) \<Rightarrow> 'w \<Rightarrow> u8 list \<Rightarrow> ('p, 'r, 'a, 'w) ata_state \<Rightarrow> bool" where
  "asking E ready areg w d a \<longleftrightarrow> \<not> OPERATION_COMPLETE a \<and> PENDING_LBA a = 0 \<and> length (SECTOR_BUFFER a) = 512 \<and> woken a = [] \<and>
     length d = 512 \<and> (\<exists>p1 p2. data_ready (env_ports E) (ports a) p1 \<and> drain (env_ports E) 256 p1 = (sector_words d, p2) \<and> ready p2) \<and>
     (\<exists>k. DISK_WAKER a = Some k \<and> areg k = Some w)"

text \<open>The driver with the sector in its buffer.\<close>

definition fetched :: "('p \<Rightarrow> bool) \<Rightarrow> u8 list \<Rightarrow> ('p, 'r, 'a, 'w) ata_state \<Rightarrow> bool" where
  "fetched ready d a \<longleftrightarrow> read_is_complete 0 a \<and> SECTOR_BUFFER a = d \<and> length d = 512 \<and> DISK_WAKER a \<noteq> None \<and> ready (ports a)"

locale disk_running = running B held items cap registered titems tcap + ata_disk "k_ata (b_kernel B)" irq ready image areg
  for B :: "('c, 'm, 'q, 'k, 'p, 'r, 'a, 'i, 'g, 'sel, 'u, 'pt, 'h, 'tq, 'd, 'e) board_ops" and held :: "'m \<Rightarrow> bool"
    and items :: "'q \<Rightarrow> u8 list" and cap :: "'q \<Rightarrow> nat" and registered :: "'k \<Rightarrow> TaskWaker option"
    and titems :: "'tq \<Rightarrow> TaskId list" and tcap :: "'tq \<Rightarrow> nat"
    and irq :: "'p \<Rightarrow> bool" and ready :: "'p \<Rightarrow> bool" and image :: "'p \<Rightarrow> u32 \<Rightarrow> u8 list" and areg :: "'a \<Rightarrow> TaskWaker option"
begin

abbreviation E where "E \<equiv> k_ata (b_kernel B)"

abbreviation status_of where "status_of a \<equiv> fst (port_read8 (env_ports E) STATUS_COMMAND_PORT (ports a))"

text \<open>What the keyboard task leaves behind while it waits.\<close>

abbreviation kbd_part where "kbd_part s \<equiv> (SCANCODE_QUEUE s, KBD_WAKER s)"

lemma start_asks:
  assumes "ata_idle ready a"
  obtains a1 a2 where "start_read E 0 a = (Ret (), a1)" and "new_lines a a1 = request_lines 0 (status_of a)"
    and "SectorRead_poll E (io_ret ()) (io_ret ()) 0 w a1 = (Ret Pending, a2)" and "console a2 = console a1"
    and "asking E ready areg w (image (ports a) 0) a2"
proof -
  let ?p = "snd (port_read8 (env_ports E) STATUS_COMMAND_PORT (ports a))"
  have p: "ready ?p" "image ?p = image (ports a)" "length (image (ports a) 0) = 512"
    using assms status_law sector_law by (auto simp: ata_idle_def)
  let ?a1 = "a\<lparr>PENDING_LBA := 0, OPERATION_COMPLETE := False, console := console a @ request_lines 0 (status_of a),
      ports := issue_ports (env_ports E) CMD_READ_SECTORS 0 ?p\<rparr>"
  obtain k where k: "DISK_WAKER ?a1 = Some k" using assms by (auto simp: ata_idle_def)
  obtain k1 where k1: "areg k1 = Some w"
    "SectorRead_poll E (io_ret ()) (io_ret ()) 0 w ?a1 = (Ret Pending, ?a1\<lparr>DISK_WAKER := Some k1\<rparr>)"
    by (rule poll_pending [OF refl k, of w 0]) (simp add: read_is_complete_def)
  show ?thesis
    by (rule that [OF start_read_lines _ k1(2)])
      (use assms k1(1) p read_law [OF p(1), of 0] in \<open>auto simp: asking_def ata_idle_def new_lines_def\<close>)
qed

lemma poll_asks:
  assumes "kernel_ready held items cap s" and "ata_idle ready (ata s)"
  obtains s' where "test_disk_read B w DiskNotStarted s = (Ret (AwaitingSector, Pending), s')" and "kernel_ready held items cap s'"
    and "write_string (disk_greeting (status_of (ata s))) (writer s) = Ret (writer s')"
    and "asking E ready areg w (image (ports (ata s)) 0) (ata s')"
    and "arrivals s' = arrivals s" and "kbd_woken s' = kbd_woken s" and "kbd_part s' = kbd_part s"
proof -
  let ?t = "bytes ''Attempting to read sector 0 from disk...''"
  obtain s1 where s1: "b_println B ?t s = (Ret (), s1)" "kernel_ready held items cap s1"
    "write_string (?t @ [0x0A]) (writer s) = Ret (writer s1)" "vga.more s1 = vga.more s"
    by (rule printsE [OF prints_println assms(1)])
  have f: "ata s1 = ata s" "arrivals s1 = arrivals s" "kbd_woken s1 = kbd_woken s" "kbd_part s1 = kbd_part s"
    using s1(4) by (cases s; cases s1; simp)+
  obtain a1 a2 where a: "start_read E 0 (ata s) = (Ret (), a1)" "new_lines (ata s) a1 = request_lines 0 (status_of (ata s))"
    "SectorRead_poll E (io_ret ()) (io_ret ()) 0 w a1 = (Ret Pending, a2)" "console a2 = console a1"
    "asking E ready areg w (image (ports (ata s)) 0) a2" by (rule start_asks [OF assms(2)])
  have a1: "start_read E 0 (ata s1) = (Ret (), a1)" using a(1) f(1) by simp
  obtain s2 where s2: "on_ata (k_vga (b_kernel B)) (start_read E 0) s1 = (Ret (), s2)" "kernel_ready held items cap s2"
    "write_string (lines_text (new_lines (ata s1) a1)) (writer s1) = Ret (writer s2)" "vga.more s2 = vga.more (s1\<lparr>ata := a1\<rparr>)"
    by (rule driver_call [of s1 "start_read E 0", OF s1(2) a1])
  have f2: "ata s2 = a1" "arrivals s2 = arrivals s1" "kbd_woken s2 = kbd_woken s1" "kbd_part s2 = kbd_part s1"
    using s2(4) by (cases s1; cases s2; simp)+
  have "on_ata (k_vga (b_kernel B)) (SectorRead_poll E (io_ret ()) (io_ret ()) 0 w) s2 = (Ret Pending, s2\<lparr>ata := a2\<rparr>)"
    by (rule on_ata_silent) (use a(3,4) f2(1) in simp_all)
  then have "test_disk_read B w DiskNotStarted s = (Ret (AwaitingSector, Pending), s2\<lparr>ata := a2\<rparr>)"
    using s1(1) s2(1) by (simp add: test_disk_read_def io_bind_def)
  moreover have "write_string (disk_greeting (status_of (ata s))) (writer s) = Ret (writer s2)"
    using s1(3) s2(3) a(2) f(1) write_string_append [of "?t @ [0x0A]" "lines_text (request_lines 0 (status_of (ata s)))" "writer s"]
    by (simp add: disk_greeting_def)
  ultimately show ?thesis
    by (intro that [of "s2\<lparr>ata := a2\<rparr>"]) (use s2(2) a(5) f f2 in \<open>auto simp: kernel_ready_def vga_ready_def kbd_ready_def\<close>)
qed

end

context disk_running
begin

text \<open>The interrupt of the drive stores the sector and calls the waker.\<close>

lemma handler_fetches:
  assumes "asking E ready areg w d a"
  obtains a' where "on_primary_ata_interrupt E a = (Ret (), a')" and "new_lines a a' = [ReadDone 0]" and "fetched ready d a'" and "woken a' = [w]"
proof -
  obtain p1 p2 k where a: "data_ready (env_ports E) (ports a) p1" "drain (env_ports E) 256 p1 = (sector_words d, p2)" "ready p2"
    "DISK_WAKER a = Some k" "areg k = Some w" "\<not> OPERATION_COMPLETE a" "PENDING_LBA a = 0"
    "length (SECTOR_BUFFER a) = 512" "woken a = []" "length d = 512"
    using assms by (auto simp: asking_def)
  let ?a = "a\<lparr>SECTOR_BUFFER := d, ports := p2, console := console a @ [ReadDone (PENDING_LBA a)], OPERATION_COMPLETE := True\<rparr>"
  obtain k' where "wake_disk E ?a = (Ret (), ?a\<lparr>DISK_WAKER := Some k', woken := woken ?a @ [w]\<rparr>)"
    by (rule wake_disk_registered [of E ?a k w]) (use a in simp_all)
  moreover have "on_primary_ata_interrupt E a = wake_disk E ?a"
    using interrupt_reads [OF a(1) _ a(8,2)] a(6,10) by (simp add: words_bytes_sector_words)
  ultimately have "on_primary_ata_interrupt E a = (Ret (), ?a\<lparr>DISK_WAKER := Some k', woken := woken ?a @ [w]\<rparr>)" by simp
  then show ?thesis by (rule that) (use a in \<open>simp_all add: new_lines_def fetched_def read_is_complete_def\<close>)
qed

lemma interrupt_fetches:
  assumes "kernel_ready held items cap s" and "asking E ready areg w d (ata s)"
  obtains s' where "interrupt (b_kernel B) info PrimaryATA s = (Ret (), s')" and "kernel_ready held items cap s'"
    and "write_string disk_done (writer s) = Ret (writer s')" and "fetched ready d (ata s')" and "woken (ata s') = [w]"
    and "arrivals s' = arrivals s" and "kbd_woken s' = kbd_woken s" and "kbd_part s' = kbd_part s"
proof -
  let ?I = "env_irq (k_vga (b_kernel B))"
  let ?s = "s\<lparr>cpu := irq_disable ?I (cpu s)\<rparr>" and ?v = "as_u8 PrimaryATA"
  have r: "kernel_ready held items cap ?s" using assms(1) by (auto simp: kernel_ready_def vga_ready_def kbd_ready_def)
  obtain a where a: "on_primary_ata_interrupt E (ata s) = (Ret (), a)" "new_lines (ata s) a = [ReadDone 0]" "fetched ready d a" "woken a = [w]"
    by (rule handler_fetches [OF assms(2)])
  have a1: "on_primary_ata_interrupt E (ata ?s) = (Ret (), a)" using a(1) by simp
  obtain s1 where s1: "on_ata (k_vga (b_kernel B)) (on_primary_ata_interrupt E) ?s = (Ret (), s1)" "kernel_ready held items cap s1"
    "write_string (lines_text (new_lines (ata ?s) a)) (writer ?s) = Ret (writer s1)" "vga.more s1 = vga.more (?s\<lparr>ata := a\<rparr>)"
    by (rule driver_call [of ?s "on_primary_ata_interrupt E", OF r a1])
  have f: "ata s1 = a" "arrivals s1 = arrivals s" "kbd_woken s1 = kbd_woken s" "kbd_part s1 = kbd_part s" using s1(4) by (cases s; cases s1; simp)+
  have "\<not> held (pics_lock s1)" using s1(2) by (simp add: kernel_ready_def)
  then obtain m where m: "notify_end_of_interrupt (b_kernel B) ?v s1 =
      (Ret (), s1\<lparr>pics_lock := m, PICS := pics_end_of_interrupt (k_pic (b_kernel B)) ?v (PICS s1)\<rparr>)" "\<not> held m" by (rule notify_ok)
  have "interrupt (b_kernel B) info PrimaryATA s =
      (Ret (), s1\<lparr>pics_lock := m, PICS := pics_end_of_interrupt (k_pic (b_kernel B)) ?v (PICS s1), cpu := cpu s\<rparr>)"
    using s1(1) m(1) by (simp add: interrupt_def IDT_entries run_handler_def ata_primary_interrupt_handler_def io_bind_def split: prod.split)
  then show ?thesis
    by (rule that) (use a(2-4) s1(2,3) f m(2) in \<open>auto simp: disk_done_def kernel_ready_def vga_ready_def kbd_ready_def\<close>)
qed

lemma poll_reports:
  assumes "kernel_ready held items cap s" and "fetched ready d (ata s)" and "woken (ata s) = []"
  obtains s' where "test_disk_read B w AwaitingSector s = (Ret (AwaitingSector, Ready ()), s')" and "kernel_ready held items cap s'"
    and "write_string (disk_report d) (writer s) = Ret (writer s')"
    and "ata_idle ready (ata s')" and "arrivals s' = arrivals s" and "kbd_woken s' = kbd_woken s" and "kbd_part s' = kbd_part s"
proof -
  let ?V = "k_vga (b_kernel B)" and ?m = "ReadResult (d ! 0) (d ! 1) (d ! 2) (d ! 3)"
  let ?a = "(ata s)\<lparr>OPERATION_COMPLETE := False\<rparr>"
  define s1 where "s1 = s\<lparr>ata := ?a\<rparr>"
  have p: "on_ata ?V (SectorRead_poll E (io_ret ()) (io_ret ()) 0 w) s = (Ret (Ready d), s1)" unfolding s1_def
    by (rule on_ata_silent)
      (use poll_ready(1) [of 0 "ata s" E "io_ret ()" "io_ret ()" w] assms(2) in \<open>simp_all add: fetched_def\<close>)
  have r: "kernel_ready held items cap s1" using assms(1) by (auto simp: s1_def kernel_ready_def vga_ready_def kbd_ready_def)
  let ?a1 = "?a\<lparr>console := console (ata s) @ [?m]\<rparr>"
  have l: "log_msg ?m (ata s1) = (Ret (), ?a1)" by (simp add: log_msg_def s1_def)
  obtain s2 where s2: "on_ata ?V (log_msg ?m) s1 = (Ret (), s2)" "kernel_ready held items cap s2"
    "write_string (lines_text (new_lines (ata s1) ?a1)) (writer s1) = Ret (writer s2)" "vga.more s2 = vga.more (s1\<lparr>ata := ?a1\<rparr>)"
    by (rule driver_call [of s1 "log_msg ?m", OF r l])
  obtain s3 where s3: "disk_task_finish B d s2 = (Ret (), s3)" "kernel_ready held items cap s3"
    "write_string (sector_text d) (writer s2) = Ret (writer s3)" "vga.more s3 = vga.more s2"
    by (rule printsE [OF prints_finish s2(2)])
  have "vga.more s3 = vga.more (s\<lparr>ata := ?a1\<rparr>)" using s2(4) s3(4) by (simp add: s1_def)
  then have f: "ata s3 = ?a1" "arrivals s3 = arrivals s" "kbd_woken s3 = kbd_woken s" "kbd_part s3 = kbd_part s" by (cases s; cases s3; simp)+
  have "write_string (disk_report d) (writer s) = Ret (writer s3)"
    unfolding disk_report_def by (rule write_string_trans [OF _ s3(3)]) (use s2(3) in \<open>simp add: new_lines_def s1_def\<close>)
  moreover have "test_disk_read B w AwaitingSector s = (Ret (AwaitingSector, Ready ()), s3)"
    using p s2(1) s3(1) by (simp add: test_disk_read_def io_bind_def)
  ultimately show ?thesis
    by (intro that [of s3]) (use s3(2) f assms(2,3) in \<open>simp_all add: fetched_def ata_idle_def\<close>)
qed

end

section \<open>In the executor\<close>

context disk_running
begin

text \<open>The first poll of the task.\<close>

lemma disk_step:
  assumes "exe (b # tids) x" and "arrivals (world x) = [] # bs" and "task_futures x b = Some (DiskReadTask DiskNotStarted)"
    and "fst (cached_waker b (waker_cache x)) = \<lparr>waker_id = b\<rparr>" and "ata_idle ready (ata (world x))"
  obtains x' where "run_ready_step (kernel_exec B) x = (Ret True, x')" and "exe tids x'" and "arrivals (world x') = bs"
    and "task_futures x' = (task_futures x)(b \<mapsto> DiskReadTask AwaitingSector)" and "\<forall>k. fst (cached_waker k (waker_cache x')) = fst (cached_waker k (waker_cache x))"
    and "write_string (disk_greeting (status_of (ata (world x)))) (writer (world x)) = Ret (writer (world x'))"
    and "asking E ready areg \<lparr>waker_id = b\<rparr> (image (ports (ata (world x))) 0) (ata (world x'))" and "kbd_part (world x') = kbd_part (world x)"
proof -
  let ?w = "(world x)\<lparr>arrivals := bs\<rparr>" and ?wk = "\<lparr>waker_id = b\<rparr>"
  have w: "kernel_ready held items cap ?w" "ata_idle ready (ata ?w)" "kbd_woken ?w = []" using assms(1,5) by (simp_all add: executing_def)
  obtain s where s: "test_disk_read B ?wk DiskNotStarted ?w = (Ret (AwaitingSector, Pending), s)" "kernel_ready held items cap s"
    "write_string (disk_greeting (status_of (ata ?w))) (writer ?w) = Ret (writer s)" "asking E ready areg ?wk (image (ports (ata ?w)) 0) (ata s)"
    "arrivals s = arrivals ?w" "kbd_woken s = kbd_woken ?w" "kbd_part s = kbd_part ?w" by (rule poll_asks [OF w(1,2)])
  have p: "poll_future B ?wk (DiskReadTask DiskNotStarted) ?w = (Ret (DiskReadTask AwaitingSector, Pending), s)"
    using s(1) by (simp add: poll_future_def io_bind_def)
  have k: "kbd_woken s = []" "woken (ata s) = []" using s(4,6) w(3) by (simp_all add: asking_def)
  obtain x' where x': "run_ready_step (kernel_exec B) x = (Ret True, x')" "exe tids x'" "world x' = s"
    "task_futures x' = (task_futures x)(b := (if (Pending :: unit poll) = Pending then Some (DiskReadTask AwaitingSector) else None))"
    "\<forall>k. fst (cached_waker k (waker_cache x')) = fst (cached_waker k (waker_cache x))"
    by (rule step_polls [OF assms(1-4) p s(2) k])
  show ?thesis by (rule that [OF x'(1,2)]) (use x'(3-5) s(3-7) in simp_all)
qed

text \<open>The interrupt that wakes the task while the executor sleeps.\<close>

lemma sector_arrives:
  assumes "exe [] x" and "arrivals (world x) = [PrimaryATA] # bs" and "asking E ready areg \<lparr>waker_id = tid\<rparr> d (ata (world x))"
  obtains x' where "sleep_if_idle (kernel_exec B) x = (Ret False, x')" and "exe [tid] x'" and "arrivals (world x') = bs" and "same_tasks x x'"
    and "write_string disk_done (writer (world x)) = Ret (writer (world x'))" and "fetched ready d (ata (world x'))" and "kbd_part (world x') = kbd_part (world x)"
proof -
  let ?s = "(world x)\<lparr>arrivals := bs\<rparr>" and ?wk = "\<lparr>waker_id = tid\<rparr>"
  have r: "kernel_ready held items cap ?s" "asking E ready areg ?wk d (ata ?s)" using assms(1,3) by (simp_all add: executing_def)
  obtain s1 where s1: "interrupt (b_kernel B) (b_info B) PrimaryATA ?s = (Ret (), s1)" "kernel_ready held items cap s1"
    "write_string disk_done (writer ?s) = Ret (writer s1)" "fetched ready d (ata s1)" "woken (ata s1) = [?wk]" "arrivals s1 = arrivals ?s"
    "kbd_woken s1 = kbd_woken ?s" "kbd_part s1 = kbd_part ?s" by (rule interrupt_fetches [OF r])
  have wk: "kbd_woken s1 @ woken (ata s1) = [?wk]" using s1(5,7) assms(1) by (simp add: executing_def)
  obtain x1 where x1: "deliver (kernel_exec B) x = (Ret (), x1)" "exe [tid] x1" "world x1 = s1\<lparr>kbd_woken := [], ata := (ata s1)\<lparr>woken := []\<rparr>\<rparr>" "same_tasks x x1"
    by (rule deliver_wakes [OF assms(1,2) s1(1,2) wk])
  obtain x2 where x2: "sleep_if_idle (kernel_exec B) x = (Ret ([tid] = []), x2)" "exe [tid] x2" "world x2 = world x1" "same_tasks x1 x2"
    by (rule sleep_executing [OF x1(1,2)])
  have "sleep_if_idle (kernel_exec B) x = (Ret False, x2)" using x2(1) by simp
  then show ?thesis
    by (rule that) (use x1(3,4) x2(2-4) s1 in \<open>simp_all add: fetched_def read_is_complete_def\<close>)
qed

text \<open>The first turn: the task sends the command and the executor sleeps until the interrupt wakes the task.\<close>

lemma first_turn:
  assumes "exe [tid] x" and "arrivals (world x) = [] # [] # [PrimaryATA] # bs" and "task_futures x tid = Some (DiskReadTask DiskNotStarted)"
    and "fst (cached_waker tid (waker_cache x)) = \<lparr>waker_id = tid\<rparr>" and "ata_idle ready (ata (world x))"
  obtains x' where "run_turns (kernel_exec B) (Suc n) x = run_turns (kernel_exec B) n x'" and "exe [tid] x'" and "arrivals (world x') = bs"
    and "task_futures x' = (task_futures x)(tid \<mapsto> DiskReadTask AwaitingSector)" and "fst (cached_waker tid (waker_cache x')) = \<lparr>waker_id = tid\<rparr>"
    and "write_string (disk_greeting (status_of (ata (world x))) @ disk_done) (writer (world x)) = Ret (writer (world x'))" and "fetched ready (image (ports (ata (world x))) 0) (ata (world x'))"
proof -
  let ?wk = "\<lparr>waker_id = tid\<rparr>" and ?d = "image (ports (ata (world x))) 0"
  obtain x1 where x1: "run_ready_step (kernel_exec B) x = (Ret True, x1)" "exe [] x1" "arrivals (world x1) = [] # [PrimaryATA] # bs"
    "task_futures x1 = (task_futures x)(tid \<mapsto> DiskReadTask AwaitingSector)"
    "\<forall>k. fst (cached_waker k (waker_cache x1)) = fst (cached_waker k (waker_cache x))"
    "write_string (disk_greeting (status_of (ata (world x)))) (writer (world x)) = Ret (writer (world x1))" "asking E ready areg ?wk ?d (ata (world x1))"
    by (rule disk_step [OF assms])
  obtain x2 where x2: "run_ready_tasks (kernel_exec B) x1 = Some (Ret (), x2)" "exe [] x2" "world x2 = (world x1)\<lparr>arrivals := [PrimaryATA] # bs\<rparr>"
    "same_tasks x1 x2" by (rule ready_tasks_none [OF x1(2,3)])
  have w: "arrivals (world x2) = [PrimaryATA] # bs" "asking E ready areg ?wk ?d (ata (world x2))" using x1(7) x2(3) by simp_all
  obtain x3 where x3: "sleep_if_idle (kernel_exec B) x2 = (Ret False, x3)" "exe [tid] x3" "arrivals (world x3) = bs" "same_tasks x2 x3"
    "write_string disk_done (writer (world x2)) = Ret (writer (world x3))" "fetched ready ?d (ata (world x3))"
    by (rule sector_arrives [OF x2(2) w])
  have "run_ready_tasks (kernel_exec B) x = Some (Ret (), x2)" using x1(1) x2(1) by (simp add: run_ready_tasks.simps [of _ x])
  then have "run_turns (kernel_exec B) (Suc n) x = run_turns (kernel_exec B) n x3" using x3(1) by simp
  then show ?thesis
    by (rule that) (use assms(4) x1(4-6) x2(3,4) x3 in \<open>simp_all add: write_string_append\<close>)
qed

text \<open>The second turn: the task prints the sector and is done.\<close>

lemma second_turn:
  assumes "exe [tid] x" and "arrivals (world x) = [] # [] # [] # bs" and "task_futures x tid = Some (DiskReadTask AwaitingSector)"
    and "fst (cached_waker tid (waker_cache x)) = \<lparr>waker_id = tid\<rparr>" and "fetched ready d (ata (world x))"
  obtains x' where "\<forall>n. run_turns (kernel_exec B) (Suc n) x = run_turns (kernel_exec B) n x'" and "exe [] x'" and "arrivals (world x') = bs"
    and "task_futures x' = (task_futures x)(tid := None)" and "write_string (disk_report d) (writer (world x)) = Ret (writer (world x'))"
    and "ata_idle ready (ata (world x'))" and "kbd_part (world x') = kbd_part (world x)"
    and "\<forall>k. fst (cached_waker k (waker_cache x')) = fst (cached_waker k (waker_cache x))"
proof -
  let ?w = "(world x)\<lparr>arrivals := [] # [] # bs\<rparr>" and ?wk = "\<lparr>waker_id = tid\<rparr>"
  have w: "kernel_ready held items cap ?w" "fetched ready d (ata ?w)" "kbd_woken ?w = []" "woken (ata ?w) = []"
    using assms(1,5) by (simp_all add: executing_def)
  obtain s where s: "test_disk_read B ?wk AwaitingSector ?w = (Ret (AwaitingSector, Ready ()), s)" "kernel_ready held items cap s"
    "write_string (disk_report d) (writer ?w) = Ret (writer s)" "ata_idle ready (ata s)"
    "arrivals s = arrivals ?w" "kbd_woken s = kbd_woken ?w" "kbd_part s = kbd_part ?w" by (rule poll_reports [OF w(1,2,4)])
  have p: "poll_future B ?wk (DiskReadTask AwaitingSector) ?w = (Ret (DiskReadTask AwaitingSector, Ready ()), s)"
    using s(1) by (simp add: poll_future_def io_bind_def)
  have k: "kbd_woken s = []" "woken (ata s) = []" using s(4,6) w(3) by (simp_all add: ata_idle_def)
  obtain x1 where x1: "run_ready_step (kernel_exec B) x = (Ret True, x1)" "exe [] x1" "world x1 = s"
    "task_futures x1 = (task_futures x)(tid := (if Ready () = Pending then Some (DiskReadTask AwaitingSector) else None))"
    "\<forall>k. fst (cached_waker k (waker_cache x1)) = fst (cached_waker k (waker_cache x))"
    by (rule step_polls [OF assms(1-4) p s(2) k])
  have "arrivals (world x1) = [] # [] # bs" using x1(3) s(5) by simp
  with x1(2) obtain x2 where x2: "run_ready_tasks (kernel_exec B) x1 = Some (Ret (), x2)" "exe [] x2" "world x2 = (world x1)\<lparr>arrivals := [] # bs\<rparr>"
    "same_tasks x1 x2" by (rule ready_tasks_none)
  have "arrivals (world x2) = [] # bs" using x2(3) by simp
  note d = deliver_none [OF x2(2) this]
  obtain x3 where x3: "sleep_if_idle (kernel_exec B) x2 = (Ret ([] = ([] :: TaskId list)), x3)" "exe [] x3"
    "world x3 = world (x2\<lparr>world := (world x2)\<lparr>arrivals := bs\<rparr>\<rparr>)" "same_tasks (x2\<lparr>world := (world x2)\<lparr>arrivals := bs\<rparr>\<rparr>) x3"
    by (rule sleep_executing [OF d])
  have "run_ready_tasks (kernel_exec B) x = Some (Ret (), x2)" using x1(1) x2(1) by (simp add: run_ready_tasks.simps [of _ x])
  then have "\<forall>n. run_turns (kernel_exec B) (Suc n) x = run_turns (kernel_exec B) n x3" using x3(1) by simp
  then show ?thesis
    by (rule that) (use x1(3-5) x2(3,4) x3(2-4) s(3,4,7) in simp_all)
qed

lemma disk_task_runs:
  assumes "exe [tid] x" and "arrivals (world x) = [[], [], [PrimaryATA], [], [], []]" and "task_futures x tid = Some (DiskReadTask DiskNotStarted)"
    and "fst (cached_waker tid (waker_cache x)) = \<lparr>waker_id = tid\<rparr>" and "ata_idle ready (ata (world x))"
  shows "\<exists>x'. run_turns (kernel_exec B) 2 x = Some (Ret (), x') \<and>
    write_string (disk_greeting (status_of (ata (world x))) @ disk_done @ disk_report (image (ports (ata (world x))) 0)) (writer (world x)) = Ret (writer (world x')) \<and>
    task_futures x' = (task_futures x)(tid := None) \<and> exe [] x' \<and> ata_idle ready (ata (world x'))"
proof -
  let ?d = "image (ports (ata (world x))) 0"
  obtain x1 where x1: "run_turns (kernel_exec B) (Suc (Suc 0)) x = run_turns (kernel_exec B) (Suc 0) x1" "exe [tid] x1" "arrivals (world x1) = [[], [], []]"
    "task_futures x1 = (task_futures x)(tid \<mapsto> DiskReadTask AwaitingSector)" "fst (cached_waker tid (waker_cache x1)) = \<lparr>waker_id = tid\<rparr>"
    "write_string (disk_greeting (status_of (ata (world x))) @ disk_done) (writer (world x)) = Ret (writer (world x1))" "fetched ready ?d (ata (world x1))"
    by (rule first_turn [OF assms(1-5)])
  have t: "task_futures x1 tid = Some (DiskReadTask AwaitingSector)" using x1(4) by simp
  obtain x2 where x2: "\<forall>n. run_turns (kernel_exec B) (Suc n) x1 = run_turns (kernel_exec B) n x2" "exe [] x2" "arrivals (world x2) = []"
    "task_futures x2 = (task_futures x1)(tid := None)" "write_string (disk_report ?d) (writer (world x1)) = Ret (writer (world x2))"
    "ata_idle ready (ata (world x2))" by (rule second_turn [OF x1(2,3) t x1(5,7)])
  have "run_turns (kernel_exec B) 2 x = Some (Ret (), x2)"
    using x1(1) spec [OF x2(1), of 0] run_turns.simps(1) [of "kernel_exec B" x2] by (simp only: numeral_2_eq_2)
  then show ?thesis using x1(4) x2 write_string_trans [OF x1(6) x2(5)] by (simp del: run_turns.simps)
qed

end

section \<open>Properties\<close>

text \<open>
  A disk read works end to end: when the executor polls \<open>test_disk_read\<close>, the task announces itself, sends
  the read of sector 0 to the drive and suspends; the drive's interrupt stores the sector and wakes the
  task while the executor sleeps; the next poll prints the first 16 bytes of sector 0 of the disk in
  hexadecimal, after which the task is removed and the driver is idle again. The screen shows exactly the
  lines of the task and, between them, those the driver and its interrupt handler print.
\<close>

theorem disk_task_prints_sector:
  assumes "disk_running B held items cap registered titems tcap irq ready img areg"
    and "executing B held items cap titems tcap [tid] x" and "arrivals (world x) = [[], [], [PrimaryATA], [], [], []]"
    and "task_futures x tid = Some (DiskReadTask DiskNotStarted)" and "fst (cached_waker tid (waker_cache x)) = \<lparr>waker_id = tid\<rparr>"
    and "ata_idle ready (ata (world x))"
  shows "\<exists>x'. run_turns (kernel_exec B) 2 x = Some (Ret (), x') \<and>
    write_string (disk_greeting (fst (port_read8 (env_ports (k_ata (b_kernel B))) STATUS_COMMAND_PORT (ports (ata (world x))))) @ disk_done @
      disk_report (img (ports (ata (world x))) 0)) (writer (world x)) = Ret (writer (world x')) \<and>
    task_futures x' = (task_futures x)(tid := None) \<and> executing B held items cap titems tcap [] x' \<and> ata_idle ready (ata (world x'))"
  by (rule disk_running.disk_task_runs [OF assms])

text \<open>The reference board with the reference drive.\<close>

lemma board_issue: "issue_ports board_ports c lba (d, x) = (issue_ports ctl_ports c lba d, x)"
  by (simp add: issue_ports_def board_ports_def Let_def)

lemma board_drain: "drain board_ports n (d, x) = (fst (drain ctl_ports n d), snd (drain ctl_ports n d), x)"
  by (induction n arbitrary: d) (simp_all add: board_ports_def split: prod.split)

lemma board_status: "port_read8 board_ports a (d, x) = (fst (port_read8 ctl_ports a d), snd (port_read8 ctl_ports a d), x)"
  by (simp add: board_ports_def split: prod.split)

lemma board_data_ready: "data_ready ctl_ports d d' \<Longrightarrow> data_ready board_ports (d, x) (d', x)"
  by (auto simp: data_ready_def board_status)

interpretation board_drive: ata_device board_ports "\<lambda>(d, x). ctl_irq False d" "\<lambda>(d, x). ctl_ready d" "\<lambda>(d, x). c_image d"
proof
  fix p :: "disk_ctl \<times> u32 option" and lba :: u32
  assume r: "case p of (d, x) \<Rightarrow> ctl_ready d"
  obtain d x where p: "p = (d, x)" by (cases p)
  show "length ((case p of (d, x) \<Rightarrow> c_image d) l) = 512" for l using r ctl.sector_law by (simp add: p)
  show "(case snd (port_read8 board_ports STATUS_COMMAND_PORT p) of (d, x) \<Rightarrow> ctl_ready d) \<and>
      (case snd (port_read8 board_ports STATUS_COMMAND_PORT p) of (d, x) \<Rightarrow> c_image d) = (case p of (d, x) \<Rightarrow> c_image d)"
    using r ctl.status_law by (simp add: p board_status)
  obtain p1 p2 where "ctl_irq False (issue_ports ctl_ports CMD_READ_SECTORS lba d)" "data_ready ctl_ports (issue_ports ctl_ports CMD_READ_SECTORS lba d) p1"
    "drain ctl_ports 256 p1 = (sector_words (c_image d (take_bit 28 lba)), p2)" "ctl_ready p2" "c_image p2 = c_image d"
    using r ctl.read_law [of d False lba] by (auto simp: p)
  then show "(case issue_ports board_ports CMD_READ_SECTORS lba p of (d, x) \<Rightarrow> ctl_irq False d) \<and>
      (\<exists>p1 p2. data_ready board_ports (issue_ports board_ports CMD_READ_SECTORS lba p) p1 \<and>
         drain board_ports 256 p1 = (sector_words ((case p of (d, x) \<Rightarrow> c_image d) (take_bit 28 lba)), p2) \<and>
         (case p2 of (d, x) \<Rightarrow> ctl_ready d) \<and> (case p2 of (d, x) \<Rightarrow> c_image d) = (case p of (d, x) \<Rightarrow> c_image d))"
    by (intro conjI exI [of _ "(p1, x)"] exI [of _ "(p2, x)"]) (simp_all add: p board_issue board_drain board_data_ready)
qed

interpretation demo_disk: disk_running demo_ops "\<lambda>m. m" snd fst "\<lambda>k. k" snd fst
  "\<lambda>(d, x). ctl_irq False d" "\<lambda>(d, x). ctl_ready d" "\<lambda>(d, x). c_image d" "\<lambda>k. k"
  using demo.running_axioms board_drive.ata_device_axioms ow.waker_spec_axioms
  by (simp add: disk_running_def ata_disk_def demo_ops_def board_env_def)

definition demo_reading ::
  "(unit kernel_future, nat \<times> TaskId list, bool, (bool, bool, nat \<times> u8 list, TaskWaker option, disk_ctl \<times> u32 option, nat \<times> DiskRequest list,
    TaskWaker option, u8 list, Descriptor list, nat, u8 list, nat \<Rightarrow> u64 option, LinkedListAllocator) board) exec_state" where
  "demo_reading = \<lparr>tasks = Mapping.update (TaskId 1) \<lparr>task_id = TaskId 1, future = DiskReadTask DiskNotStarted\<rparr> Mapping.empty,
     task_queue = (100, [TaskId 1]), waker_cache = Mapping.empty, exec_cpu = True,
     world = demo_board\<lparr>ata := (ata_start (blank_drive, None))\<lparr>DISK_WAKER := Some None\<rparr>, arrivals := [[], [], [PrimaryATA], [], [], []]\<rparr>\<rparr>"

lemma demo_reading_ok:
  "executing demo_ops (\<lambda>m. m) snd fst snd fst [TaskId 1] demo_reading" "task_futures demo_reading (TaskId 1) = Some (DiskReadTask DiskNotStarted)"
  "fst (cached_waker (TaskId 1) (waker_cache demo_reading)) = \<lparr>waker_id = TaskId 1\<rparr>" "ata_idle (\<lambda>(d, x). ctl_ready d) (ata (world demo_reading))"
  using demo_board_ready blank_drive_ready
  by (auto simp: executing_def demo_reading_def task_futures_def lookup_update' lookup_empty cached_waker_def TaskWaker_new_def
      kernel_ready_def vga_ready_def kbd_ready_def demo_board_def board_state_def machine.defs board.defs ata_start_def ata_idle_def SECTOR_SIZE_def
      demo_ops_def board_env_def flag_irq_def)

theorem disk_task_prints_sector_witness:
  "\<exists>x'. run_turns (kernel_exec demo_ops) 2 demo_reading = Some (Ret (), x') \<and>
    write_string (disk_greeting (fst (port_read8 board_ports STATUS_COMMAND_PORT (blank_drive, None))) @ disk_done @
      disk_report (c_image blank_drive 0)) (writer (world demo_reading)) = Ret (writer (world x')) \<and>
    task_futures x' (TaskId 1) = None"
proof -
  have "(case ports (ata (world demo_reading)) of (d, x) \<Rightarrow> c_image d) = c_image blank_drive"
    "port_read8 (env_ports (k_ata (b_kernel demo_ops))) STATUS_COMMAND_PORT (ports (ata (world demo_reading))) =
       port_read8 board_ports STATUS_COMMAND_PORT (blank_drive, None)"
    by (simp_all add: demo_reading_def ata_start_def demo_ops_def board_env_def)
  moreover have "arrivals (world demo_reading) = [[], [], [PrimaryATA], [], [], []]" by (simp add: demo_reading_def)
  moreover note disk_task_prints_sector [OF demo_disk.disk_running_axioms demo_reading_ok(1) _ demo_reading_ok(2-4)]
  ultimately show ?thesis by auto
qed

end
