(* ===== verification/Startup.thy ===== *)
theory Startup
  imports Disk_Task
begin

text \<open>
  \<open>kernel_main\<close> of \<open>src/main.rs\<close> from power on, with what it puts on the screen. In the first turn of the
  executor the example task runs to its end, the disk task sends its command and the keyboard task opens its
  stream; the drive's interrupt then lets the disk task finish, and the kernel is left waiting for key presses.
\<close>

section \<open>The polls of the first turn\<close>

definition example_line :: "u8 list" where
  "example_line = bytes ''async number: 42'' @ [0x0A]"

lemma show_42: "bytes ''async number: '' @ show_dec (unat async_number) = bytes ''async number: 42''"
  by (simp add: async_number_def bytes_def show_dec.simps)

context disk_running
begin

lemma example_prints:
  assumes "kernel_ready held items cap s"
  obtains s' where "poll_future B w ExampleTask s = (Ret (ExampleTask, Ready ()), s')" and "kernel_ready held items cap s'"
    and "write_string example_line (writer s) = Ret (writer s')" and "vga.more s' = vga.more s"
proof -
  obtain s' where s': "b_println B (bytes ''async number: 42'') s = (Ret (), s')" "kernel_ready held items cap s'"
    "write_string example_line (writer s) = Ret (writer s')" "vga.more s' = vga.more s"
    unfolding example_line_def by (rule printsE [OF prints_println assms])
  have "poll_future B w ExampleTask s = (Ret (ExampleTask, Ready ()), s')"
    using s'(1) by (simp add: poll_future_def example_task_def show_42 io_bind_def)
  then show ?thesis by (rule that) (rule s'(2-4))+
qed

text \<open>The keyboard task makes its queue, finds it empty and leaves its waker.\<close>

lemma keyboard_starts:
  assumes "kernel_ready held items cap s" and "SCANCODE_QUEUE s = None"
  obtains s' where "poll_future B w (KeypressTask NotStarted) s = (Ret (KeypressTask (Reading (kd_new (b_decoder B))), Pending), s')"
    and "kernel_ready held items cap s'" and "SCANCODE_QUEUE s' \<noteq> None" and "scancodes items s' = []" and "registered (KBD_WAKER s') = Some w"
    and "writer s' = writer s" and "kbd_frame s s'"
proof -
  let ?d = "kd_new (b_decoder B)"
  define s1 where "s1 = s\<lparr>SCANCODE_QUEUE := Some (aq_new (kb_queue (k_kbd (b_kernel B))) 100)\<rparr>"
  have n: "ScancodeStream_new (k_kbd (b_kernel B)) s = (Ret (), s1)" using assms(2) by (simp add: ScancodeStream_new_def s1_def)
  have r: "kbd_ready held items cap s1" and e: "scancodes items s1 = []"
    using assms(1) new_law [of 100] by (simp_all add: s1_def kernel_ready_def kbd_ready_def vga_ready_def scancodes_def)
  obtain s' where s': "keypresses_loop (k_kbd (b_kernel B)) (b_decoder B) w ?d s1 = Some (Ret (Reading ?d, Pending), s')"
    "kbd_ready held items cap s'" "scancodes items s' = []" "registered (KBD_WAKER s') = Some w"
    "writer s' = writer s1" "kbd_frame s1 s'"
    using keypresses_loop_drains [OF r, of "b_decoder B" w ?d] unfolding e by auto
  have f: "kbd_frame s s'" using s'(6) by (simp add: kbd_frame_def s1_def)
  then have "pics_lock s' = pics_lock s" by (cases s; cases s') (simp add: kbd_frame_def)
  then have k: "kernel_ready held items cap s'" using s'(2) assms(1) by (simp add: kernel_ready_def kbd_ready_def)
  have "poll_future B w (KeypressTask NotStarted) s = (Ret (KeypressTask (Reading ?d), Pending), s')"
    using n s'(1) by (simp add: poll_future_def print_keypresses_poll_def io_bind_def)
  then show ?thesis
    by (rule that) (use k s' f in \<open>auto simp: kbd_ready_def s1_def\<close>)
qed

end

section \<open>The turn\<close>

context disk_running
begin

text \<open>Each of the three polls, for the task at the head of the queue.\<close>

lemma example_step:
  assumes "exe (a # tids) x" and "arrivals (world x) = [] # bs" and "task_futures x a = Some ExampleTask"
    and "fst (cached_waker a (waker_cache x)) = \<lparr>waker_id = a\<rparr>"
  obtains x' where "run_ready_step (kernel_exec B) x = (Ret True, x')" and "exe tids x'" and "arrivals (world x') = bs"
    and "task_futures x' = (task_futures x)(a := None)" and "\<forall>k. fst (cached_waker k (waker_cache x')) = fst (cached_waker k (waker_cache x))"
    and "write_string example_line (writer (world x)) = Ret (writer (world x'))" and "ata (world x') = ata (world x)"
    and "kbd_part (world x') = kbd_part (world x)"
proof -
  let ?w = "(world x)\<lparr>arrivals := bs\<rparr>"
  have w: "kernel_ready held items cap ?w" "kbd_woken ?w = []" "woken (ata ?w) = []" using assms(1) by (simp_all add: executing_def)
  obtain s where s: "poll_future B \<lparr>waker_id = a\<rparr> ExampleTask ?w = (Ret (ExampleTask, Ready ()), s)" "kernel_ready held items cap s"
    "write_string example_line (writer ?w) = Ret (writer s)" "vga.more s = vga.more ?w" by (rule example_prints [OF w(1)])
  have f: "kbd_woken s = []" "ata s = ata (world x)" "arrivals s = bs" "kbd_part s = kbd_part (world x)"
    using s(4) w(2) by (cases s; cases "world x"; simp)+
  have k: "woken (ata s) = []" using f(2) w(3) by simp
  obtain x' where x': "run_ready_step (kernel_exec B) x = (Ret True, x')" "exe tids x'" "world x' = s"
    "task_futures x' = (task_futures x)(a := (if Ready () = Pending then Some ExampleTask else None))"
    "\<forall>k. fst (cached_waker k (waker_cache x')) = fst (cached_waker k (waker_cache x))"
    by (rule step_polls [OF assms s(1,2) f(1) k])
  show ?thesis by (rule that [OF x'(1,2)]) (use x'(3-5) s(3) f in simp_all)
qed

lemma keyboard_step:
  assumes "exe (c # tids) x" and "arrivals (world x) = [] # bs" and "task_futures x c = Some (KeypressTask NotStarted)"
    and "fst (cached_waker c (waker_cache x)) = \<lparr>waker_id = c\<rparr>" and "SCANCODE_QUEUE (world x) = None"
  obtains x' where "run_ready_step (kernel_exec B) x = (Ret True, x')" and "arrivals (world x') = bs"
    and "att c (kd_new (b_decoder B)) tids [] x'" and "task_futures x' = (task_futures x)(c \<mapsto> KeypressTask (Reading (kd_new (b_decoder B))))"
    and "writer (world x') = writer (world x)" and "ata (world x') = ata (world x)"
    and "\<forall>k. fst (cached_waker k (waker_cache x')) = fst (cached_waker k (waker_cache x))"
proof -
  let ?w = "(world x)\<lparr>arrivals := bs\<rparr>" and ?wk = "\<lparr>waker_id = c\<rparr>" and ?d = "kd_new (b_decoder B)"
  have w: "kernel_ready held items cap ?w" "SCANCODE_QUEUE ?w = None" "kbd_woken ?w = []" "woken (ata ?w) = []"
    using assms(1,5) by (simp_all add: executing_def)
  obtain s where s: "poll_future B ?wk (KeypressTask NotStarted) ?w = (Ret (KeypressTask (Reading ?d), Pending), s)"
    "kernel_ready held items cap s" "SCANCODE_QUEUE s \<noteq> None" "scancodes items s = []" "registered (KBD_WAKER s) = Some ?wk"
    "writer s = writer ?w" "kbd_frame ?w s" by (rule keyboard_starts [OF w(1,2)])
  have f: "kbd_woken s = []" "ata s = ata (world x)" "arrivals s = bs"
    using s(7) w(3) by (cases s; cases "world x"; simp add: kbd_frame_def)+
  have k: "woken (ata s) = []" using f(2) w(4) by simp
  obtain x' where x': "run_ready_step (kernel_exec B) x = (Ret True, x')" "exe tids x'" "world x' = s"
    "task_futures x' = (task_futures x)(c := (if (Pending :: unit poll) = Pending then Some (KeypressTask (Reading ?d)) else None))"
    "\<forall>k. fst (cached_waker k (waker_cache x')) = fst (cached_waker k (waker_cache x))"
    by (rule step_polls [OF assms(1-4) s(1,2) f(1) k])
  show ?thesis by (rule that [OF x'(1)]) (use x'(2-5) s(3-6) f assms(4) in \<open>simp_all add: attending_def\<close>)
qed

end

context disk_running
begin

text \<open>The three polls, after which no task is ready.\<close>

lemma startup_polls:
  assumes "exe [a, b, c] x" and "arrivals (world x) = [] # [] # [] # [] # bs" and "distinct [a, b, c]"
    and "task_futures x a = Some ExampleTask" and "task_futures x b = Some (DiskReadTask DiskNotStarted)"
    and "task_futures x c = Some (KeypressTask NotStarted)" and "\<forall>k. fst (cached_waker k (waker_cache x)) = \<lparr>waker_id = k\<rparr>"
    and "SCANCODE_QUEUE (world x) = None" and "ata_idle ready (ata (world x))"
  obtains x' where "run_ready_tasks (kernel_exec B) x = Some (Ret (), x')"
    and "write_string (example_line @ disk_greeting (status_of (ata (world x)))) (writer (world x)) = Ret (writer (world x'))"
    and "task_futures x' = (task_futures x)(a := None, b \<mapsto> DiskReadTask AwaitingSector, c \<mapsto> KeypressTask (Reading (kd_new (b_decoder B))))"
    and "att c (kd_new (b_decoder B)) [] [] x'" and "arrivals (world x') = bs"
    and "asking E ready areg \<lparr>waker_id = b\<rparr> (image (ports (ata (world x))) 0) (ata (world x'))"
    and "\<forall>k. fst (cached_waker k (waker_cache x')) = \<lparr>waker_id = k\<rparr>"
proof -
  let ?d = "kd_new (b_decoder B)"
  have wk: "fst (cached_waker k (waker_cache x)) = \<lparr>waker_id = k\<rparr>" for k using assms(7) by blast
  obtain x1 where x1: "run_ready_step (kernel_exec B) x = (Ret True, x1)" "exe [b, c] x1" "arrivals (world x1) = [] # [] # [] # bs"
    "task_futures x1 = (task_futures x)(a := None)" "\<forall>k. fst (cached_waker k (waker_cache x1)) = fst (cached_waker k (waker_cache x))"
    "write_string example_line (writer (world x)) = Ret (writer (world x1))" "ata (world x1) = ata (world x)"
    "kbd_part (world x1) = kbd_part (world x)" by (rule example_step [OF assms(1,2,4) wk])
  have b: "task_futures x1 b = Some (DiskReadTask DiskNotStarted)" "fst (cached_waker b (waker_cache x1)) = \<lparr>waker_id = b\<rparr>"
    "ata_idle ready (ata (world x1))" using assms(3,5,9) x1(4,5,7) wk by auto
  obtain x2 where x2: "run_ready_step (kernel_exec B) x1 = (Ret True, x2)" "exe [c] x2" "arrivals (world x2) = [] # [] # bs"
    "task_futures x2 = (task_futures x1)(b \<mapsto> DiskReadTask AwaitingSector)" "\<forall>k. fst (cached_waker k (waker_cache x2)) = fst (cached_waker k (waker_cache x1))"
    "write_string (disk_greeting (status_of (ata (world x1)))) (writer (world x1)) = Ret (writer (world x2))"
    "asking E ready areg \<lparr>waker_id = b\<rparr> (image (ports (ata (world x1))) 0) (ata (world x2))" "kbd_part (world x2) = kbd_part (world x1)"
    by (rule disk_step [OF x1(2,3) b])
  have c: "task_futures x2 c = Some (KeypressTask NotStarted)" "fst (cached_waker c (waker_cache x2)) = \<lparr>waker_id = c\<rparr>"
    "SCANCODE_QUEUE (world x2) = None" using assms(3,6,8) x1(4,5,8) x2(4,5,8) wk by auto
  obtain x3 where x3: "run_ready_step (kernel_exec B) x2 = (Ret True, x3)" "arrivals (world x3) = [] # bs" "att c ?d [] [] x3"
    "task_futures x3 = (task_futures x2)(c \<mapsto> KeypressTask (Reading ?d))" "writer (world x3) = writer (world x2)" "ata (world x3) = ata (world x2)"
    "\<forall>k. fst (cached_waker k (waker_cache x3)) = fst (cached_waker k (waker_cache x2))"
    by (rule keyboard_step [OF x2(2,3) c])
  have e3: "exe [] x3" using x3(3) by (simp add: attending_def)
  obtain x4 where x4: "run_ready_tasks (kernel_exec B) x3 = Some (Ret (), x4)" "exe [] x4" "world x4 = (world x3)\<lparr>arrivals := bs\<rparr>" "same_tasks x3 x4"
    by (rule ready_tasks_none [OF e3 x3(2)])
  have "run_ready_tasks (kernel_exec B) x = Some (Ret (), x4)"
    using x1(1) x2(1) x3(1) x4(1) by (simp add: run_ready_tasks.simps [of _ x] run_ready_tasks.simps [of _ x1] run_ready_tasks.simps [of _ x2])
  then show ?thesis
  proof (rule that)
    show "write_string (example_line @ disk_greeting (status_of (ata (world x)))) (writer (world x)) = Ret (writer (world x4))"
      by (rule write_string_trans [OF x1(6)]) (use x1(7) x2(6) x3(5) x4(3) in simp)
    show "att c ?d [] [] x4" using x3(3) x4(2-4) by (simp add: attending_def scancodes_def)
  qed (use x1(4,5,7) x2(4,5,7) x3(4,6,7) x4(3,4) wk in simp_all)
qed

end

context disk_running
begin

text \<open>When the drive answers, the disk task prints the sector and is done, while the keyboard task keeps waiting.\<close>

lemma startup_reads:
  assumes "exe [a, b, c] x" and "arrivals (world x) = [] # [] # [] # [] # [PrimaryATA] # [] # [] # [] # bs" and "distinct [a, b, c]"
    and "task_futures x a = Some ExampleTask" and "task_futures x b = Some (DiskReadTask DiskNotStarted)"
    and "task_futures x c = Some (KeypressTask NotStarted)" and "\<forall>k. fst (cached_waker k (waker_cache x)) = \<lparr>waker_id = k\<rparr>"
    and "SCANCODE_QUEUE (world x) = None" and "ata_idle ready (ata (world x))"
  shows "\<exists>x'. (\<forall>n. run_turns (kernel_exec B) (Suc (Suc n)) x = run_turns (kernel_exec B) n x') \<and>
    write_string (example_line @ disk_greeting (status_of (ata (world x))) @ disk_done @ disk_report (image (ports (ata (world x))) 0))
      (writer (world x)) = Ret (writer (world x')) \<and>
    task_futures x' = (task_futures x)(a := None, b := None, c \<mapsto> KeypressTask (Reading (kd_new (b_decoder B)))) \<and>
    att c (kd_new (b_decoder B)) [] [] x' \<and> arrivals (world x') = bs \<and> ata_idle ready (ata (world x'))"
proof -
  let ?k = "kd_new (b_decoder B)" and ?d = "image (ports (ata (world x))) 0"
  obtain x1 where x1: "run_ready_tasks (kernel_exec B) x = Some (Ret (), x1)"
    "write_string (example_line @ disk_greeting (status_of (ata (world x)))) (writer (world x)) = Ret (writer (world x1))"
    "task_futures x1 = (task_futures x)(a := None, b \<mapsto> DiskReadTask AwaitingSector, c \<mapsto> KeypressTask (Reading ?k))"
    "att c ?k [] [] x1" "arrivals (world x1) = [PrimaryATA] # [] # [] # [] # bs" "asking E ready areg \<lparr>waker_id = b\<rparr> ?d (ata (world x1))"
    "\<forall>k. fst (cached_waker k (waker_cache x1)) = \<lparr>waker_id = k\<rparr>" by (rule startup_polls [OF assms])
  have e1: "exe [] x1" using x1(4) by (simp add: attending_def)
  obtain x2 where x2: "sleep_if_idle (kernel_exec B) x1 = (Ret False, x2)" "exe [b] x2" "arrivals (world x2) = [] # [] # [] # bs" "same_tasks x1 x2"
    "write_string disk_done (writer (world x1)) = Ret (writer (world x2))" "fetched ready ?d (ata (world x2))" "kbd_part (world x2) = kbd_part (world x1)"
    by (rule sector_arrives [OF e1 x1(5,6)])
  have t: "task_futures x2 b = Some (DiskReadTask AwaitingSector)" "fst (cached_waker b (waker_cache x2)) = \<lparr>waker_id = b\<rparr>"
    using x1(3,7) x2(4) assms(3) by simp_all
  obtain x3 where x3: "\<forall>n. run_turns (kernel_exec B) (Suc n) x2 = run_turns (kernel_exec B) n x3" "exe [] x3" "arrivals (world x3) = bs"
    "task_futures x3 = (task_futures x2)(b := None)" "write_string (disk_report ?d) (writer (world x2)) = Ret (writer (world x3))"
    "ata_idle ready (ata (world x3))" "kbd_part (world x3) = kbd_part (world x2)"
    "\<forall>k. fst (cached_waker k (waker_cache x3)) = fst (cached_waker k (waker_cache x2))"
    by (rule second_turn [OF x2(2,3) t x2(6)])
  have "\<forall>n. run_turns (kernel_exec B) (Suc (Suc n)) x = run_turns (kernel_exec B) n x3"
    using x1(1) x2(1) x3(1) by (simp add: run_turns.simps(2) [of _ "Suc n" x for n] del: run_turns.simps)
  moreover have "write_string (example_line @ disk_greeting (status_of (ata (world x))) @ disk_done @ disk_report ?d) (writer (world x)) =
      Ret (writer (world x3))"
    using write_string_trans [OF x1(2) write_string_trans [OF x2(5) x3(5)]] by simp
  moreover have "task_futures x3 = (task_futures x)(a := None, b := None, c \<mapsto> KeypressTask (Reading ?k))"
    using x1(3) x2(4) x3(4) assms(3) by (simp add: fun_eq_iff)
  moreover have "att c ?k [] [] x3"
    using x1(3,4,7) x2(4,7) x3(2,4,7,8) assms(3) by (simp add: attending_def scancodes_def) blast
  ultimately show ?thesis using x3(3,6) by blast
qed

end

section \<open>The boot\<close>

text \<open>What \<open>kernel_main\<close> prints before the tasks run: the box is at \<open>p\<close> and the master answers with \<open>status\<close>.\<close>

definition boot_text :: "usize \<Rightarrow> u8 \<Rightarrow> u8 list" where
  "boot_text p status = bytes ''Hello World!'' @ [0x0A] @ bytes ''heap_value at 0x'' @ show_hex (unat p) @ [0x0A] @
     lines_text (init_lines status) @ bytes ''It did not crash!'' @ [0x0A]"

context board_spec
begin

abbreviation calm where
  "calm s \<equiv> kernel_ready held items cap s \<and> are_enabled (env_irq (k_vga (b_kernel B))) (cpu s) \<and> kbd_woken s = [] \<and> woken (ata s) = []"

text \<open>A point of the boot at which no interrupt arrives.\<close>

lemma arrive_nothing:
  assumes "calm s" and "arrivals s = [] # bs"
  shows "arrive B s = (Ret (), s\<lparr>arrivals := bs\<rparr>)" and "calm (s\<lparr>arrivals := bs\<rparr>)"
  using assms take_woken_nothing [of "s\<lparr>arrivals := bs\<rparr>"] by (simp_all add: arrive_def batch_def next_batch_def io_bind_def)

lemma boot_init_shows:
  assumes "kernel_ready held items cap s" and "kbd_woken s = []" and "woken (ata s) = []" and "arrivals s = [] # bs"
  obtains s' where "boot_init B s = (Ret (), s')" and "calm s'" and "write_string (bytes ''Hello World!'' @ [0x0A]) (writer s) = Ret (writer s')"
    and "page_tables s' = page_tables s" and "heap_allocator s' = heap_allocator s" and "NEXT_ID s' = NEXT_ID s"
    and "ata s' = ata s" and "SCANCODE_QUEUE s' = SCANCODE_QUEUE s" and "arrivals s' = bs"
proof -
  obtain s1 where s1: "b_println B (bytes ''Hello World!'') s = (Ret (), s1)" "kernel_ready held items cap s1"
    "write_string (bytes ''Hello World!'' @ [0x0A]) (writer s) = Ret (writer s1)" "vga.more s1 = vga.more s"
    by (rule printsE [OF prints_println assms(1)])
  have f: "page_tables s1 = page_tables s" "heap_allocator s1 = heap_allocator s" "NEXT_ID s1 = NEXT_ID s" "ata s1 = ata s"
    "SCANCODE_QUEUE s1 = SCANCODE_QUEUE s" "arrivals s1 = [] # bs" "kbd_woken s1 = []"
    using s1(4) assms(2,4) by (cases s; cases s1; simp)+
  have "\<not> held (pics_lock s1)" using s1(2) by (simp add: kernel_ready_def)
  then obtain s2 where s2: "kernel_init (b_machine B) s1 = (Ret (), s2)" "calm s2" "writer s2 = writer s1" "page_tables s2 = page_tables s1"
    "heap_allocator s2 = heap_allocator s1" "NEXT_ID s2 = NEXT_ID s1" "ata s2 = ata s1" "SCANCODE_QUEUE s2 = SCANCODE_QUEUE s1" "arrivals s2 = [] # bs"
    using kernel_init_ok [OF vga_sync_axioms, of s1] s1(2) f(4,6,7) assms(3) by (auto simp: kernel_ready_def vga_ready_def kbd_ready_def)
  have "boot_init B s = (Ret (), s2\<lparr>arrivals := bs\<rparr>)"
    using s1(1) s2(1) arrive_nothing(1) [OF s2(2,9)] by (simp add: boot_init_def io_bind_def)
  then show ?thesis
    by (rule that) (use arrive_nothing(2) [OF s2(2,9)] s1(3) s2 f in simp_all)
qed

text \<open>A boot that ends in the panic of \<open>expect\<close>, because the heap cannot be mapped.\<close>

lemma boot_heap_short:
  assumes "paging_returns (b_paging B) ent offset" and "virt_addr_new (b_paging B) (physical_memory_offset boot_info) = Ret offset"
    and "map_ok (boot_memory_map boot_info)" and "length (frame_addresses (boot_memory_map boot_info)) < 25"
  obtains pt where "boot_heap B boot_info s = (Panic ''heap initialization failed'', s\<lparr>page_tables := pt\<rparr>)"
proof -
  let ?P = "b_paging B"
  let ?hs = "\<lparr>mapper = page_tables s, frame_alloc = BootInfoFrameAllocator_init (boot_memory_map boot_info), ALLOCATOR = heap_allocator s\<rparr>"
  have sp: "paging_spec ?P ent offset" using assms(1) by (simp add: paging_returns_def)
  obtain v where v: "virt_add ?P offset (cr3_read ?P (page_tables s)) = Ret v"
    using paging_spec.offset_law [OF sp paging_spec.cr3_law [OF sp]] by blast
  obtain e pt fa where "init_heap ?P (allocate_frame (b_oc B) ?P) (b_heap B) ?hs = (Ret (Err e), ?hs\<lparr>mapper := pt, frame_alloc := fa\<rparr>)"
    using init_heap_short [OF assms(1,3,4), of ?hs "b_oc B" "b_heap B"] by auto
  then show ?thesis
    by (intro that [of pt]) (use assms(2) v in \<open>simp add: boot_heap_def memory_init_def active_level_4_table_def io_bind_def\<close>)
qed

lemma boot_short:
  assumes "kernel_ready held items cap s" and "kbd_woken s = []" and "woken (ata s) = []" and "arrivals s = [] # bs"
    and "paging_returns (b_paging B) ent offset" and "virt_addr_new (b_paging B) (physical_memory_offset boot_info) = Ret offset"
    and "map_ok (boot_memory_map boot_info)" and "length (frame_addresses (boot_memory_map boot_info)) < 25"
  shows "\<exists>s'. on_panic (\<lambda>e. main_panic B (info e)) (boot_hardware B boot_info) s = (Hang, s') \<and>
    write_string (bytes ''Hello World!'' @ [0x0A] @ info ''heap initialization failed'' @ [0x0A]) (writer s) = Ret (writer s') \<and>
    heap_allocator s' = heap_allocator s \<and> NEXT_ID s' = NEXT_ID s \<and> ata s' = ata s"
proof -
  let ?info = "info ''heap initialization failed''"
  obtain s1 where s1: "boot_init B s = (Ret (), s1)" "calm s1" "write_string (bytes ''Hello World!'' @ [0x0A]) (writer s) = Ret (writer s1)"
    "heap_allocator s1 = heap_allocator s" "NEXT_ID s1 = NEXT_ID s" "ata s1 = ata s" by (rule boot_init_shows [OF assms(1-4)])
  obtain pt where pt: "boot_heap B boot_info s1 = (Panic ''heap initialization failed'', s1\<lparr>page_tables := pt\<rparr>)"
    by (rule boot_heap_short [OF assms(5-8)])
  have r: "kernel_ready held items cap (s1\<lparr>page_tables := pt\<rparr>)" using s1(2) by (auto simp: kernel_ready_def vga_ready_def kbd_ready_def)
  obtain s' where s': "b_println B ?info (s1\<lparr>page_tables := pt\<rparr>) = (Ret (), s')"
    "write_string (?info @ [0x0A]) (writer (s1\<lparr>page_tables := pt\<rparr>)) = Ret (writer s')" "vga.more s' = vga.more (s1\<lparr>page_tables := pt\<rparr>)"
    by (rule printsE [OF prints_println r])
  have f: "heap_allocator s' = heap_allocator s1" "NEXT_ID s' = NEXT_ID s1" "ata s' = ata s1" using s'(3) by (cases s1; cases s'; simp)+
  have "on_panic (\<lambda>e. main_panic B (info e)) (boot_hardware B boot_info) s = (Hang, s')"
    using s1(1) pt s'(1) by (simp add: on_panic_def main_panic_def boot_hardware_def hlt_loop_def io_bind_def)
  moreover have "write_string (bytes ''Hello World!'' @ [0x0A] @ ?info @ [0x0A]) (writer s) = Ret (writer s')"
    using write_string_trans [OF s1(3), of "?info @ [0x0A]" "writer s'"] s'(2) by simp
  ultimately show ?thesis using f s1(4-6) by (intro exI [of _ s']) simp
qed

text \<open>From the heap to the line with the address of the box.\<close>

lemma boot_heap_shows:
  assumes "calm s" and "arrivals s = [] # bs" and "heap_bootable B ent offset boot_info s"
  obtains s1 s2 s3 s' p where "boot_heap B boot_info s = (Ret (), s1)" and "arrive B s1 = (Ret (), s2)" and "box_new_i32 B s2 = (Ret p, s3)"
    and "b_println B (bytes ''heap_value at 0x'' @ show_hex (unat p)) s3 = (Ret (), s')" and "calm s'" and "p \<noteq> 0"
    and "write_string (bytes ''heap_value at 0x'' @ show_hex (unat p) @ [0x0A]) (writer s) = Ret (writer s')"
    and "heap_mapped (b_paging B) offset (boot_memory_map boot_info) (page_tables s')" and "NEXT_ID s' = NEXT_ID s"
    and "ata s' = ata s" and "SCANCODE_QUEUE s' = SCANCODE_QUEUE s" and "arrivals s' = bs"
proof -
  obtain pt al where h: "boot_heap B boot_info s = (Ret (), s\<lparr>page_tables := pt, heap_allocator := al\<rparr>)"
    "heap_mapped (b_paging B) offset (boot_memory_map boot_info) pt"
    "\<exists>p al'. fsb_alloc (b_heap B) \<lparr>l_size = 4, l_align = 4\<rparr> al = (Ret p, al') \<and> p \<noteq> 0" by (rule boot_heap_ok [OF assms(3)])
  obtain p al' where box: "fsb_alloc (b_heap B) \<lparr>l_size = 4, l_align = 4\<rparr> al = (Ret p, al')" "p \<noteq> 0" using h(3) by blast
  define s1 where "s1 = s\<lparr>page_tables := pt, heap_allocator := al\<rparr>"
  have s1: "calm s1" "arrivals s1 = [] # bs" using assms(1,2) by (auto simp: s1_def kernel_ready_def vga_ready_def kbd_ready_def)
  define s3 where "s3 = s1\<lparr>arrivals := bs, heap_allocator := al'\<rparr>"
  have s3: "kernel_ready held items cap s3" "box_new_i32 B (s1\<lparr>arrivals := bs\<rparr>) = (Ret p, s3)"
    using s1(1) box_new_ok [OF _ box(2), of "s1\<lparr>arrivals := bs\<rparr>"] box(1)
    by (auto simp: s3_def s1_def kernel_ready_def vga_ready_def kbd_ready_def)
  obtain s' where s': "b_println B (bytes ''heap_value at 0x'' @ show_hex (unat p)) s3 = (Ret (), s')" "kernel_ready held items cap s'"
    "write_string ((bytes ''heap_value at 0x'' @ show_hex (unat p)) @ [0x0A]) (writer s3) = Ret (writer s')" "vga.more s' = vga.more s3"
    "are_enabled (env_irq (k_vga (b_kernel B))) (cpu s') = are_enabled (env_irq (k_vga (b_kernel B))) (cpu s3)"
    by (rule printsE [OF prints_println s3(1)])
  have f: "page_tables s' = pt" "NEXT_ID s' = NEXT_ID s" "ata s' = ata s" "SCANCODE_QUEUE s' = SCANCODE_QUEUE s" "arrivals s' = bs" "kbd_woken s' = kbd_woken s"
    using s'(4) by (cases s; cases s'; simp add: s3_def s1_def)+
  show ?thesis
    by (rule that [OF h(1) [folded s1_def] arrive_nothing(1) [OF s1] s3(2) s'(1) _ box(2)])
      (use assms(1) h(2) s'(2,3,5) f in \<open>simp_all add: s3_def s1_def\<close>)
qed

text \<open>From the driver to the end of the boot.\<close>

lemma boot_driver_shows:
  assumes "calm s" and "arrivals s = [] # [] # bs" and "ata_init (k_ata (b_kernel B)) AtaDriver_new (ata s) = (Ret d, a)" and "woken a = []"
  obtains s1 s2 s3 s' where "arrive B s = (Ret (), s1)" and "on_ata (k_vga (b_kernel B)) (ata_init (k_ata (b_kernel B)) AtaDriver_new) s1 = (Ret d, s2)"
    and "arrive B s2 = (Ret (), s3)" and "b_println B (bytes ''It did not crash!'') s3 = (Ret (), s')" and "calm s'"
    and "write_string (lines_text (new_lines (ata s) a) @ bytes ''It did not crash!'' @ [0x0A]) (writer s) = Ret (writer s')"
    and "page_tables s' = page_tables s" and "NEXT_ID s' = NEXT_ID s" and "ata s' = a" and "SCANCODE_QUEUE s' = SCANCODE_QUEUE s" and "arrivals s' = bs"
proof -
  let ?init = "ata_init (k_ata (b_kernel B)) AtaDriver_new" and ?on = "\<lambda>s. are_enabled (env_irq (k_vga (b_kernel B))) (cpu s)"
  define s1 where "s1 = s\<lparr>arrivals := [] # bs\<rparr>"
  have s1: "arrive B s = (Ret (), s1)" "kernel_ready held items cap s1" "?on s1" "?init (ata s1) = (Ret d, a)"
    using arrive_nothing [OF assms(1,2)] assms(3) by (simp_all add: s1_def)
  obtain s2 where s2: "on_ata (k_vga (b_kernel B)) ?init s1 = (Ret d, s2)" "kernel_ready held items cap s2" "?on s2 = ?on s1"
    "write_string (lines_text (new_lines (ata s1) a)) (writer s1) = Ret (writer s2)" "vga.more s2 = vga.more (s1\<lparr>ata := a\<rparr>)"
    by (rule driver_call [of s1 ?init, OF s1(2,4)])
  have f2: "page_tables s2 = page_tables s" "NEXT_ID s2 = NEXT_ID s" "ata s2 = a" "SCANCODE_QUEUE s2 = SCANCODE_QUEUE s" "arrivals s2 = [] # bs"
    "kbd_woken s2 = kbd_woken s" using s2(5) by (cases s; cases s2; simp add: s1_def)+
  have c2: "calm s2" using s2(2,3) s1(3) f2 assms(1,4) by simp
  define s3 where "s3 = s2\<lparr>arrivals := bs\<rparr>"
  have s3: "arrive B s2 = (Ret (), s3)" "kernel_ready held items cap s3" "?on s3" using arrive_nothing [OF c2 f2(5)] by (simp_all add: s3_def)
  obtain s' where s': "b_println B (bytes ''It did not crash!'') s3 = (Ret (), s')" "kernel_ready held items cap s'"
    "write_string (bytes ''It did not crash!'' @ [0x0A]) (writer s3) = Ret (writer s')" "vga.more s' = vga.more s3" "?on s' = ?on s3"
    by (rule printsE [OF prints_println s3(2)])
  have f: "page_tables s' = page_tables s" "NEXT_ID s' = NEXT_ID s" "ata s' = a" "SCANCODE_QUEUE s' = SCANCODE_QUEUE s" "arrivals s' = bs"
    "kbd_woken s' = kbd_woken s" using s'(4) f2 by (cases s2; cases s'; simp add: s3_def)+
  have "write_string (lines_text (new_lines (ata s) a) @ bytes ''It did not crash!'' @ [0x0A]) (writer s) = Ret (writer s')"
    by (rule write_string_trans [of _ _ "writer s2"]) (use s2(4) s'(3) in \<open>simp_all add: s1_def s3_def\<close>)
  then show ?thesis
    using that [OF s1(1) s2(1) s3(1) s'(1)] assms(1,4) s'(2,5) s3(3) f by simp
qed

end

text \<open>The state the machine is switched on in, as far as the kernel relies on it, with a drive that is ready.\<close>

definition powered_on ::
  "('m \<Rightarrow> bool) \<Rightarrow> ('q \<Rightarrow> u8 list) \<Rightarrow> ('q \<Rightarrow> nat) \<Rightarrow> ('p \<Rightarrow> bool) \<Rightarrow> ('c, 'm, 'q, 'k, 'p, 'r, 'a, 'i, 'g, 'sel, 'u, 'pt, 'h) board \<Rightarrow> bool" where
  "powered_on held items cap ready s \<longleftrightarrow> kernel_ready held items cap s \<and> NEXT_ID s = 0 \<and> SCANCODE_QUEUE s = None \<and> kbd_woken s = [] \<and>
     DISK_REQUEST_QUEUE (ata s) = None \<and> DISK_WAKER (ata s) = None \<and> woken (ata s) = [] \<and> length (SECTOR_BUFFER (ata s)) = 512 \<and> ready (ports (ata s))"

text \<open>A drive that is ready again after a software reset, with its sectors as they were.\<close>

locale boot_disk = disk_running B held items cap registered titems tcap irq ready image areg
  for B :: "('c, 'm, 'q, 'k, 'p, 'r, 'a, 'i, 'g, 'sel, 'u, 'pt, 'h, 'tq, 'd, 'e) board_ops" and held :: "'m \<Rightarrow> bool"
    and items :: "'q \<Rightarrow> u8 list" and cap :: "'q \<Rightarrow> nat" and registered :: "'k \<Rightarrow> TaskWaker option"
    and titems :: "'tq \<Rightarrow> TaskId list" and tcap :: "'tq \<Rightarrow> nat"
    and irq :: "'p \<Rightarrow> bool" and ready :: "'p \<Rightarrow> bool" and image :: "'p \<Rightarrow> u32 \<Rightarrow> u8 list" and areg :: "'a \<Rightarrow> TaskWaker option" +
  assumes reset_law: "ready p \<Longrightarrow> ready (reset_ports (env_ports (k_ata (b_kernel B))) p) \<and> image (reset_ports (env_ports (k_ata (b_kernel B))) p) = image p"
begin

abbreviation master where "master p \<equiv> port_read8 (env_ports E) STATUS_COMMAND_PORT (reset_ports (env_ports E) p)"

text \<open>The driver is idle once it is initialized.\<close>

lemma init_idle:
  assumes "powered_on held items cap ready s"
  obtains a where "ata_init E AtaDriver_new (ata s) = (Ret \<lparr>initialized = True\<rparr>, a)" and "ata_idle ready a" and "ports a = snd (master (ports (ata s)))"
    and "image (ports a) = image (ports (ata s))" and "new_lines (ata s) a = init_lines (fst (master (ports (ata s))))"
proof -
  have "ready (reset_ports (env_ports E) (ports (ata s)))" "image (reset_ports (env_ports E) (ports (ata s))) = image (ports (ata s))"
    using assms reset_law by (simp_all add: powered_on_def)
  then have "ready (snd (master (ports (ata s))))" "image (snd (master (ports (ata s)))) = image (ports (ata s))" using status_law by auto
  with assms show ?thesis
    using that [OF ata_init_lines] by (auto simp: powered_on_def ata_idle_def new_lines_def)
qed

lemma boot_hardware_shows:
  assumes "powered_on held items cap ready s" and "arrivals s = [] # [] # [] # [] # bs" and "heap_bootable B ent offset boot_info s"
  obtains s' p where "boot_hardware B boot_info s = (Ret (), s')" and "calm s'" and "p \<noteq> 0"
    and "write_string (boot_text p (fst (master (ports (ata s))))) (writer s) = Ret (writer s')"
    and "heap_mapped (b_paging B) offset (boot_memory_map boot_info) (page_tables s')" and "NEXT_ID s' = 0" and "SCANCODE_QUEUE s' = None"
    and "arrivals s' = bs" and "ata_idle ready (ata s')" and "ports (ata s') = snd (master (ports (ata s)))" and "image (ports (ata s')) = image (ports (ata s))"
proof -
  have s: "kernel_ready held items cap s" "kbd_woken s = []" "woken (ata s) = []" "NEXT_ID s = 0" "SCANCODE_QUEUE s = None"
    using assms(1) by (simp_all add: powered_on_def)
  obtain a where a: "ata_init E AtaDriver_new (ata s) = (Ret \<lparr>initialized = True\<rparr>, a)" "ata_idle ready a" "ports a = snd (master (ports (ata s)))"
    "image (ports a) = image (ports (ata s))" "new_lines (ata s) a = init_lines (fst (master (ports (ata s))))" by (rule init_idle [OF assms(1)])
  have wa: "woken a = []" using a(2) by (simp add: ata_idle_def)
  obtain s1 where s1: "boot_init B s = (Ret (), s1)" "calm s1" "write_string (bytes ''Hello World!'' @ [0x0A]) (writer s) = Ret (writer s1)"
    "page_tables s1 = page_tables s" "heap_allocator s1 = heap_allocator s" "NEXT_ID s1 = NEXT_ID s"
    "ata s1 = ata s" "SCANCODE_QUEUE s1 = SCANCODE_QUEUE s" "arrivals s1 = [] # [] # [] # bs" by (rule boot_init_shows [OF s(1-3) assms(2)])
  have b1: "heap_bootable B ent offset boot_info s1" using assms(3) s1(4,5) by (simp add: heap_bootable_def)
  obtain s2 s3 s4 s5 p where s5: "boot_heap B boot_info s1 = (Ret (), s2)" "arrive B s2 = (Ret (), s3)" "box_new_i32 B s3 = (Ret p, s4)"
    "b_println B (bytes ''heap_value at 0x'' @ show_hex (unat p)) s4 = (Ret (), s5)" "calm s5" "p \<noteq> 0"
    "write_string (bytes ''heap_value at 0x'' @ show_hex (unat p) @ [0x0A]) (writer s1) = Ret (writer s5)"
    "heap_mapped (b_paging B) offset (boot_memory_map boot_info) (page_tables s5)" "NEXT_ID s5 = NEXT_ID s1"
    "ata s5 = ata s1" "SCANCODE_QUEUE s5 = SCANCODE_QUEUE s1" "arrivals s5 = [] # [] # bs" by (rule boot_heap_shows [OF s1(2,9) b1])
  have a5: "ata_init E AtaDriver_new (ata s5) = (Ret \<lparr>initialized = True\<rparr>, a)" using a(1) s1(7) s5(10) by simp
  obtain s6 s7 s8 s' where s': "arrive B s5 = (Ret (), s6)" "on_ata (k_vga (b_kernel B)) (ata_init E AtaDriver_new) s6 = (Ret \<lparr>initialized = True\<rparr>, s7)"
    "arrive B s7 = (Ret (), s8)" "b_println B (bytes ''It did not crash!'') s8 = (Ret (), s')" "calm s'"
    "write_string (lines_text (new_lines (ata s5) a) @ bytes ''It did not crash!'' @ [0x0A]) (writer s5) = Ret (writer s')"
    "page_tables s' = page_tables s5" "NEXT_ID s' = NEXT_ID s5" "ata s' = a" "SCANCODE_QUEUE s' = SCANCODE_QUEUE s5" "arrivals s' = bs"
    by (rule boot_driver_shows [OF s5(5,12) a5 wa])
  have "boot_hardware B boot_info s = (Ret (), s')"
    using s1(1) s5(1-4) s'(1-4) by (simp add: boot_hardware_def io_bind_def)
  moreover have "write_string (boot_text p (fst (master (ports (ata s))))) (writer s) = Ret (writer s')"
    using write_string_trans [OF s1(3) write_string_trans [OF s5(7) s'(6)]] a(5) s1(7) s5(10) by (simp add: boot_text_def)
  ultimately show ?thesis
    by (intro that [of s' p]) (use s s1(6,8) s5(6,8,9,11) s'(5,7-11) a(2-4) in simp_all)
qed

lemma runs_from_power_on:
  assumes "powered_on held items cap ready s" and "heap_bootable B ent offset boot_info s"
    and "arrivals s = [] # [] # [] # [] # [] # [] # [] # [] # [PrimaryATA] # [] # [] # [] # bs"
  shows "\<exists>x p. p \<noteq> 0 \<and> (\<forall>n. kernel_main B info boot_info (Suc (Suc n)) s = run_turns (kernel_exec B) n x) \<and>
    write_string (boot_text p (fst (master (ports (ata s)))) @ example_line @
        disk_greeting (fst (port_read8 (env_ports E) STATUS_COMMAND_PORT (snd (master (ports (ata s)))))) @
        disk_done @ disk_report (image (ports (ata s)) 0)) (writer s) = Ret (writer (world x)) \<and>
    task_futures x = [TaskId 2 \<mapsto> KeypressTask (Reading (kd_new (b_decoder B)))] \<and> att (TaskId 2) (kd_new (b_decoder B)) [] [] x \<and>
    arrivals (world x) = bs \<and> ata_idle ready (ata (world x))"
proof -
  obtain s1 p where s1: "boot_hardware B boot_info s = (Ret (), s1)" "calm s1" "p \<noteq> 0"
    "write_string (boot_text p (fst (master (ports (ata s))))) (writer s) = Ret (writer s1)"
    "NEXT_ID s1 = 0" "SCANCODE_QUEUE s1 = None" "arrivals s1 = [] # [] # [] # [] # [PrimaryATA] # [] # [] # [] # bs"
    "ata_idle ready (ata s1)" "ports (ata s1) = snd (master (ports (ata s)))" "image (ports (ata s1)) = image (ports (ata s))"
    by (rule boot_hardware_shows [OF assms(1,3,2)])
  obtain x where x: "spawn_tasks B (start_executor B s1) = (Ret (), x)" "titems (task_queue x) = [TaskId 0, TaskId 1, TaskId 2]"
    "task_futures x = [TaskId 0 \<mapsto> ExampleTask, TaskId 1 \<mapsto> DiskReadTask DiskNotStarted, TaskId 2 \<mapsto> KeypressTask NotStarted]"
    "world x = s1\<lparr>NEXT_ID := 3\<rparr>" "exec_cpu x = cpu s1" "tcap (task_queue x) = 100" "waker_cache x = Mapping.empty"
    using spawn_tasks_ok [OF task_queue_law s1(5)] by blast
  have e: "exe [TaskId 0, TaskId 1, TaskId 2] x"
    using x s1(2,6) by (simp add: executing_def kernel_ready_def vga_ready_def)
  have t: "task_futures x (TaskId 0) = Some ExampleTask" "task_futures x (TaskId 1) = Some (DiskReadTask DiskNotStarted)"
    "task_futures x (TaskId 2) = Some (KeypressTask NotStarted)" "distinct [TaskId 0, TaskId 1, TaskId 2]" using x(3) by simp_all
  have w: "\<forall>k. fst (cached_waker k (waker_cache x)) = \<lparr>waker_id = k\<rparr>" "arrivals (world x) = [] # [] # [] # [] # [PrimaryATA] # [] # [] # [] # bs"
    "SCANCODE_QUEUE (world x) = None" "ata_idle ready (ata (world x))"
    using x(4,7) s1(6-8) by (simp_all add: cached_waker_fst lookup_empty)
  from startup_reads [OF e w(2) t(4,1-3) w(1,3,4)] obtain x' where x': "\<forall>n. run_turns (kernel_exec B) (Suc (Suc n)) x = run_turns (kernel_exec B) n x'"
    "write_string (example_line @ disk_greeting (status_of (ata (world x))) @ disk_done @ disk_report (image (ports (ata (world x))) 0))
      (writer (world x)) = Ret (writer (world x'))"
    "task_futures x' = (task_futures x)(TaskId 0 := None, TaskId 1 := None, TaskId 2 \<mapsto> KeypressTask (Reading (kd_new (b_decoder B))))"
    "att (TaskId 2) (kd_new (b_decoder B)) [] [] x'" "arrivals (world x') = bs" "ata_idle ready (ata (world x'))" by blast
  have "\<forall>n. kernel_main B info boot_info (Suc (Suc n)) s = run_turns (kernel_exec B) n x'"
    using s1(1) x(1) x'(1) by (simp add: kernel_main_def on_panic_def del: run_turns.simps)
  moreover have "task_futures x' = [TaskId 2 \<mapsto> KeypressTask (Reading (kd_new (b_decoder B)))]" using x(3) x'(3) by (simp add: fun_eq_iff)
  moreover note write_string_trans [OF s1(4), of _ "writer (world x')"] x'(2)
  ultimately show ?thesis using s1(3,9,10) x(4) x'(4-6) by auto
qed

end

text \<open>The board of the reference instances is such a machine.\<close>

lemma board_reset: "reset_ports board_ports (d, x) = (d\<lparr>c_mode := Idle, c_device := DEVICE_MASTER\<rparr>, x)"
  by (simp add: reset_ports_def board_ports_def ctl_ports_def ctl_write8_def port_defs)

interpretation demo_boot: boot_disk demo_ops "\<lambda>m. m" snd fst "\<lambda>k. k" snd fst
  "\<lambda>(d, x). ctl_irq False d" "\<lambda>(d, x). ctl_ready d" "\<lambda>(d, x). c_image d" "\<lambda>k. k"
  by unfold_locales (auto simp: demo_ops_def board_env_def board_reset ctl_ready_def)

section \<open>Properties\<close>


lemma demo_powered_on: "powered_on (\<lambda>m. m) snd fst (\<lambda>(d, x). ctl_ready d) (demo_board\<lparr>arrivals := bs\<rparr>)"
  using blank_screen_ok blank_drive_ready
  by (simp add: powered_on_def kernel_ready_def vga_ready_def demo_board_def board_state_def machine.defs board.defs ata_start_def SECTOR_SIZE_def)



text \<open>One frame too few.\<close>

definition tiny_map :: "MemoryRegion list" where
  "tiny_map = [\<lparr>region_start = 0x100000, region_end = 0x118000, region_type = Usable\<rparr>]"

lemma tiny_map_ok: "map_ok tiny_map" "length (frame_addresses tiny_map) = 24"
  by (simp_all add: map_ok_def region_ok_def tiny_map_def frame_addresses_def region_frames_def step_range_length)


end
