(* ===== verification/Spec2Isabelle.thy ===== *)
theory Spec2Isabelle
  imports Locked_Alloc Fat32_Write Self_Tests Startup
begin

text \<open>
  Rusty OS: a verification development for the kernel under \<open>src/src\<close>.

  \<^bold>\<open>The program.\<close> \<open>kernel_main\<close> (\<open>main.rs\<close>) prints a greeting, calls \<open>init\<close> (\<open>lib.rs\<close>: descriptor tables of
  \<open>gdt.rs\<close> and \<open>interrupts.rs\<close>, interrupt controllers, interrupts on), maps the heap (\<open>memory.rs\<close>,
  \<open>allocator.rs\<close>), initializes the disk driver (\<open>ata.rs\<close>) and runs an executor (\<open>task/executor.rs\<close>) with three
  tasks: a line of text, a disk read, and the keyboard (\<open>task/keyboard.rs\<close>). Interrupt handlers feed the tasks
  through queues and wakers; all output goes through the locked text screen (\<open>vga_buffer.rs\<close>) or, in tests,
  the serial port (\<open>serial.rs\<close>). A FAT32 file system (\<open>fs/fat32.rs\<close>) sits on the disk driver.

  \<^bold>\<open>Conventions.\<close> A call is a function from a state to an outcome and a state. \<open>Ret\<close> is a return, \<open>Panic\<close> a
  panic with its message, and \<open>Hang\<close> a call that never returns, such as one that spins on a held lock. Machine
  integers are words; \<open>oc\<close> says whether the build checks overflow, and where it matters a theorem holds for both
  values. Crates are arguments of the definitions (records of operations); what the code relies on is the
  contract of a locale, and each contract is discharged for a concrete reference instance, which the
  witnesses run. The disk driver collects the lines it prints (\<open>ata_text\<close> is their text) and \<open>on_ata\<close> puts them on
  the screen when the call ends; \<open>on_ata_bind\<close> shows that a call cut into pieces gives the same screen. Where the code can be interrupted, the model takes what the handlers do at that point as an
  argument or as the next batch of a list of arrivals.

  \<^bold>\<open>Theories.\<close>
  \<^item> \<open>Rust_Prelude\<close>: integers, outcomes, sequencing, byte strings and the shared lemmas on lists and words.
  \<^item> \<open>Crates\<close>: \<open>ArrayQueue\<close>, \<open>AtomicWaker\<close>, \<open>spin::Mutex\<close>, the interrupt flag and ports, with the contracts
    \<open>queue_spec\<close>, \<open>waker_spec\<close>, \<open>spin_spec\<close> and \<open>irq_spec\<close> and their reference instances.
  \<^item> \<open>Allocator\<close>, \<open>Bump\<close>, \<open>Linked_List\<close>, \<open>Fixed_Size_Block\<close>, \<open>Locked_Alloc\<close>: \<open>allocator.rs\<close> and \<open>allocator/\<close>. The
    contract \<open>global_alloc\<close> (live blocks aligned, in the heap, disjoint) is interpreted on all three
    allocators; the lock \<open>Locked\<close> keeps it by a \<open>sublocale\<close>. The fallback heap of \<open>fixed_size_block.rs\<close> is a
    parameter, for which the kernel's own linked list allocator is an instance. Free lists live in an
    explicit memory, and a client may overwrite its blocks.
  \<^item> \<open>Memory\<close>: \<open>memory.rs\<close> and \<open>init_heap\<close>. Frame allocation, the walk through page tables, the heap mapping; the
    page tables of the crate are a parameter with the contracts \<open>paging_spec\<close> and \<open>paging_returns\<close>.
  \<^item> \<open>Vga\<close>: \<open>vga_buffer.rs\<close>. The writer refines a terminal of lines; printing in a critical section.
  \<^item> \<open>Keyboard\<close>: \<open>task/keyboard.rs\<close>. Scancode queue, stream and the loop of \<open>print_keypresses\<close>.
  \<^item> \<open>Task\<close>: \<open>task/mod.rs\<close>, \<open>task/executor.rs\<close>, \<open>task/simple_executor.rs\<close>. The executor's invariant by rule
    induction over its reachable states, fairness of \<open>run_ready_tasks\<close>, termination of the simple executor.
  \<^item> \<open>Interrupts\<close>: \<open>interrupts.rs\<close> and the tables of \<open>gdt.rs\<close>. Vectors, handlers, acknowledgement, and the
    driver's lines on the screen.
  \<^item> \<open>Kernel\<close>, \<open>Self_Tests\<close>: \<open>lib.rs\<close>, \<open>serial.rs\<close>, \<open>gdt::init\<close>, the test harness, and the tests inside the library.
  \<^item> \<open>Ata\<close>: \<open>ata.rs\<close>. The driver's statics are one record; the drive is a parameter with the contracts
    \<open>ata_device\<close> (what the ATA specification promises) and \<open>level_device\<close> (a drive that also interrupts before a
    write), both discharged for a reference controller.
  \<^item> \<open>Fat32\<close>, \<open>Fat32_Read\<close>, \<open>Fat32_Write\<close>: \<open>fs/fat32.rs\<close>. Operations over the two asynchronous sector operations,
    whose contracts \<open>sector_disk\<close> and \<open>sector_store\<close> hold for the ATA driver on every such drive.
  \<^item> \<open>Boot\<close>, \<open>Disk_Task\<close>, \<open>Startup\<close>: \<open>main.rs\<close> and the components together. \<open>kernel_exec\<close> gives the executor the
    kernel's own tasks and handlers; \<open>boot_disk\<close> is the contract of the machine that \<open>Startup\<close> runs from power on,
    with a drive that survives the driver's reset.

  \<^bold>\<open>What is shown.\<close> The kernel boots into a defined state under any interrupts on the way. On a quiet machine the
  screen is known byte for byte from power on until the keyboard task waits and the typed keys appear; with too little memory it shows the panic and
  halts. Key presses
  go from the handler to the screen, and a disk read from the command over the interrupt to the printed bytes. No wakeup is lost between handler and task, whatever the point of the
  interrupt. Printing and allocating never deadlock from a state with free locks, and every handler returns and
  acknowledges its own vector. The allocators are memory safe for every sequence of calls. Frames are handed out
  once, the heap is mapped page by page to distinct frames, and translation agrees with the processor's walk.
  The executor keeps its tasks, wakers and queue consistent. Files are read and listed as the volume says, and a
  file that was created is read back. Further theorems state where the code does less than it means to: writes
  through the disk driver wait for an interrupt that a drive need not raise, errors of the drive wake nobody,
  the request queue only fills, clusters of more than one sector lose data on \<open>create_file\<close>, an empty file
  cannot be read, oversized layouts panic in the linked list allocator, and a full task queue panics.

  \<^bold>\<open>Loops and bounds.\<close> Loops that need not end are partial functions to \<open>option\<close>, with \<open>None\<close> for an endless run:
  \<open>keypresses_loop\<close>, \<open>find_region_loop\<close>, \<open>run_ready_tasks\<close>, \<open>run_until_idle\<close> and \<open>simple_run\<close>; the theorems
  about them prove that they return. \<open>Executor::run\<close> never returns, so \<open>run_turns\<close> is its first \<open>n\<close> turns, for every
  \<open>n\<close>. An awaited disk operation is given \<open>n\<close> polls; two suffice for a read and three for a write, and every
  larger number gives the same. Chains of clusters are followed for at most 10000 steps, which is the
  source's own bound.

  \<^bold>\<open>Not modelled.\<close>
  \<^item> \<open>block_device.rs\<close>: a trait and its errors, which nothing implements or calls.
  \<^item> \<open>fs/mod.rs\<close> only declares a module, and the files of \<open>shell/\<close> are empty.
  \<^item> The integration tests under \<open>tests/\<close>, which call the same functions from their own entry points.
  \<^item> The code of the crates, of which only the contracts are used.
  \<^item> The allocations that the executor's collections and the vectors of the file system make.
  \<^item> The raw pointers that \<open>get_sector_buffer\<close> and \<open>get_sector_buffer_mut\<close> hand out: the driver's accesses through
    them read and update \<open>SECTOR_BUFFER\<close> directly.
\<close>

end
